(* ===== verification/Go_Prelude.thy ===== *)
theory Go_Prelude
  imports Main "HOL-Library.Word" "HOL-Library.Char_ord" "HOL-Library.List_Lexorder"
begin

section \<open>The fragment of Go that the servers are written in\<close>

text \<open>
  Shared vocabulary of the development.  A Go function becomes a HOL function; the ways it can
  take the whole process down (an index out of range, a nil pointer dereference, a division by zero, a slice of negative length, a call of
  \<open>log.Fatal\<close>) are values of \<open>crash\<close>, and a function that can do so returns
  \<open>crash + 'a\<close>.  An \<open>error\<close> of Go, which the caller inspects, is an ordinary value.
  The theory also holds the slice idioms (\<open>append\<close>, \<open>copy\<close>, indexing), the pieces of
  \<open>strings\<close>, \<open>strconv\<close> and \<open>hash/fnv\<close> that the sources call, and the generic
  lemmas about them.
\<close>

named_theorems go_simps \<open>evaluation rules of the crash monad and of slices\<close>

type_synonym u32 = "32 word"

datatype crash = IndexOutOfRange | NilDereference | DivideByZero | MakeSliceLength | LogFatal string

type_synonym 'a go = "crash + 'a"

text \<open>An \<open>error\<close> value of Go: made by \<open>errors.New\<close>, or by the RPC transport.\<close>

datatype go_error = Err string

subsection \<open>Sequencing\<close>

definition go_bind :: "'a go \<Rightarrow> ('a \<Rightarrow> 'b go) \<Rightarrow> 'b go" where
  "go_bind m f = (case m of Inl c \<Rightarrow> Inl c | Inr x \<Rightarrow> f x)"

lemma go_bind_simps [simp, go_simps]:
  "go_bind (Inl c) f = Inl c"
  "go_bind (Inr x) f = f x"
  by (simp_all add: go_bind_def)

lemma go_bind_eq_Inr: "go_bind m f = Inr y \<longleftrightarrow> (\<exists>x. m = Inr x \<and> f x = Inr y)"
  by (cases m) auto

lemma go_bind_cong [fundef_cong]:
  "m = m' \<Longrightarrow> (\<And>x. m' = Inr x \<Longrightarrow> f x = f' x) \<Longrightarrow> go_bind m f = go_bind m' f'"
  by (cases m') auto

lemma go_bind_split:
  "P (go_bind m f) \<longleftrightarrow> (\<forall>c. m = Inl c \<longrightarrow> P (Inl c)) \<and> (\<forall>x. m = Inr x \<longrightarrow> P (f x))"
  by (cases m) auto

text \<open>A computation that ends normally, and what holds of its result.\<close>

definition go_ok :: "'a go \<Rightarrow> bool" where
  "go_ok m \<longleftrightarrow> (\<exists>x. m = Inr x)"

lemma go_ok_simps [simp]: "go_ok (Inr x)" "\<not> go_ok (Inl c)"
  by (simp_all add: go_ok_def)

subsection \<open>Slices\<close>

text \<open>\<open>xs[i]\<close> panics when \<open>i\<close> is out of range.\<close>

definition go_index :: "'a list \<Rightarrow> int \<Rightarrow> 'a go" where
  "go_index xs i =
     (if 0 \<le> i \<and> i < int (length xs) then Inr (xs ! nat i) else Inl IndexOutOfRange)"

text \<open>\<open>xs[i] = v\<close>.\<close>

definition go_store :: "'a list \<Rightarrow> int \<Rightarrow> 'a \<Rightarrow> 'a list go" where
  "go_store xs i v =
     (if 0 \<le> i \<and> i < int (length xs) then Inr (xs[nat i := v]) else Inl IndexOutOfRange)"

text \<open>\<open>copy(dst[d:], src[s:])\<close>: the slice expressions panic past the end; \<open>copy\<close> moves
  as many elements as fit, reading the source as it was before the call.\<close>

definition go_copy :: "'a list \<Rightarrow> int \<Rightarrow> 'a list \<Rightarrow> int \<Rightarrow> 'a list go" where
  "go_copy dst d src s =
     (if 0 \<le> d \<and> d \<le> int (length dst) \<and> 0 \<le> s \<and> s \<le> int (length src) then
        let moved = take (length dst - nat d) (drop (nat s) src)
        in Inr (take (nat d) dst @ moved @ drop (nat d + length moved) dst)
      else Inl IndexOutOfRange)"

text \<open>Insertion at an index, the way every caller writes it: \<open>append\<close> one slot, shift the
  tail right with \<open>copy\<close>, store the value.\<close>

definition go_insert :: "'a \<Rightarrow> 'a list \<Rightarrow> int \<Rightarrow> 'a \<Rightarrow> 'a list go" where
  "go_insert zero xs i v =
     go_bind (go_copy (xs @ [zero]) (i + 1) xs i) (\<lambda>temp. go_store temp i v)"

text \<open>Deletion at an index: shift the tail left over the element and drop the last slot.\<close>

definition go_remove :: "'a list \<Rightarrow> int \<Rightarrow> 'a list go" where
  "go_remove xs i = go_bind (go_copy xs i xs (i + 1)) (\<lambda>ys. Inr (take (length ys - 1) ys))"

lemma go_index_nat [go_simps]: "i < length xs \<Longrightarrow> go_index xs (int i) = Inr (xs ! i)"
  by (simp add: go_index_def)

lemma go_index_Inr_iff:
  "go_index xs i = Inr x \<longleftrightarrow> 0 \<le> i \<and> i < int (length xs) \<and> x = xs ! nat i"
  by (auto simp: go_index_def)

lemma go_copy_shift:
  assumes "i \<le> length xs"
  shows "go_copy (xs @ [z]) (int i + 1) xs (int i) = Inr (take (i + 1) (xs @ [z]) @ drop i xs)"
proof -
  have n: "nat (int i + 1) = Suc i" by simp
  show ?thesis using assms by (simp add: go_copy_def n Let_def)
qed

text \<open>Some callers shift the extended slice over itself; \<open>copy\<close> stops at its end, so that the
  result is the same.\<close>

lemma go_copy_extended:
  assumes "i \<le> length xs"
  shows "go_copy (xs @ [z]) (int i + 1) (xs @ [z]) (int i) = go_copy (xs @ [z]) (int i + 1) xs (int i)"
proof -
  have n: "nat (int i + 1) = Suc i" by simp
  have "take (length xs - i) (drop i xs @ [z]) = drop i xs" by simp
  with assms show ?thesis by (simp add: go_copy_def n Let_def)
qed

lemma go_insert_nat [go_simps]:
  assumes "i \<le> length xs"
  shows "go_insert z xs (int i) v = Inr (take i xs @ v # drop i xs)"
proof -
  have "(take (i + 1) (xs @ [z]) @ drop i xs)[i := v] = take i xs @ v # drop i xs"
  proof (cases "i < length xs")
    case True
    then have "take (i + 1) (xs @ [z]) = take i xs @ [xs ! i]"
      by (simp add: take_Suc_conv_app_nth)
    with True show ?thesis by (simp add: list_update_append)
  next
    case False
    with assms show ?thesis by (simp add: list_update_append)
  qed
  with assms show ?thesis
    by (simp add: go_insert_def go_copy_shift go_store_def)
qed

lemma go_remove_nat [go_simps]:
  assumes "i < length xs"
  shows "go_remove xs (int i) = Inr (take i xs @ drop (Suc i) xs)"
proof -
  have n: "nat (int i + 1) = Suc i" by simp
  have "drop (i + (length xs - Suc i)) xs = [last xs]"
    using assms by (cases xs rule: rev_cases) auto
  moreover have "length xs - Suc 0 \<le> i \<Longrightarrow> i = length xs - Suc 0"
    using assms by simp
  ultimately show ?thesis
    using assms by (auto simp: go_remove_def go_copy_def n Let_def min_def)
qed

lemma go_insert_ok: "0 \<le> i \<Longrightarrow> i \<le> int (length xs) \<Longrightarrow>
    go_insert z xs i v = Inr (take (nat i) xs @ v # drop (nat i) xs)"
  using go_insert_nat [of "nat i" xs z v] by simp

lemma go_remove_ok: "0 \<le> i \<Longrightarrow> i < int (length xs) \<Longrightarrow>
    go_remove xs i = Inr (take (nat i) xs @ drop (Suc (nat i)) xs)"
  using go_remove_nat [of "nat i" xs] by simp

subsection \<open>Sorted slices without duplicates\<close>

text \<open>The servers keep several slices sorted by strict order; \<open>rank\<close> is the insertion point.\<close>

abbreviation ssorted :: "'a::linorder list \<Rightarrow> bool" where
  "ssorted \<equiv> sorted_wrt (<)"

definition rank :: "'a::linorder list \<Rightarrow> 'a \<Rightarrow> nat" where
  "rank xs v = length (takeWhile (\<lambda>x. x < v) xs)"

lemma rank_le [simp]: "rank xs v \<le> length xs"
  by (simp add: rank_def length_takeWhile_le)

lemma rank_Nil [simp]: "rank [] v = 0"
  by (simp add: rank_def)

lemma take_rank: "take (rank xs v) xs = takeWhile (\<lambda>x. x < v) xs"
  by (simp add: rank_def takeWhile_eq_take [symmetric])

lemma drop_rank: "drop (rank xs v) xs = dropWhile (\<lambda>x. x < v) xs"
  by (simp add: rank_def dropWhile_eq_drop)

lemma rank_below: "k < rank xs v \<Longrightarrow> xs ! k < v"
  unfolding rank_def by (metis nth_mem set_takeWhileD takeWhile_nth)

lemma rank_not_below: "rank xs v < length xs \<Longrightarrow> v \<le> xs ! rank xs v"
  unfolding rank_def using nth_length_takeWhile [of "\<lambda>x. x < v" xs] by auto

lemma ssorted_sorted: "ssorted xs \<Longrightarrow> sorted xs"
  by (simp add: strict_sorted_iff)

lemma ssorted_distinct: "ssorted xs \<Longrightarrow> distinct xs"
  by (simp add: strict_sorted_iff)

lemma sorted_dropWhile_less:
  "sorted xs \<Longrightarrow> x \<in> set (dropWhile (\<lambda>x. x < v) xs) \<Longrightarrow> v \<le> x"
  by (induction xs) (auto split: if_splits)

lemma rank_above: "sorted xs \<Longrightarrow> rank xs v \<le> k \<Longrightarrow> k < length xs \<Longrightarrow> v \<le> xs ! k"
  by (metis linorder_not_less order_trans rank_le rank_not_below sorted_nth_mono order_le_less_trans)

text \<open>Inserting at the rank keeps the slice strictly sorted and adds exactly the value.\<close>

definition ins_at_rank :: "'a::linorder list \<Rightarrow> 'a \<Rightarrow> 'a list" where
  "ins_at_rank xs v = take (rank xs v) xs @ v # drop (rank xs v) xs"

lemma set_ins_at_rank [simp]: "set (ins_at_rank xs v) = insert v (set xs)"
  unfolding ins_at_rank_def by (metis append_take_drop_id insert_is_Un list.simps(15) set_append Un_left_commute)

lemma length_ins_at_rank [simp]: "length (ins_at_rank xs v) = Suc (length xs)"
  by (simp add: ins_at_rank_def)

lemma ins_at_rank_not_Nil [simp]: "ins_at_rank xs v \<noteq> []"
  by (simp add: ins_at_rank_def)

lemma ssorted_ins_at_rank:
  assumes "ssorted xs" and "v \<notin> set xs"
  shows "ssorted (ins_at_rank xs v)"
proof -
  have 1: "ssorted (takeWhile (\<lambda>x. x < v) xs)"
    using assms(1) by (metis sorted_wrt_take takeWhile_eq_take)
  have 2: "ssorted (dropWhile (\<lambda>x. x < v) xs)"
    using assms(1) by (metis sorted_wrt_drop dropWhile_eq_drop)
  have 3: "\<And>x. x \<in> set (dropWhile (\<lambda>x. x < v) xs) \<Longrightarrow> v < x"
    using sorted_dropWhile_less [OF ssorted_sorted [OF assms(1)]] assms(2)
    by (metis order_le_less set_dropWhileD)
  have 4: "\<And>x. x \<in> set (takeWhile (\<lambda>x. x < v) xs) \<Longrightarrow> x < v"
    by (auto dest: set_takeWhileD)
  show ?thesis
    unfolding ins_at_rank_def take_rank drop_rank
    using 1 2 3 4 by (fastforce simp: sorted_wrt_append)
qed

lemma in_set_rank:
  assumes "sorted xs" and "v \<in> set xs"
  shows "rank xs v < length xs" "xs ! rank xs v = v"
proof -
  from assms(2) obtain k where k: "k < length xs" "xs ! k = v" by (metis in_set_conv_nth)
  have "rank xs v \<le> k" using k rank_below [of k xs v] by (metis less_irrefl not_le)
  then show 1: "rank xs v < length xs" using k by simp
  have "xs ! rank xs v \<le> v" using assms(1) \<open>rank xs v \<le> k\<close> k sorted_nth_mono by blast
  with rank_not_below [OF 1] show "xs ! rank xs v = v" by simp
qed

lemma ssorted_remove_nth:
  assumes "ssorted xs" and "i < length xs"
  shows "set (take i xs @ drop (Suc i) xs) = set xs - {xs ! i}"
    and "ssorted (take i xs @ drop (Suc i) xs)"
proof -
  have xs: "xs = take i xs @ xs ! i # drop (Suc i) xs"
    using assms(2) by (rule id_take_nth_drop)
  have "distinct (take i xs @ xs ! i # drop (Suc i) xs)"
    using ssorted_distinct [OF assms(1)] xs by simp
  then show "set (take i xs @ drop (Suc i) xs) = set xs - {xs ! i}"
    by (subst (3) xs) auto
  have "ssorted (take i xs @ xs ! i # drop (Suc i) xs)" using assms(1) xs by simp
  then show "ssorted (take i xs @ drop (Suc i) xs)" by (simp add: sorted_wrt_append)
qed

end
