(* ===== verification/Go_Strings.thy ===== *)
theory Go_Strings
  imports Go_Prelude
begin

unbundle bit_operations_syntax

section \<open>Strings, numbers in hexadecimal, and FNV hashing\<close>

text \<open>
  A Go string is a sequence of bytes, here \<open>string\<close>; its order (\<open><\<close> on Go strings) is the
  lexicographic order of \<open>HOL-Library.List_Lexorder\<close> over \<open>HOL-Library.Char_ord\<close>.
  This theory models what the sources use of \<open>strings.Split\<close> (with a one-byte separator),
  \<open>strconv.FormatInt\<close> and \<open>strconv.ParseInt\<close> (base 16, 64 bits) and \<open>fnv.New32\<close>.
\<close>

subsection \<open>strings.Split\<close>

fun split_on :: "char \<Rightarrow> string \<Rightarrow> string list" where
  "split_on sep [] = [[]]"
| "split_on sep (x # xs) =
     (if x = sep then [] # split_on sep xs
      else (case split_on sep xs of [] \<Rightarrow> [[x]] | y # ys \<Rightarrow> (x # y) # ys))"

lemma split_on_not_Nil [simp]: "split_on sep s \<noteq> []"
  by (cases s) (auto split: list.splits)

lemma split_on_sep [simp]: "sep \<notin> set s \<Longrightarrow> split_on sep (s @ sep # t) = s # split_on sep t"
  by (induction s) auto

lemma split_on_no_sep [simp]: "sep \<notin> set s \<Longrightarrow> split_on sep s = [s]"
  by (induction s) auto

lemma hd_split_on: "hd (split_on sep s) = takeWhile (\<lambda>c. c \<noteq> sep) s"
proof (induction s)
  case (Cons x s)
  then show ?case by (cases "split_on sep s") auto
qed simp

lemma takeWhile_sep_append [simp]:
  "takeWhile (\<lambda>c. c \<noteq> sep) (s @ sep # t) = takeWhile (\<lambda>c. c \<noteq> sep) s"
  by (induction s) auto

text \<open>A string with a separator splits into at least two pieces.\<close>

lemma length_split_on: "length (split_on sep s) = Suc (count_list s sep)"
proof (induction s)
  case (Cons x s)
  then show ?case by (cases "split_on sep s") auto
qed simp

lemma split_on_two_iff: "(\<exists>a b r. split_on sep s = a # b # r) \<longleftrightarrow> sep \<in> set s"
proof -
  have "(\<exists>a b r. split_on sep s = a # b # r) \<longleftrightarrow> 2 \<le> length (split_on sep s)"
    by (cases "split_on sep s") (auto simp: numeral_2_eq_2 Suc_le_length_iff)
  also have "\<dots> \<longleftrightarrow> 0 < count_list s sep" by (simp add: length_split_on) arith
  finally show ?thesis by (simp add: count_list_0_iff neq0_conv [symmetric])
qed

subsection \<open>strconv.FormatInt and the verb %x, base 16\<close>

definition hex_digit :: "nat \<Rightarrow> char" where
  "hex_digit n = ''0123456789abcdef'' ! n"

fun hex_digits :: "nat \<Rightarrow> string" where
  "hex_digits n = (if n < 16 then [hex_digit n] else hex_digits (n div 16) @ [hex_digit (n mod 16)])"

declare hex_digits.simps [simp del]

definition FormatInt16 :: "int \<Rightarrow> string" where
  "FormatInt16 i = (if i < 0 then CHR ''-'' # hex_digits (nat (- i)) else hex_digits (nat i))"

text \<open>The verb \<open>%d\<close> and \<open>strconv.Itoa\<close>.\<close>

fun dec_digits :: "nat \<Rightarrow> string" where
  "dec_digits n =
     (if n < 10 then [''0123456789'' ! n] else dec_digits (n div 10) @ [''0123456789'' ! (n mod 10)])"

declare dec_digits.simps [simp del]

definition Itoa :: "int \<Rightarrow> string" where
  "Itoa i = (if i < 0 then CHR ''-'' # dec_digits (nat (- i)) else dec_digits (nat i))"

text \<open>\<open>net.JoinHostPort\<close>: a host with a colon is put in brackets.\<close>

definition JoinHostPort :: "string \<Rightarrow> string \<Rightarrow> string" where
  "JoinHostPort host port =
     (if CHR '':'' \<in> set host then ''['' @ host @ '']:'' @ port else host @ '':'' @ port)"

subsection \<open>strconv.ParseInt, base 16 and 64 bits\<close>

definition hex_val :: "char \<Rightarrow> nat option" where
  "hex_val c =
     (let n = of_char c in
      if 48 \<le> n \<and> n \<le> 57 then Some (n - 48)
      else if 97 \<le> n \<and> n \<le> 102 then Some (n - 87)
      else if 65 \<le> n \<and> n \<le> 70 then Some (n - 55)
      else None)"

datatype parsed = Parsed nat | SyntaxError | RangeError

text \<open>The loop of \<open>ParseUint\<close>: a bad digit ends it before the overflow test of that digit.\<close>

fun parse_digits :: "string \<Rightarrow> nat \<Rightarrow> parsed" where
  "parse_digits [] n = Parsed n"
| "parse_digits (c # cs) n =
     (case hex_val c of
        None \<Rightarrow> SyntaxError
      | Some d \<Rightarrow> if 2 ^ 60 \<le> n then RangeError else parse_digits cs (n * 16 + d))"

definition ParseUint16 :: "string \<Rightarrow> parsed" where
  "ParseUint16 s = (if s = [] then SyntaxError else parse_digits s 0)"

text \<open>The value that \<open>ParseInt\<close> returns; every caller drops the error.  It is \<open>0\<close> on a
  syntax error and the nearest representable number when out of range.\<close>

definition ParseInt16 :: "string \<Rightarrow> int" where
  "ParseInt16 s =
     (let neg = (s \<noteq> [] \<and> hd s = CHR ''-'');
          t = (if s \<noteq> [] \<and> (hd s = CHR ''-'' \<or> hd s = CHR ''+'') then tl s else s)
      in case ParseUint16 t of
           SyntaxError \<Rightarrow> 0
         | RangeError \<Rightarrow> if neg then - (2 ^ 63) else 2 ^ 63 - 1
         | Parsed n \<Rightarrow>
             if neg then (if 2 ^ 63 < n then - (2 ^ 63) else - int n)
             else (if 2 ^ 63 \<le> n then 2 ^ 63 - 1 else int n))"

text \<open>Evaluation compares with the bounds as integers, since numerals of type \<open>nat\<close> are unary.\<close>

lemma parse_digits_code [code]:
  "parse_digits [] n = Parsed n"
  "parse_digits (c # cs) n =
     (case hex_val c of
        None \<Rightarrow> SyntaxError
      | Some d \<Rightarrow> if 2 ^ 60 \<le> int n then RangeError else parse_digits cs (n * 16 + d))"
  by (auto split: option.split)

lemma ParseInt16_code [code]:
  "ParseInt16 s =
     (let neg = (s \<noteq> [] \<and> hd s = CHR ''-'');
          t = (if s \<noteq> [] \<and> (hd s = CHR ''-'' \<or> hd s = CHR ''+'') then tl s else s)
      in case ParseUint16 t of
           SyntaxError \<Rightarrow> 0
         | RangeError \<Rightarrow> if neg then - (2 ^ 63) else 2 ^ 63 - 1
         | Parsed n \<Rightarrow>
             if neg then (if 2 ^ 63 < int n then - (2 ^ 63) else - int n)
             else (if 2 ^ 63 \<le> int n then 2 ^ 63 - 1 else int n))"
  by (auto simp: ParseInt16_def Let_def split: parsed.split)

definition int64 :: "int \<Rightarrow> bool" where
  "int64 i \<longleftrightarrow> - (2 ^ 63) \<le> i \<and> i < 2 ^ 63"

lemma ParseInt16_range: "int64 (ParseInt16 s)"
  by (auto simp: ParseInt16_def int64_def Let_def split: parsed.splits)

lemma less_16_cases: "(n::nat) < 16 \<Longrightarrow> n \<in> {0,1,2,3,4,5,6,7,8,9,10,11,12,13,14,15}"
  by (simp only: insert_iff empty_iff) presburger

lemma hex_digit_facts:
  assumes "n < 16"
  shows "hex_val (hex_digit n) = Some n"
    and "hex_digit n \<notin> {CHR ''-'', CHR ''+'', CHR '':'', CHR ''_'', CHR ''~''}"
  using less_16_cases [OF assms] by (auto simp: hex_digit_def hex_val_def)

lemma parse_hex_digits:
  "n < 2 ^ 64 \<Longrightarrow> parse_digits (hex_digits n @ s) 0 = parse_digits s n"
proof (induction n arbitrary: s rule: hex_digits.induct)
  case (1 n)
  show ?case
  proof (cases "n < 16")
    case True
    then show ?thesis by (simp add: hex_digits.simps [of n] hex_digit_facts(1))
  next
    case False
    with "1.prems" have "n div 16 < 2 ^ 64" and lt: "n div 16 < 2 ^ 60" by simp_all
    then have "parse_digits (hex_digits n @ s) 0 = parse_digits (hex_digit (n mod 16) # s) (n div 16)"
      using "1.IH" [OF False] False by (simp add: hex_digits.simps [of n])
    with lt show ?thesis by (simp add: hex_digit_facts(1))
  qed
qed

lemma hex_digits_chars:
  "c \<in> set (hex_digits n) \<Longrightarrow> c \<notin> {CHR ''-'', CHR ''+'', CHR '':'', CHR ''_'', CHR ''~''}"
proof (induction n rule: hex_digits.induct)
  case (1 n)
  have "hex_digit (n mod 16) \<notin> {CHR ''-'', CHR ''+'', CHR '':'', CHR ''_'', CHR ''~''}"
    by (rule hex_digit_facts) simp
  with "1.IH" "1.prems" show ?case
    by (cases "n < 16") (auto simp: hex_digits.simps [of n])
qed

lemma hex_digits_not_Nil [simp]: "hex_digits n \<noteq> []"
  by (subst hex_digits.simps) simp

lemma FormatInt16_chars: "c \<in> set (FormatInt16 i) \<Longrightarrow> c \<notin> {CHR ''+'', CHR '':'', CHR ''_'', CHR ''~''}"
  using hex_digits_chars [of c] by (auto simp: FormatInt16_def split: if_splits)

lemma ParseUint_hex_digits: "n < 2 ^ 64 \<Longrightarrow> ParseUint16 (hex_digits n) = Parsed n"
  using parse_hex_digits [of n "[]"] by (simp add: ParseUint16_def)

lemma ParseInt_FormatInt [simp]:
  assumes "int64 i"
  shows "ParseInt16 (FormatInt16 i) = i"
proof (cases "i < 0")
  case True
  with assms have "nat (- i) < 2 ^ 64" "\<not> 2 ^ 63 < nat (- i)" by (auto simp: int64_def)
  with True show ?thesis by (simp add: FormatInt16_def ParseInt16_def ParseUint_hex_digits)
next
  case False
  have hd: "hd (hex_digits (nat i)) \<notin> {CHR ''-'', CHR ''+''}"
    using hex_digits_chars [of "hd (hex_digits (nat i))" "nat i"] by auto
  from False assms have "nat i < 2 ^ 64" "\<not> 2 ^ 63 \<le> nat i" by (auto simp: int64_def)
  with False hd show ?thesis by (simp add: FormatInt16_def ParseInt16_def ParseUint_hex_digits)
qed

lemma FormatInt_inj: "int64 i \<Longrightarrow> int64 j \<Longrightarrow> FormatInt16 i = FormatInt16 j \<longleftrightarrow> i = j"
  by (metis ParseInt_FormatInt)

subsection \<open>hash/fnv: the 32-bit FNV-1 hash\<close>

definition fnv32_step :: "u32 \<Rightarrow> char \<Rightarrow> u32" where
  "fnv32_step h c = (h * 16777619) XOR of_char c"

definition fnv32 :: "string \<Rightarrow> u32" where
  "fnv32 s = foldl fnv32_step 2166136261 s"

end
