(* ===== verification/Util_Common.thy ===== *)
theory Util_Common
  imports Go_Strings
begin

section \<open>Searching sorted slices, the hash ring and lease records\<close>

text \<open>
  \<open>util/common.go\<close>, with \<open>StoreHash\<close> of \<open>libstore/libstore_api.go\<close> which it calls, and
  the copies of the two ring functions in \<open>libstore/libstore_impl.go\<close>.  The four binary
  searches of the sources are one loop, \<open>bin_search_loop\<close>, at four element types; the loop can
  crash only where reading the key of an element can.
\<close>

subsection \<open>The loop\<close>

text \<open>The bounds are Go's \<open>int\<close>.  The sum of two indices of a slice does not overflow, and it
  is not negative, so that \<open>/\<close> and \<open>div\<close> agree.\<close>

function bin_search_loop ::
  "('a \<Rightarrow> 'k::linorder go) \<Rightarrow> 'a list \<Rightarrow> 'k \<Rightarrow> int \<Rightarrow> int \<Rightarrow> int go" where
  "bin_search_loop key vals val i j =
     (if i \<le> j then
        let mid = (i + j) div 2 in
        go_bind (go_index vals mid) (\<lambda>x.
        go_bind (key x) (\<lambda>tar.
          if tar = val then Inr mid
          else if tar < val then bin_search_loop key vals val (mid + 1) j
          else bin_search_loop key vals val i (mid - 1)))
      else Inr i)"
  by pat_completeness auto
termination
  by (relation "measure (\<lambda>(key, vals, val, i, j). nat (j - i + 1))") auto

declare bin_search_loop.simps [simp del]

definition BinarySearchString :: "string list \<Rightarrow> string \<Rightarrow> int go" where
  "BinarySearchString vals val = bin_search_loop Inr vals val 0 (int (length vals) - 1)"

definition BinarySearchUint32 :: "u32 list \<Rightarrow> u32 \<Rightarrow> int go" where
  "BinarySearchUint32 vals val = bin_search_loop Inr vals val 0 (int (length vals) - 1)"

text \<open>The copy in the libstore package.\<close>

definition ls_binarySearchUint32 :: "u32 list \<Rightarrow> u32 \<Rightarrow> int go" where
  "ls_binarySearchUint32 vals val = bin_search_loop Inr vals val 0 (int (length vals) - 1)"

subsection \<open>The hash ring\<close>

definition StoreHash :: "string \<Rightarrow> u32" where
  "StoreHash key = fnv32 (hd (split_on CHR '':'' key))"

definition SearchHashRing :: "u32 list \<Rightarrow> string \<Rightarrow> u32 go" where
  "SearchHashRing ring key =
     (let hash = StoreHash key in
      go_bind (BinarySearchUint32 ring hash) (\<lambda>i.
        let i = (if i = int (length ring) then 0 else i) in
        go_index ring i))"

definition ls_searchHashRing :: "u32 list \<Rightarrow> string \<Rightarrow> u32 go" where
  "ls_searchHashRing ring key =
     (let hash = StoreHash key in
      go_bind (ls_binarySearchUint32 ring hash) (\<lambda>i.
        let i = (if i = int (length ring) then 0 else i) in
        go_index ring i))"

subsection \<open>Lease records\<close>

definition FormatLeaseRecord :: "string \<Rightarrow> int \<Rightarrow> string" where
  "FormatLeaseRecord hostport t = hostport @ ''~'' @ FormatInt16 t"

definition ParseLeaseRecord :: "string \<Rightarrow> (string \<times> int) go" where
  "ParseLeaseRecord leaseRecord =
     (let slist = split_on CHR ''~'' leaseRecord in
      go_bind (go_index slist 0) (\<lambda>hostport.
      go_bind (go_index slist 1) (\<lambda>res.
        Inr (hostport, ParseInt16 res))))"

definition BinarySearchLeaseRecord :: "string list \<Rightarrow> string \<Rightarrow> int go" where
  "BinarySearchLeaseRecord vals val =
     go_bind (ParseLeaseRecord val) (\<lambda>(val, _).
       bin_search_loop (\<lambda>r. go_bind (ParseLeaseRecord r) (\<lambda>(tar, _). Inr tar)) vals val
         0 (int (length vals) - 1))"

subsection \<open>What the loop computes\<close>

text \<open>On any slice the loop ends within the slice's bounds and never reads outside them.\<close>

lemma bin_search_loop_total:
  assumes "\<And>x. x \<in> set vals \<Longrightarrow> go_ok (key x)"
    and "0 \<le> i" and "j < int (length vals)" and "i \<le> j + 1"
  shows "\<exists>r. bin_search_loop key vals val i j = Inr r \<and> i \<le> r \<and> r \<le> j + 1"
  using assms
proof (induction key vals val i j rule: bin_search_loop.induct)
  case (1 key vals val i j)
  show ?case
  proof (cases "i \<le> j")
    case False
    then show ?thesis using "1.prems" by (simp add: bin_search_loop.simps [of key vals val i j])
  next
    case True
    define mid where "mid = (i + j) div 2"
    have mid: "i \<le> mid" "mid \<le> j" using True by (auto simp: mid_def)
    then have idx: "go_index vals mid = Inr (vals ! nat mid)" and "vals ! nat mid \<in> set vals"
      using "1.prems" by (auto simp: go_index_def intro!: nth_mem)
    then obtain tar where tar: "key (vals ! nat mid) = Inr tar"
      using "1.prems"(1) by (auto simp: go_ok_def)
    note unf = bin_search_loop.simps [of key vals val i j]
    consider "tar = val" | "tar < val" | "val < tar" by fastforce
    then show ?thesis
    proof cases
      case 1
      with True mid show ?thesis by (simp add: unf idx tar Let_def flip: mid_def)
    next
      case 2
      have "\<exists>r. bin_search_loop key vals val (mid + 1) j = Inr r \<and> mid + 1 \<le> r \<and> r \<le> j + 1"
        by (rule "1.IH"(1) [OF True mid_def idx tar]) (use 2 mid "1.prems" in auto)
      with 2 True mid show ?thesis by (auto simp: unf idx tar Let_def simp flip: mid_def)
    next
      case 3
      have "\<exists>r. bin_search_loop key vals val i (mid - 1) = Inr r \<and> i \<le> r \<and> r \<le> mid - 1 + 1"
        by (rule "1.IH"(2) [OF True mid_def idx tar]) (use 3 mid "1.prems" in auto)
      with 3 True mid show ?thesis by (auto simp: unf idx tar Let_def simp flip: mid_def)
    qed
  qed
qed

text \<open>On a slice whose keys are strictly sorted the result is the rank of the searched key.\<close>

lemma bin_search_loop_rank:
  assumes "\<And>x. x \<in> set vals \<Longrightarrow> key x = Inr (k x)" and "ssorted (map k vals)"
    and "0 \<le> i" and "j < int (length vals)"
    and "i \<le> int (rank (map k vals) val)" and "int (rank (map k vals) val) \<le> j + 1"
  shows "bin_search_loop key vals val i j = Inr (int (rank (map k vals) val))"
  using assms
proof (induction key vals val i j rule: bin_search_loop.induct)
  case (1 key vals val i j)
  let ?R = "rank (map k vals) val"
  note unf = bin_search_loop.simps [of key vals val i j]
  show ?case
  proof (cases "i \<le> j")
    case False
    with "1.prems" show ?thesis by (simp add: unf)
  next
    case True
    define mid where "mid = (i + j) div 2"
    have mid: "i \<le> mid" "mid \<le> j" "0 \<le> mid" "nat mid < length vals"
      using True "1.prems" by (auto simp: mid_def)
    then have idx: "go_index vals mid = Inr (vals ! nat mid)" and "vals ! nat mid \<in> set vals"
      by (auto simp: go_index_def)
    then have tar: "key (vals ! nat mid) = Inr (k (vals ! nat mid))" using "1.prems"(1) by blast
    have nth: "map k vals ! nat mid = k (vals ! nat mid)" using mid by simp
    have sorted: "sorted (map k vals)" by (rule ssorted_sorted [OF "1.prems"(2)])
    consider "k (vals ! nat mid) = val" | "k (vals ! nat mid) < val" | "val < k (vals ! nat mid)"
      by fastforce
    then show ?thesis
    proof cases
      case 1
      then have "val \<in> set (map k vals)" using \<open>vals ! nat mid \<in> set vals\<close> by auto
      note R = in_set_rank [OF sorted this]
      have "?R = nat mid"
        using nth_eq_iff_index_eq [OF ssorted_distinct [OF "1.prems"(2)] R(1), of "nat mid"] R(2) nth 1 mid
        by simp
      with 1 True mid show ?thesis by (simp add: unf idx tar Let_def flip: mid_def)
    next
      case 2
      then have "nat mid < ?R"
        using rank_above [OF sorted, of val "nat mid"] nth mid by force
      then have "bin_search_loop key vals val (mid + 1) j = Inr (int ?R)"
        by (intro "1.IH"(1) [OF True mid_def idx tar]) (use 2 mid "1.prems" in auto)
      with 2 True show ?thesis by (auto simp: unf idx tar Let_def simp flip: mid_def)
    next
      case 3
      then have "?R \<le> nat mid"
        using rank_below [of "nat mid" "map k vals" val] nth by (metis leI order_less_asym)
      then have "bin_search_loop key vals val i (mid - 1) = Inr (int ?R)"
        by (intro "1.IH"(2) [OF True mid_def idx tar]) (use 3 mid "1.prems" in auto)
      with 3 True show ?thesis by (auto simp: unf idx tar Let_def simp flip: mid_def)
    qed
  qed
qed

lemma bin_search_rank:
  assumes "\<And>x. x \<in> set vals \<Longrightarrow> key x = Inr (k x)" and "ssorted (map k vals)"
  shows "bin_search_loop key vals val 0 (int (length vals) - 1) = Inr (int (rank (map k vals) val))"
  using rank_le [of "map k vals" val] by (intro bin_search_loop_rank assms) auto

subsection \<open>The contract of a sorted search\<close>

text \<open>Every caller of a search relies on one law: on a slice of valid elements whose keys are
  strictly sorted, the search returns the rank of the key.\<close>

locale sorted_search =
  fixes search :: "'a list \<Rightarrow> 'k::linorder \<Rightarrow> int go"
    and k :: "'a \<Rightarrow> 'k"
    and valid :: "'a \<Rightarrow> bool"
  assumes search_rank:
    "\<lbrakk>\<forall>x\<in>set xs. valid x; ssorted (map k xs)\<rbrakk> \<Longrightarrow> search xs v = Inr (int (rank (map k xs) v))"
begin

lemma hit_iff:
  assumes "ssorted (map k xs)"
  shows "rank (map k xs) v < length xs \<and> k (xs ! rank (map k xs) v) = v \<longleftrightarrow> v \<in> k ` set xs"
proof
  assume "v \<in> k ` set xs"
  then have "v \<in> set (map k xs)" by simp
  from in_set_rank [OF ssorted_sorted [OF assms] this]
  show "rank (map k xs) v < length xs \<and> k (xs ! rank (map k xs) v) = v" by simp
next
  assume "rank (map k xs) v < length xs \<and> k (xs ! rank (map k xs) v) = v"
  then show "v \<in> k ` set xs" by (metis image_eqI nth_mem)
qed

text \<open>Searching and then inserting at the result is sorted insertion.\<close>

lemma search_then_insert:
  assumes "\<forall>x\<in>set xs. valid x" and "ssorted (map k xs)" and "k x \<notin> k ` set xs"
  obtains ys where "go_bind (search xs (k x)) (\<lambda>i. go_insert z xs i x) = Inr ys"
    and "set ys = insert x (set xs)" and "map k ys = ins_at_rank (map k xs) (k x)"
    and "ssorted (map k ys)"
proof -
  let ?R = "rank (map k xs) (k x)"
  let ?ys = "take ?R xs @ x # drop ?R xs"
  have le: "?R \<le> length xs" using rank_le [of "map k xs" "k x"] by simp
  have "go_bind (search xs (k x)) (\<lambda>i. go_insert z xs i x) = Inr ?ys"
    using le by (simp add: search_rank assms go_insert_nat)
  moreover have "set ?ys = insert x (set xs)"
    by (metis append_take_drop_id insert_is_Un list.simps(15) set_append Un_left_commute)
  moreover have m: "map k ?ys = ins_at_rank (map k xs) (k x)"
    by (simp add: ins_at_rank_def take_map drop_map)
  moreover have "ssorted (map k ?ys)"
    unfolding m using assms by (intro ssorted_ins_at_rank) auto
  ultimately show thesis by (rule that)
qed

end

interpretation string_search: sorted_search BinarySearchString "\<lambda>x. x" "\<lambda>_. True"
  by unfold_locales (simp add: BinarySearchString_def bin_search_rank [where k = "\<lambda>x. x"])

interpretation uint32_search: sorted_search BinarySearchUint32 "\<lambda>x. x" "\<lambda>_. True"
  by unfold_locales (simp add: BinarySearchUint32_def bin_search_rank [where k = "\<lambda>x. x"])

interpretation ls_uint32_search: sorted_search ls_binarySearchUint32 "\<lambda>x. x" "\<lambda>_. True"
  by unfold_locales (simp add: ls_binarySearchUint32_def bin_search_rank [where k = "\<lambda>x. x"])

text \<open>The key of a lease record is its host; a record is valid when it holds a separator.\<close>

definition lease_host :: "string \<Rightarrow> string" where
  "lease_host r = hd (split_on CHR ''~'' r)"

definition lease_time :: "string \<Rightarrow> int" where
  "lease_time r = ParseInt16 (split_on CHR ''~'' r ! 1)"

definition lease_record :: "string \<Rightarrow> bool" where
  "lease_record r \<longleftrightarrow> CHR ''~'' \<in> set r"

lemma ParseLeaseRecord_valid [simp]:
  "lease_record r \<Longrightarrow> ParseLeaseRecord r = Inr (lease_host r, lease_time r)"
  using split_on_two_iff [of "CHR ''~''" r]
  by (auto simp: ParseLeaseRecord_def lease_record_def lease_host_def lease_time_def go_index_def)

lemma ParseLeaseRecord_invalid [simp]:
  "\<not> lease_record r \<Longrightarrow> ParseLeaseRecord r = Inl IndexOutOfRange"
  by (simp add: ParseLeaseRecord_def lease_record_def go_index_def)

lemma lease_record_Format [simp]: "lease_record (FormatLeaseRecord h t)"
  by (simp add: lease_record_def FormatLeaseRecord_def)

lemma lease_host_Format [simp]: "CHR ''~'' \<notin> set h \<Longrightarrow> lease_host (FormatLeaseRecord h t) = h"
  by (simp add: lease_host_def FormatLeaseRecord_def)

lemma lease_time_Format [simp]:
  assumes "CHR ''~'' \<notin> set h" and "int64 t"
  shows "lease_time (FormatLeaseRecord h t) = t"
proof -
  have "CHR ''~'' \<notin> set (FormatInt16 t)" using FormatInt16_chars by blast
  with assms show ?thesis by (simp add: lease_time_def FormatLeaseRecord_def)
qed

interpretation lease_search: sorted_search
  "\<lambda>vals h. bin_search_loop (\<lambda>r. go_bind (ParseLeaseRecord r) (\<lambda>(tar, _). Inr tar)) vals h
       0 (int (length vals) - 1)"
  lease_host lease_record
  by unfold_locales (rule bin_search_rank, auto)

lemma BinarySearchLeaseRecord_rank:
  assumes "\<forall>r\<in>set vals. lease_record r" and "ssorted (map lease_host vals)" and "lease_record val"
  shows "BinarySearchLeaseRecord vals val = Inr (int (rank (map lease_host vals) (lease_host val)))"
  using assms by (simp add: BinarySearchLeaseRecord_def lease_search.search_rank)

subsection \<open>The owner of a key on the ring\<close>

text \<open>Consistent hashing: a key belongs to the first node at or after its hash, and to the first
  node of all when there is none.\<close>

definition ring_owner :: "u32 set \<Rightarrow> u32 \<Rightarrow> u32" where
  "ring_owner ids h = (if \<exists>n\<in>ids. h \<le> n then Min {n \<in> ids. h \<le> n} else Min ids)"

lemma ring_owner_member: "finite ids \<Longrightarrow> ids \<noteq> {} \<Longrightarrow> ring_owner ids h \<in> ids"
  using Min_in [of "{n \<in> ids. h \<le> n}"] Min_in [of ids] by (auto simp: ring_owner_def)

lemma ring_owner_single [simp]: "ring_owner {n} h = n"
  using ring_owner_member [of "{n}" h] by simp

lemma ring_lookup_owner:
  assumes "ssorted ring" and "ring \<noteq> []"
  shows "go_index ring (let i = int (rank ring h) in if i = int (length ring) then 0 else i)
    = Inr (ring_owner (set ring) h)"
proof (cases "rank ring h < length ring")
  case True
  let ?n = "ring ! rank ring h"
  have "Min {n \<in> set ring. h \<le> n} = ?n"
  proof (rule Min_eqI)
    fix n assume "n \<in> {n \<in> set ring. h \<le> n}"
    then obtain m where m: "m < length ring" "n = ring ! m" "h \<le> n" by (auto simp: in_set_conv_nth)
    then have "rank ring h \<le> m" using rank_below [of m ring h] by force
    with m show "?n \<le> n" using sorted_nth_mono [OF ssorted_sorted [OF assms(1)]] by simp
  qed (use True rank_not_below in auto)
  moreover have "\<exists>n\<in>set ring. h \<le> n" using True rank_not_below by (metis nth_mem)
  ultimately show ?thesis using True by (simp add: go_index_def ring_owner_def)
next
  case False
  then have len: "rank ring h = length ring" using rank_le [of ring h] by simp
  then have "\<not> (\<exists>n\<in>set ring. h \<le> n)"
    using rank_below [of _ ring h] by (metis in_set_conv_nth leD)
  moreover have "Min (set ring) = ring ! 0"
    using assms sorted_nth_mono [OF ssorted_sorted [OF assms(1)], of 0]
    by (intro Min_eqI) (auto simp: in_set_conv_nth)
  ultimately show ?thesis using len assms(2) by (simp add: go_index_def ring_owner_def)
qed

lemma SearchHashRing_owner:
  "ssorted ring \<Longrightarrow> ring \<noteq> [] \<Longrightarrow> SearchHashRing ring key = Inr (ring_owner (set ring) (StoreHash key))"
  using ring_lookup_owner [of ring "StoreHash key"]
  by (simp add: SearchHashRing_def uint32_search.search_rank Let_def)

lemma ls_searchHashRing_eq: "ls_searchHashRing = SearchHashRing"
  by (simp add: fun_eq_iff ls_searchHashRing_def SearchHashRing_def ls_binarySearchUint32_def
      BinarySearchUint32_def)

lemma ring_owner_insert:
  assumes "finite ids" and "ids \<noteq> {}"
  shows "ring_owner (insert n ids) h = ring_owner ids h \<or> ring_owner (insert n ids) h = n"
proof -
  have split: "{m \<in> insert n ids. h \<le> m} = (if h \<le> n then insert n {m \<in> ids. h \<le> m} else {m \<in> ids. h \<le> m})"
    by auto
  show ?thesis
  proof (cases "\<exists>m\<in>ids. h \<le> m")
    case True
    then have "{m \<in> ids. h \<le> m} \<noteq> {}" by auto
    with True assms show ?thesis
      unfolding ring_owner_def split by (auto simp: Min_insert min_def)
  next
    case False
    then have e: "{m \<in> ids. h \<le> m} = {}" by auto
    show ?thesis
      using False assms unfolding ring_owner_def split e by (auto simp: min_def)
  qed
qed

end
