(* ===== verification/Key_Formatter.thy ===== *)
theory Key_Formatter
  imports Util_Common
begin

section \<open>The keys of the application\<close>

text \<open>
  \<open>util/keyFormatter.go\<close>: the storage keys under which the application server keeps a user, the
  user's subscriptions, the list of the user's posts and each post.  All keys of one user share the
  prefix that \<open>StoreHash\<close> hashes, so that they live on one storage node.
\<close>

definition FormatUserKey :: "string \<Rightarrow> string" where
  "FormatUserKey userID = userID @ '':usrid''"

definition FormatSubListKey :: "string \<Rightarrow> string" where
  "FormatSubListKey userID = userID @ '':sublist''"

definition FormatPostKey :: "string \<Rightarrow> int \<Rightarrow> string" where
  "FormatPostKey userID postTime = userID @ '':post_'' @ FormatInt16 postTime"

text \<open>The three results of \<open>ParsePostKey\<close>, the error last.\<close>

definition ParsePostKey :: "string \<Rightarrow> (string \<times> int \<times> go_error option) go" where
  "ParsePostKey postKey =
     (let slist = split_on CHR '':'' postKey in
      if length slist < 2 then Inr ([], 0, Some (Err ''Invalid PostKey''))
      else
        go_bind (go_index slist 0) (\<lambda>userID.
        go_bind (go_index slist 1) (\<lambda>res.
          let slist = split_on CHR ''_'' res in
          if length slist < 2 then Inr (userID, 0, Some (Err ''Invalid PostKey''))
          else
            go_bind (go_index slist 1) (\<lambda>t.
              Inr (userID, ParseInt16 t, None)))))"

definition FormatPostListKey :: "string \<Rightarrow> string" where
  "FormatPostListKey userID = userID @ '':postlist''"

lemmas key_defs = FormatUserKey_def FormatSubListKey_def FormatPostKey_def FormatPostListKey_def

subsection \<open>Parsing never crashes\<close>

text \<open>The guards on the lengths make every index of \<open>ParsePostKey\<close> valid; its result, with the
  crash monad removed, is \<open>parse_post\<close>.\<close>

definition parse_post :: "string \<Rightarrow> string \<times> int \<times> go_error option" where
  "parse_post k = (case ParsePostKey k of Inr r \<Rightarrow> r | Inl _ \<Rightarrow> ([], 0, None))"

lemma ParsePostKey_total: "ParsePostKey k = Inr (parse_post k)"
  by (simp add: parse_post_def ParsePostKey_def go_index_def Let_def)

text \<open>The user and the time that the callers read off a key.\<close>

definition post_user :: "string \<Rightarrow> string" where
  "post_user k = fst (parse_post k)"

definition post_time :: "string \<Rightarrow> int" where
  "post_time k = fst (snd (parse_post k))"

lemma parse_post_eq: "parse_post k = (post_user k, post_time k, snd (snd (parse_post k)))"
  by (simp add: post_user_def post_time_def)

lemma post_time_range: "int64 (post_time k)"
proof -
  have "ParsePostKey k = Inr (u, t, err) \<Longrightarrow> int64 t" for u t err
    using ParseInt16_range
    by (auto simp: ParsePostKey_def Let_def go_bind_eq_Inr int64_def split: if_splits)
  moreover have "ParsePostKey k = Inr (post_user k, post_time k, snd (snd (parse_post k)))"
    using ParsePostKey_total parse_post_eq by metis
  ultimately show ?thesis .
qed

lemma split_colon_post:
  "CHR '':'' \<notin> set u \<Longrightarrow> split_on CHR '':'' (FormatPostKey u t) = [u, ''post_'' @ FormatInt16 t]"
proof -
  assume u: "CHR '':'' \<notin> set u"
  have "CHR '':'' \<notin> set (''post_'' @ FormatInt16 t)" using FormatInt16_chars by auto
  with u show ?thesis by (simp add: FormatPostKey_def)
qed

lemma parse_post_Format:
  assumes "CHR '':'' \<notin> set u" and "int64 t"
  shows "parse_post (FormatPostKey u t) = (u, t, None)"
proof -
  have "CHR ''_'' \<notin> set (FormatInt16 t)" using FormatInt16_chars by blast
  then have "split_on CHR ''_'' (''post_'' @ FormatInt16 t) = [''post'', FormatInt16 t]"
    using split_on_sep [of "CHR ''_''" "''post''" "FormatInt16 t"] by simp
  with assms split_colon_post [OF assms(1), of t] show ?thesis
    by (simp add: parse_post_def ParsePostKey_def go_index_def Let_def)
qed

lemma post_Format [simp]:
  assumes "CHR '':'' \<notin> set u" and "int64 t"
  shows "post_user (FormatPostKey u t) = u" and "post_time (FormatPostKey u t) = t"
  by (simp_all add: post_user_def post_time_def parse_post_Format [OF assms])

subsection \<open>The four families of keys\<close>

text \<open>The part of a key after its last colon tells the families apart, whatever the user.\<close>

definition key_suffix :: "string \<Rightarrow> string" where
  "key_suffix k = rev (takeWhile (\<lambda>c. c \<noteq> CHR '':'') (rev k))"

lemma key_suffix_append:
  assumes "CHR '':'' \<notin> set s"
  shows "key_suffix (u @ CHR '':'' # s) = s"
proof -
  have "takeWhile (\<lambda>c. c \<noteq> CHR '':'') (rev s) = rev s"
    using assms by (auto simp: takeWhile_eq_all_conv)
  then show ?thesis by (simp add: key_suffix_def del: takeWhile_eq_all_conv)
qed

lemma key_suffix_Format [simp]:
  "key_suffix (FormatUserKey u) = ''usrid''"
  "key_suffix (FormatSubListKey u) = ''sublist''"
  "key_suffix (FormatPostListKey u) = ''postlist''"
  "key_suffix (FormatPostKey u t) = ''post_'' @ FormatInt16 t"
proof -
  have "CHR '':'' \<notin> set (FormatInt16 t)" using FormatInt16_chars by blast
  then show "key_suffix (FormatPostKey u t) = ''post_'' @ FormatInt16 t"
    using key_suffix_append [of "''post_'' @ FormatInt16 t" u] by (simp add: FormatPostKey_def)
qed (use key_suffix_append [of "''usrid''" u] key_suffix_append [of "''sublist''" u]
      key_suffix_append [of "''postlist''" u] in \<open>simp_all add: key_defs\<close>)

text \<open>Lists live under the keys of two families.\<close>

definition list_key :: "string \<Rightarrow> bool" where
  "list_key k \<longleftrightarrow> key_suffix k \<in> {''sublist'', ''postlist''}"

lemma list_key_Format [simp]:
  "\<not> list_key (FormatUserKey u)" "list_key (FormatSubListKey u)"
  "list_key (FormatPostListKey u)" "\<not> list_key (FormatPostKey u t)"
  by (simp_all add: list_key_def)

lemma Format_inj [simp]:
  "FormatUserKey u = FormatUserKey v \<longleftrightarrow> u = v"
  "FormatSubListKey u = FormatSubListKey v \<longleftrightarrow> u = v"
  "FormatPostListKey u = FormatPostListKey v \<longleftrightarrow> u = v"
  by (simp_all add: key_defs)

lemma FormatPostKey_inj:
  assumes "int64 s" and "int64 t"
  shows "FormatPostKey u s = FormatPostKey v t \<longleftrightarrow> u = v \<and> s = t"
proof
  assume eq: "FormatPostKey u s = FormatPostKey v t"
  then have "FormatInt16 s = FormatInt16 t" using key_suffix_Format(4) by (metis same_append_eq)
  with eq assms show "u = v \<and> s = t" by (simp add: FormatPostKey_def FormatInt_inj)
qed simp

lemma Format_neq [simp]:
  "FormatUserKey u \<noteq> FormatSubListKey v" "FormatSubListKey v \<noteq> FormatUserKey u"
  "FormatUserKey u \<noteq> FormatPostListKey v" "FormatPostListKey v \<noteq> FormatUserKey u"
  "FormatUserKey u \<noteq> FormatPostKey v t" "FormatPostKey v t \<noteq> FormatUserKey u"
  "FormatSubListKey u \<noteq> FormatPostListKey v" "FormatPostListKey v \<noteq> FormatSubListKey u"
  "FormatSubListKey u \<noteq> FormatPostKey v t" "FormatPostKey v t \<noteq> FormatSubListKey u"
  "FormatPostListKey u \<noteq> FormatPostKey v t" "FormatPostKey v t \<noteq> FormatPostListKey u"
  by (rule notI, drule arg_cong [where f = key_suffix], simp)+

subsection \<open>Placement\<close>

lemma StoreHash_colon: "StoreHash (u @ CHR '':'' # s) = StoreHash u"
  by (simp add: StoreHash_def hd_split_on)

lemma StoreHash_Format [simp]:
  "StoreHash (FormatUserKey u) = StoreHash u"
  "StoreHash (FormatSubListKey u) = StoreHash u"
  "StoreHash (FormatPostListKey u) = StoreHash u"
  "StoreHash (FormatPostKey u t) = StoreHash u"
  by (simp_all add: key_defs StoreHash_colon)

end
