(* ===== verification/Util_Props.thy ===== *)
theory Util_Props
  imports Key_Formatter
begin

section \<open>Properties of the utility functions\<close>

text \<open>
  Binary search against a reference definition, the owner of a key on the hash ring and what adding
  a node changes, and the round trips of lease records and post keys.
\<close>

lemma rank_filter: "sorted xs \<Longrightarrow> rank xs v = length (filter (\<lambda>x. x < v) xs)"
proof (induction xs)
  case (Cons x xs)
  have "filter (\<lambda>y. y < v) xs = []" if "\<not> x < v" using Cons.prems that by (auto simp: filter_empty_conv)
  with Cons show ?case by (auto simp: rank_def)
qed simp

text \<open>C19: binary search never reads outside the slice and returns an index of the slice or its
  length, whatever the slice; on a strictly sorted slice it is the number of smaller elements.\<close>

theorem binary_search_counts_smaller:
  "(\<exists>i. BinarySearchString vals val = Inr i \<and> 0 \<le> i \<and> i \<le> int (length vals)) \<and>
   (ssorted vals \<longrightarrow> BinarySearchString vals val = Inr (int (length (filter (\<lambda>x. x < val) vals))))"
proof
  show "\<exists>i. BinarySearchString vals val = Inr i \<and> 0 \<le> i \<and> i \<le> int (length vals)"
    using bin_search_loop_total [of vals Inr 0 "int (length vals) - 1" val]
    by (auto simp: BinarySearchString_def)
  show "ssorted vals \<longrightarrow> BinarySearchString vals val = Inr (int (length (filter (\<lambda>x. x < val) vals)))"
    by (simp add: string_search.search_rank rank_filter ssorted_sorted)
qed

theorem binary_search_counts_smaller_witness:
  "ssorted [''a'', ''c'', ''e''] \<and> BinarySearchString [''a'', ''c'', ''e''] ''d'' = Inr 2"
  using binary_search_counts_smaller [of "[''a'', ''c'', ''e'']" "''d''"] by simp

text \<open>C17: on a strictly sorted ring that is not empty, the storage server and the libstore find
  the same owner of a key: the first node at or after the key's hash, and the first node of the ring
  when every node lies before the hash.\<close>

theorem hash_ring_owner:
  assumes "ssorted ring" and "ring \<noteq> []"
  shows "\<exists>n\<in>set ring. SearchHashRing ring key = Inr n \<and> ls_searchHashRing ring key = Inr n \<and>
     (if \<exists>m\<in>set ring. StoreHash key \<le> m
      then StoreHash key \<le> n \<and> (\<forall>m\<in>set ring. StoreHash key \<le> m \<longrightarrow> n \<le> m)
      else \<forall>m\<in>set ring. n \<le> m)"
proof -
  let ?n = "ring_owner (set ring) (StoreHash key)" and ?S = "{m \<in> set ring. StoreHash key \<le> m}"
  have "if \<exists>m\<in>set ring. StoreHash key \<le> m
      then StoreHash key \<le> ?n \<and> (\<forall>m\<in>set ring. StoreHash key \<le> m \<longrightarrow> ?n \<le> m)
      else \<forall>m\<in>set ring. ?n \<le> m"
  proof (cases "\<exists>m\<in>set ring. StoreHash key \<le> m")
    case True
    then have "Min ?S \<in> ?S" by (intro Min_in) auto
    with True show ?thesis by (simp add: ring_owner_def)
  next
    case False
    then show ?thesis by (simp add: ring_owner_def)
  qed
  moreover have "?n \<in> set ring" using assms(2) by (intro ring_owner_member) auto
  ultimately show ?thesis
    using SearchHashRing_owner [OF assms] by (auto simp: ls_searchHashRing_eq)
qed

theorem hash_ring_owner_witness:
  "\<exists>n\<in>set [5, 9 :: u32]. SearchHashRing [5, 9] ''u:usrid'' = Inr n \<and> ls_searchHashRing [5, 9] ''u:usrid'' = Inr n"
  using hash_ring_owner [of "[5, 9]" "''u:usrid''"] by auto

text \<open>C18: inserting a node into the ring, the way registration does it, moves keys to the new node
  only: every other key keeps its owner.\<close>

theorem ring_insertion_moves_keys_to_new_node:
  assumes "ssorted ring" and "ring \<noteq> []" and "n \<notin> set ring"
  shows "\<exists>ring'. go_bind (BinarySearchUint32 ring n) (\<lambda>i. go_insert 0 ring i n) = Inr ring' \<and>
     ssorted ring' \<and> set ring' = insert n (set ring) \<and>
     (SearchHashRing ring' key = SearchHashRing ring key \<or> SearchHashRing ring' key = Inr n)"
proof -
  obtain ring' where r: "go_bind (BinarySearchUint32 ring n) (\<lambda>i. go_insert 0 ring i n) = Inr ring'"
    "set ring' = insert n (set ring)" "ssorted ring'"
    using uint32_search.search_then_insert [of ring n 0 thesis] assms that by simp
  then have "ring' \<noteq> []" by auto
  with r assms ring_owner_insert [of "set ring" n "StoreHash key"] show ?thesis
    by (auto simp: SearchHashRing_owner)
qed

theorem ring_insertion_moves_keys_to_new_node_witness:
  "\<exists>ring'. go_bind (BinarySearchUint32 [5, 9] 7) (\<lambda>i. go_insert 0 [5, 9] i 7) = Inr ring' \<and>
     set ring' = {5, 7, 9} \<and>
     (SearchHashRing ring' ''u:usrid'' = SearchHashRing [5, 9] ''u:usrid'' \<or> SearchHashRing ring' ''u:usrid'' = Inr 7)"
proof -
  have "insert 7 (set [5, 9 :: u32]) = {5, 7, 9}" by auto
  with ring_insertion_moves_keys_to_new_node [of "[5, 9]" 7 "''u:usrid''"] show ?thesis by auto
qed

text \<open>C27: a lease record reads back as the host and time it was written with, for a host without
  the separator and a time that fits in 64 bits.\<close>

theorem lease_record_roundtrip:
  assumes "CHR ''~'' \<notin> set hostport" and "- (2 ^ 63) \<le> t" and "t < 2 ^ 63"
  shows "ParseLeaseRecord (FormatLeaseRecord hostport t) = Inr (hostport, t)"
  using assms by (simp add: int64_def)

theorem lease_record_roundtrip_witness:
  "ParseLeaseRecord (FormatLeaseRecord ''localhost:9010'' 1500000000) = Inr (''localhost:9010'', 1500000000)"
  using lease_record_roundtrip [of "''localhost:9010''" 1500000000] by simp

text \<open>C28: a post key reads back as the user and time it was made from when the user's name has no colon and the time
  fits in 64 bits.  The key of a user \<open>a:b\<close>, where \<open>a\<close> has no colon, always reads back as one of the user \<open>a\<close>, and
  hashes like it.  What is read as the time is in the part \<open>seg\<close> of \<open>b\<close> up to its next colon: without an underscore in
  it parsing fails with time 0, and with one the text after the first underscore, up to the next, is parsed
  as a hexadecimal number and no error is reported.\<close>

theorem post_key_roundtrip:
  assumes "CHR '':'' \<notin> set a" and "- (2 ^ 63) \<le> t" and "t < 2 ^ 63"
  defines "seg \<equiv> \<lambda>b. takeWhile (\<lambda>c. c \<noteq> CHR '':'') b"
  shows "ParsePostKey (FormatPostKey a t) = Inr (a, t, None) \<and>
     ParsePostKey (FormatPostKey (a @ CHR '':'' # b) t) =
       (if CHR ''_'' \<in> set (seg b) then Inr (a, ParseInt16 (split_on CHR ''_'' (seg b) ! 1), None)
        else Inr (a, 0, Some (Err ''Invalid PostKey''))) \<and>
     StoreHash (FormatPostKey (a @ CHR '':'' # b) t) = StoreHash (FormatPostKey a t)"
proof -
  let ?rest = "split_on CHR '':'' (b @ CHR '':'' # ''post_'' @ FormatInt16 t)"
  have "split_on CHR '':'' (FormatPostKey (a @ CHR '':'' # b) t) = a # ?rest"
    using assms(1) by (simp add: FormatPostKey_def)
  moreover have "hd ?rest = seg b" unfolding seg_def hd_split_on by (rule takeWhile_sep_append)
  then obtain more where "?rest = seg b # more" by (cases ?rest) auto
  moreover have "length (split_on CHR ''_'' (seg b)) < 2 \<longleftrightarrow> CHR ''_'' \<notin> set (seg b)"
    by (auto simp: length_split_on count_list_0_iff)
  then have "Suc 0 < length (split_on CHR ''_'' (seg b)) \<longleftrightarrow> CHR ''_'' \<in> set (seg b)"
    "length (split_on CHR ''_'' (seg b)) < 2 \<longleftrightarrow> CHR ''_'' \<notin> set (seg b)" by auto
  ultimately have "ParsePostKey (FormatPostKey (a @ CHR '':'' # b) t) =
       (if CHR ''_'' \<in> set (seg b) then Inr (a, ParseInt16 (split_on CHR ''_'' (seg b) ! 1), None)
        else Inr (a, 0, Some (Err ''Invalid PostKey'')))"
    by (simp add: ParsePostKey_def go_index_def Let_def)
  with assms(1-3) show ?thesis
    by (simp add: ParsePostKey_total parse_post_Format int64_def StoreHash_colon)
qed

theorem post_key_roundtrip_witness:
  "ParsePostKey (FormatPostKey ''roc'' 1500000000) = Inr (''roc'', 1500000000, None) \<and>
   ParsePostKey (FormatPostKey ''roc:x'' 1500000000) = Inr (''roc'', 0, Some (Err ''Invalid PostKey'')) \<and>
   ParsePostKey (FormatPostKey ''a:b_c'' 1500000000) = Inr (''a'', 12, None)"
proof -
  have "ParseInt16 ''c'' = 12" by code_simp
  then show ?thesis
    using post_key_roundtrip [of "''roc''" 1500000000 "''x''"] post_key_roundtrip [of "''a''" 1500000000 "''b_c''"] by simp
qed

text \<open>All keys of a user hash alike, so that one node of the ring holds them, and no two users
  and no two kinds of key collide.\<close>

lemma keys_of_a_user:
  assumes "int64 s" and "int64 t"
  shows "StoreHash (FormatUserKey u) = StoreHash (FormatSubListKey u) \<and>
     StoreHash (FormatUserKey u) = StoreHash (FormatPostListKey u) \<and>
     StoreHash (FormatUserKey u) = StoreHash (FormatPostKey u t) \<and>
     distinct [FormatUserKey u, FormatSubListKey u, FormatPostListKey u, FormatPostKey v t] \<and>
     (FormatUserKey u = FormatUserKey v \<longleftrightarrow> u = v) \<and>
     (FormatPostKey u s = FormatPostKey v t \<longleftrightarrow> u = v \<and> s = t)"
  using assms by (simp add: FormatPostKey_inj)

end
