(* ===== verification/Storage_Rpc.thy ===== *)
theory Storage_Rpc
  imports Go_Prelude
begin

section \<open>The storage RPC protocol\<close>

text \<open>
  The constants, argument and reply types of \<open>rpc/storagerpc/proto.go\<close>.  A reply starts as
  the zero value of its type, which \<open>net/rpc\<close> allocates before it calls the handler; the
  status of a zero reply is \<open>StatusUnset\<close> (the integer 0, which no constant names).
\<close>

datatype Status =
    StatusUnset
  | OK
  | KeyNotFound
  | ItemNotFound
  | WrongServer
  | ItemExists
  | NotReady

definition QueryCacheSeconds :: int where "QueryCacheSeconds = 10"
definition QueryCacheThresh :: nat where "QueryCacheThresh = 3"
definition LeaseSeconds :: int where "LeaseSeconds = 10"
definition LeaseGuardSeconds :: int where "LeaseGuardSeconds = 2"

lemmas lease_constants [simp] =
  QueryCacheSeconds_def QueryCacheThresh_def LeaseSeconds_def LeaseGuardSeconds_def

record Lease =
  Granted :: bool
  ValidSeconds :: int

record Node =
  HostPort :: string
  NodeID :: u32

record RegisterArgs =
  ServerInfo :: Node

record RegisterReply =
  reg_Status :: Status
  reg_Servers :: "Node list"

record GetServersReply =
  gs_Status :: Status
  gs_Servers :: "Node list"

record GetArgs =
  ga_Key :: string
  ga_WantLease :: bool
  ga_HostPort :: string

record GetReply =
  gr_Status :: Status
  gr_Value :: string
  gr_Lease :: Lease

record GetListReply =
  glr_Status :: Status
  glr_Value :: "string list"
  glr_Lease :: Lease

record PutArgs =
  pa_Key :: string
  pa_Value :: string

record PutReply =
  pr_Status :: Status

record DeleteArgs =
  da_Key :: string

record DeleteReply =
  dr_Status :: Status

record RevokeLeaseArgs =
  ra_Key :: string

record RevokeLeaseReply =
  rr_Status :: Status

text \<open>Zero values.\<close>

definition zero_Lease :: Lease where
  "zero_Lease = \<lparr>Granted = False, ValidSeconds = 0\<rparr>"

definition zero_GetReply :: GetReply where
  "zero_GetReply = \<lparr>gr_Status = StatusUnset, gr_Value = [], gr_Lease = zero_Lease\<rparr>"

definition zero_GetListReply :: GetListReply where
  "zero_GetListReply = \<lparr>glr_Status = StatusUnset, glr_Value = [], glr_Lease = zero_Lease\<rparr>"

lemmas zero_defs [simp] = zero_Lease_def zero_GetReply_def zero_GetListReply_def

end
