(* ===== verification/Storage_Server.thy ===== *)
theory Storage_Server
  imports Storage_Rpc Util_Common "HOL-Library.AList"
begin

section \<open>The storage server\<close>

text \<open>
  \<open>storageserver/storageserver_impl.go\<close>: the key-value server.  Its struct is the record
  \<open>storageServer\<close>; each RPC handler is one function from its arguments and the struct to the
  reply and the struct it leaves, inside the crash monad.  The mutex \<open>ss.lock\<close> makes the body
  of each handler one atomic step, which is what these functions are.  Handlers that change a key
  call back the lease holders of the key; the calls they make are returned as a list, in order.
  The Go map \<open>nodes\<close>, the only one the code iterates over, is an association list, and the
  order of the iteration is an argument.
\<close>

subsection \<open>State and environment\<close>

record storageServer =
  ss_nodeID :: u32
  ss_ring :: "u32 list"
  ss_nodes :: "(u32 \<times> string) list"
  ss_conns :: "string \<rightharpoonup> string"
  ss_numNodes :: int
  ss_storage :: "string \<rightharpoonup> string list"
  ss_tenants :: "string \<rightharpoonup> string list"

text \<open>What a handler reads from outside: \<open>clk n\<close> is the \<open>n\<close>-th reading of
  \<open>time.Now().Unix()\<close> it makes, \<open>dial h\<close> tells whether \<open>rpc.DialHTTP\<close> reaches \<open>h\<close>.\<close>

record env =
  clk :: "nat \<Rightarrow> int"
  dial :: "string \<Rightarrow> bool"

text \<open>A callback \<open>LeaseCallbacks.RevokeLease\<close>: the host it is sent to and the key.\<close>

type_synonym revocation = "string \<times> string"

type_synonym range_order = "(u32 \<times> string) list \<Rightarrow> (u32 \<times> string) list"

subsection \<open>Membership\<close>

definition node_of :: "u32 \<times> string \<Rightarrow> Node" where
  "node_of p = \<lparr>HostPort = snd p, NodeID = fst p\<rparr>"

definition ss_RegisterServer ::
  "range_order \<Rightarrow> RegisterArgs \<Rightarrow> storageServer \<Rightarrow> (RegisterReply \<times> storageServer) go" where
  "ss_RegisterServer rng args ss =
     (let addr = HostPort (ServerInfo args); nid = NodeID (ServerInfo args) in
      go_bind
        (if map_of (ss_nodes ss) nid = None then
           go_bind (BinarySearchUint32 (ss_ring ss) nid) (\<lambda>i.
           go_bind (go_insert 0 (ss_ring ss) i nid) (\<lambda>temp.
             Inr (ss\<lparr>ss_ring := temp, ss_nodes := AList.update nid addr (ss_nodes ss)\<rparr>)))
         else Inr ss)
        (\<lambda>ss.
          if ss_numNodes ss \<le> int (length (ss_ring ss)) then
            Inr (\<lparr>reg_Status = OK, reg_Servers = map node_of (rng (ss_nodes ss))\<rparr>, ss)
          else Inr (\<lparr>reg_Status = NotReady, reg_Servers = []\<rparr>, ss)))"

definition ss_GetServers :: "range_order \<Rightarrow> storageServer \<Rightarrow> GetServersReply" where
  "ss_GetServers rng ss =
     (if ss_numNodes ss \<le> int (length (ss_ring ss)) then
        \<lparr>gs_Status = OK, gs_Servers = map node_of (rng (ss_nodes ss))\<rparr>
      else \<lparr>gs_Status = NotReady, gs_Servers = []\<rparr>)"

definition keyRangeContains :: "storageServer \<Rightarrow> string \<Rightarrow> bool go" where
  "keyRangeContains ss key =
     go_bind (SearchHashRing (ss_ring ss) key) (\<lambda>nid.
       if ss_nodeID ss \<noteq> nid then Inr False else Inr True)"

subsection \<open>Leases\<close>

definition recordLease :: "int \<Rightarrow> string \<Rightarrow> string \<Rightarrow> storageServer \<Rightarrow> storageServer go" where
  "recordLease now key hostport ss =
     (let tlist = (case ss_tenants ss key of None \<Rightarrow> [] | Some tlist \<Rightarrow> tlist);
          leaseRecord = FormatLeaseRecord hostport now in
      go_bind (BinarySearchLeaseRecord tlist leaseRecord) (\<lambda>i.
      go_bind
        (if i < int (length tlist) then
           go_bind (go_index tlist i) (\<lambda>r. go_bind (ParseLeaseRecord r) (\<lambda>(tar, _). Inr tar))
         else Inr [])
        (\<lambda>tar.
          if int (length tlist) \<le> i \<or> tar \<noteq> hostport then
            go_bind (go_insert [] tlist i leaseRecord) (\<lambda>tlist.
              Inr (ss\<lparr>ss_tenants := (ss_tenants ss)(key \<mapsto> tlist)\<rparr>))
          else Inr ss)))"

definition getAppServer :: "env \<Rightarrow> string \<Rightarrow> storageServer \<Rightarrow> (string \<times> storageServer) go" where
  "getAppServer e hostPort ss =
     (case ss_conns ss hostPort of
        None \<Rightarrow>
          if dial e hostPort then
            Inr (hostPort, ss\<lparr>ss_conns := (ss_conns ss)(hostPort \<mapsto> hostPort)\<rparr>)
          else Inl (LogFatal ''rpc error:'')
      | Some cli \<Rightarrow> Inr (cli, ss))"

text \<open>The loop over the lease holders.  A record older than the lease and its guard time is
  skipped; any other holder is called, and the loop goes on when the call is answered or when the
  lease has run out, whichever is first.\<close>

fun revoke_loop ::
  "env \<Rightarrow> nat \<Rightarrow> string \<Rightarrow> string list \<Rightarrow> storageServer \<Rightarrow> (revocation list \<times> storageServer) go"
where
  "revoke_loop e n key [] ss = Inr ([], ss)"
| "revoke_loop e n key (leaseRecord # rest) ss =
     go_bind (ParseLeaseRecord leaseRecord) (\<lambda>(host, t).
       let expire_t = t + LeaseSeconds + LeaseGuardSeconds in
       if expire_t < clk e n then revoke_loop e (Suc n) key rest ss
       else
         go_bind (getAppServer e host ss) (\<lambda>(cli, ss).
         go_bind (revoke_loop e (Suc n) key rest ss) (\<lambda>(calls, ss).
           Inr ((cli, key) # calls, ss))))"

definition revokeLease :: "env \<Rightarrow> string \<Rightarrow> storageServer \<Rightarrow> (revocation list \<times> storageServer) go" where
  "revokeLease e key ss =
     (case ss_tenants ss key of
        None \<Rightarrow> Inr ([], ss)
      | Some tenants \<Rightarrow>
          go_bind (revoke_loop e 0 key tenants ss) (\<lambda>(calls, ss).
            Inr (calls, ss\<lparr>ss_tenants := (ss_tenants ss)(key := None)\<rparr>)))"

subsection \<open>The data handlers\<close>

definition granted_lease :: Lease where
  "granted_lease = \<lparr>Granted = True, ValidSeconds = LeaseSeconds\<rparr>"

definition ss_Get :: "env \<Rightarrow> GetArgs \<Rightarrow> storageServer \<Rightarrow> (GetReply \<times> storageServer) go" where
  "ss_Get e args ss =
     (let key = ga_Key args; wantLease = ga_WantLease args; reply = zero_GetReply in
      go_bind (keyRangeContains ss key) (\<lambda>mine.
        if \<not> mine then Inr (reply\<lparr>gr_Status := WrongServer\<rparr>, ss)
        else
          case ss_storage ss key of
            Some values \<Rightarrow>
              let reply = reply\<lparr>gr_Status := OK\<rparr>;
                  reply = (if 0 < length values then reply\<lparr>gr_Value := values ! 0\<rparr> else reply) in
              if wantLease then
                go_bind (recordLease (clk e 0) key (ga_HostPort args) ss) (\<lambda>ss.
                  Inr (reply\<lparr>gr_Lease := granted_lease\<rparr>, ss))
              else Inr (reply, ss)
          | None \<Rightarrow> Inr (reply\<lparr>gr_Status := KeyNotFound\<rparr>, ss)))"

definition ss_GetList :: "env \<Rightarrow> GetArgs \<Rightarrow> storageServer \<Rightarrow> (GetListReply \<times> storageServer) go" where
  "ss_GetList e args ss =
     (let key = ga_Key args; wantLease = ga_WantLease args; reply = zero_GetListReply in
      go_bind (keyRangeContains ss key) (\<lambda>mine.
        if \<not> mine then Inr (reply\<lparr>glr_Status := WrongServer\<rparr>, ss)
        else
          case ss_storage ss key of
            Some values \<Rightarrow>
              let reply = reply\<lparr>glr_Status := OK\<rparr>;
                  reply = (if 0 < length values then reply\<lparr>glr_Value := values\<rparr> else reply) in
              if wantLease then
                go_bind (recordLease (clk e 0) key (ga_HostPort args) ss) (\<lambda>ss.
                  Inr (reply\<lparr>glr_Lease := granted_lease\<rparr>, ss))
              else Inr (reply, ss)
          | None \<Rightarrow> Inr (reply\<lparr>glr_Status := KeyNotFound\<rparr>, ss)))"

definition ss_Delete ::
  "env \<Rightarrow> DeleteArgs \<Rightarrow> storageServer \<Rightarrow> (DeleteReply \<times> revocation list \<times> storageServer) go" where
  "ss_Delete e args ss =
     (let key = da_Key args in
      go_bind (keyRangeContains ss key) (\<lambda>mine.
        if \<not> mine then Inr (\<lparr>dr_Status = WrongServer\<rparr>, [], ss)
        else
          case ss_storage ss key of
            Some _ \<Rightarrow>
              go_bind (revokeLease e key ss) (\<lambda>(calls, ss).
                Inr (\<lparr>dr_Status = OK\<rparr>, calls, ss\<lparr>ss_storage := (ss_storage ss)(key := None)\<rparr>))
          | None \<Rightarrow> Inr (\<lparr>dr_Status = KeyNotFound\<rparr>, [], ss)))"

definition ss_Put ::
  "env \<Rightarrow> PutArgs \<Rightarrow> storageServer \<Rightarrow> (PutReply \<times> revocation list \<times> storageServer) go" where
  "ss_Put e args ss =
     (let key = pa_Key args in
      go_bind (keyRangeContains ss key) (\<lambda>mine.
        if \<not> mine then Inr (\<lparr>pr_Status = WrongServer\<rparr>, [], ss)
        else
          go_bind (revokeLease e key ss) (\<lambda>(calls, ss).
            Inr (\<lparr>pr_Status = OK\<rparr>, calls,
                 ss\<lparr>ss_storage := (ss_storage ss)(key \<mapsto> [pa_Value args])\<rparr>))))"

definition ss_AppendToList ::
  "env \<Rightarrow> PutArgs \<Rightarrow> storageServer \<Rightarrow> (PutReply \<times> revocation list \<times> storageServer) go" where
  "ss_AppendToList e args ss =
     (let key = pa_Key args; val = pa_Value args in
      go_bind (keyRangeContains ss key) (\<lambda>mine.
        if \<not> mine then Inr (\<lparr>pr_Status = WrongServer\<rparr>, [], ss)
        else
          case ss_storage ss key of
            Some values \<Rightarrow>
              if length values < 1 then
                Inr (\<lparr>pr_Status = OK\<rparr>, [],
                     ss\<lparr>ss_storage := (ss_storage ss)(key \<mapsto> values @ [val])\<rparr>)
              else
                go_bind (go_index values (int (length values) - 1)) (\<lambda>lastval.
                  if lastval < val then
                    go_bind (revokeLease e key ss) (\<lambda>(calls, ss).
                      Inr (\<lparr>pr_Status = OK\<rparr>, calls,
                           ss\<lparr>ss_storage := (ss_storage ss)(key \<mapsto> values @ [val])\<rparr>))
                  else
                    go_bind (BinarySearchString values val) (\<lambda>i.
                    go_bind (go_index values i) (\<lambda>x.
                      if x = val then Inr (\<lparr>pr_Status = ItemExists\<rparr>, [], ss)
                      else
                        go_bind (revokeLease e key ss) (\<lambda>(calls, ss).
                        go_bind (go_insert [] values i val) (\<lambda>values.
                          Inr (\<lparr>pr_Status = OK\<rparr>, calls,
                               ss\<lparr>ss_storage := (ss_storage ss)(key \<mapsto> values)\<rparr>))))))
          | None \<Rightarrow>
              Inr (\<lparr>pr_Status = OK\<rparr>, [], ss\<lparr>ss_storage := (ss_storage ss)(key \<mapsto> [val])\<rparr>)))"

definition ss_RemoveFromList ::
  "env \<Rightarrow> PutArgs \<Rightarrow> storageServer \<Rightarrow> (PutReply \<times> revocation list \<times> storageServer) go" where
  "ss_RemoveFromList e args ss =
     (let key = pa_Key args; val = pa_Value args in
      go_bind (keyRangeContains ss key) (\<lambda>mine.
        if \<not> mine then Inr (\<lparr>pr_Status = WrongServer\<rparr>, [], ss)
        else
          case ss_storage ss key of
            Some values \<Rightarrow>
              if length values < 1 then Inr (\<lparr>pr_Status = ItemNotFound\<rparr>, [], ss)
              else
                go_bind (BinarySearchString values val) (\<lambda>mid.
                go_bind
                  (if mid < int (length values) then
                     go_bind (go_index values mid) (\<lambda>x. Inr (x = val))
                   else Inr False)
                  (\<lambda>exists.
                    if exists then
                      go_bind (revokeLease e key ss) (\<lambda>(calls, ss).
                      go_bind (go_remove values mid) (\<lambda>values.
                        Inr (\<lparr>pr_Status = OK\<rparr>, calls,
                             ss\<lparr>ss_storage := (ss_storage ss)(key \<mapsto> values)\<rparr>)))
                    else Inr (\<lparr>pr_Status = ItemNotFound\<rparr>, [], ss)))
          | None \<Rightarrow> Inr (\<lparr>pr_Status = ItemNotFound\<rparr>, [], ss)))"

subsection \<open>The RPC interface\<close>

text \<open>The methods that \<open>storagerpc.Wrap\<close> exports, as one dispatcher.\<close>

datatype request =
    ReqRegister RegisterArgs
  | ReqGetServers
  | ReqGet GetArgs
  | ReqGetList GetArgs
  | ReqPut PutArgs
  | ReqDelete DeleteArgs
  | ReqAppend PutArgs
  | ReqRemove PutArgs

datatype response =
    RespRegister RegisterReply
  | RespGetServers GetServersReply
  | RespGet GetReply
  | RespGetList GetListReply
  | RespPut PutReply
  | RespDelete DeleteReply

fun ss_serve ::
  "range_order \<Rightarrow> env \<Rightarrow> request \<Rightarrow> storageServer \<Rightarrow> (response \<times> revocation list \<times> storageServer) go"
where
  "ss_serve rng e (ReqRegister a) ss =
     go_bind (ss_RegisterServer rng a ss) (\<lambda>(r, ss). Inr (RespRegister r, [], ss))"
| "ss_serve rng e ReqGetServers ss = Inr (RespGetServers (ss_GetServers rng ss), [], ss)"
| "ss_serve rng e (ReqGet a) ss = go_bind (ss_Get e a ss) (\<lambda>(r, ss). Inr (RespGet r, [], ss))"
| "ss_serve rng e (ReqGetList a) ss =
     go_bind (ss_GetList e a ss) (\<lambda>(r, ss). Inr (RespGetList r, [], ss))"
| "ss_serve rng e (ReqPut a) ss = go_bind (ss_Put e a ss) (\<lambda>(r, calls, ss). Inr (RespPut r, calls, ss))"
| "ss_serve rng e (ReqDelete a) ss =
     go_bind (ss_Delete e a ss) (\<lambda>(r, calls, ss). Inr (RespDelete r, calls, ss))"
| "ss_serve rng e (ReqAppend a) ss =
     go_bind (ss_AppendToList e a ss) (\<lambda>(r, calls, ss). Inr (RespPut r, calls, ss))"
| "ss_serve rng e (ReqRemove a) ss =
     go_bind (ss_RemoveFromList e a ss) (\<lambda>(r, calls, ss). Inr (RespPut r, calls, ss))"

section \<open>Starting a storage server\<close>

text \<open>What \<open>NewStorageServer\<close> meets while it starts: the outcome of \<open>net.Listen\<close> and of
  \<open>rpc.RegisterName\<close>, the struct as the RPC handlers have left it at the \<open>n\<close>-th poll of the
  master's waiting loop, the outcome of the \<open>n\<close>-th dial of the master and the outcome of the
  \<open>n\<close>-th registration call.\<close>

record startup =
  su_listen :: "string \<Rightarrow> go_error option"
  su_register :: "go_error option"
  su_polled :: "nat \<Rightarrow> storageServer"
  su_dial :: "nat \<Rightarrow> bool"
  su_call :: "nat \<Rightarrow> go_error + RegisterReply"

definition new_storageServer :: "string \<Rightarrow> int \<Rightarrow> int \<Rightarrow> u32 \<Rightarrow> storageServer" where
  "new_storageServer masterServerHostPort numNodes port nodeID =
     (let ss = \<lparr>ss_nodeID = nodeID, ss_ring = [], ss_nodes = [], ss_conns = Map.empty,
                ss_numNodes = numNodes, ss_storage = Map.empty, ss_tenants = Map.empty\<rparr>;
          hostport = ''localhost:'' @ Itoa port in
      if masterServerHostPort = [] then
        ss\<lparr>ss_ring := ss_ring ss @ [ss_nodeID ss], ss_nodes := AList.update nodeID hostport (ss_nodes ss)\<rparr>
      else ss)"

text \<open>The master polls until the ring is complete.\<close>

partial_function (option) await_ring :: "(nat \<Rightarrow> storageServer) \<Rightarrow> int \<Rightarrow> nat \<Rightarrow> storageServer option" where
  "await_ring polled numNodes n =
     (if int (length (ss_ring (polled n))) < numNodes then await_ring polled numNodes (Suc n)
      else Some (polled n))"

text \<open>A slave dials the master: the sixth failure is fatal.\<close>

function dial_master :: "(nat \<Rightarrow> bool) \<Rightarrow> nat \<Rightarrow> nat go" where
  "dial_master tries count =
     (if 5 < count then Inl (LogFatal ''dialing master:'')
      else if tries count then Inr count
      else dial_master tries (count + 1))"
  by pat_completeness auto
termination
  by (relation "measure (\<lambda>(tries, count). 6 - count)") auto

declare dial_master.simps [simp del]

text \<open>The servers of an OK reply are inserted into the ring one by one, in the reply's order.\<close>

fun add_servers :: "Node list \<Rightarrow> storageServer \<Rightarrow> storageServer go" where
  "add_servers [] ss = Inr ss"
| "add_servers (node # rest) ss =
     (let nid = NodeID node; addr = HostPort node in
      go_bind (BinarySearchUint32 (ss_ring ss) nid) (\<lambda>i.
      go_bind (go_insert 0 (ss_ring ss) i nid) (\<lambda>temp.
        add_servers rest (ss\<lparr>ss_ring := temp, ss_nodes := AList.update nid addr (ss_nodes ss)\<rparr>))))"

text \<open>The slave joins in one run.  The RPC server is up while the loop waits; a request that arrives meanwhile, such as a
  registration that is sent to the slave, is not interleaved with it.\<close>

partial_function (option) join_ring ::
  "(nat \<Rightarrow> go_error + RegisterReply) \<Rightarrow> nat \<Rightarrow> storageServer \<Rightarrow> storageServer go option" where
  "join_ring call count ss =
     (case call count of
        Inl err \<Rightarrow> Some (Inl (LogFatal ''rpc error:''))
      | Inr reply \<Rightarrow>
          if reg_Status reply = OK then
            Some (go_bind (add_servers (reg_Servers reply) ss) (\<lambda>ss.
              Inr (ss\<lparr>ss_numNodes := int (length (reg_Servers reply))\<rparr>)))
          else join_ring call (count + 1) ss)"

text \<open>\<open>None\<close>: the call does not return, because the ring is never complete.\<close>

definition NewStorageServer ::
  "startup \<Rightarrow> string \<Rightarrow> int \<Rightarrow> int \<Rightarrow> u32 \<Rightarrow> (go_error + storageServer) go option" where
  "NewStorageServer su masterServerHostPort numNodes port nodeID =
     (let ss = new_storageServer masterServerHostPort numNodes port nodeID;
          hostport = ''localhost:'' @ Itoa port in
      case su_listen su hostport of
        Some err \<Rightarrow> Some (Inr (Inl err))
      | None \<Rightarrow>
          (case su_register su of
             Some err \<Rightarrow> Some (Inr (Inl err))
           | None \<Rightarrow>
               if masterServerHostPort = [] then
                 map_option (\<lambda>ss. Inr (Inr ss)) (await_ring (su_polled su) numNodes 0)
               else
                 (case dial_master (su_dial su) 0 of
                    Inl c \<Rightarrow> Some (Inl c)
                  | Inr _ \<Rightarrow>
                      map_option (\<lambda>r. go_bind r (\<lambda>ss. Inr (Inr ss))) (join_ring (su_call su) 0 ss))))"

end
