(* ===== verification/Storage_Correct.thy ===== *)
theory Storage_Correct
  imports Storage_Server "HOL-Library.Multiset"
begin

text \<open>
  Correctness of the storage server: its invariant and that every handler keeps it, absence of
  crashes, the behaviour of the lease records, and the refinement of the handlers to operations on
  a finite map of sets (\<open>kv_put\<close> and its kin), which is the abstract specification of the
  data the server keeps.
\<close>

section \<open>The invariant of the storage server\<close>

text \<open>The ring is strictly sorted and holds exactly the registered nodes; every stored list is
  strictly sorted; leases are recorded for stored keys only, one record per host, sorted by host;
  a cached connection is to the host it is filed under.\<close>

definition members_wf :: "storageServer \<Rightarrow> bool" where
  "members_wf ss \<longleftrightarrow>
     ssorted (ss_ring ss) \<and> distinct (map fst (ss_nodes ss)) \<and> set (ss_ring ss) = fst ` set (ss_nodes ss)"

definition data_wf :: "storageServer \<Rightarrow> bool" where
  "data_wf ss \<longleftrightarrow> (\<forall>k vs. ss_storage ss k = Some vs \<longrightarrow> ssorted vs)"

definition tenants_wf :: "string list \<Rightarrow> bool" where
  "tenants_wf ts \<longleftrightarrow> (\<forall>r\<in>set ts. lease_record r) \<and> ssorted (map lease_host ts)"

definition leases_wf :: "storageServer \<Rightarrow> bool" where
  "leases_wf ss \<longleftrightarrow>
     (\<forall>k ts. ss_tenants ss k = Some ts \<longrightarrow> ss_storage ss k \<noteq> None \<and> tenants_wf ts)"

definition conns_wf :: "storageServer \<Rightarrow> bool" where
  "conns_wf ss \<longleftrightarrow> (\<forall>h c. ss_conns ss h = Some c \<longrightarrow> c = h)"

definition ss_inv :: "storageServer \<Rightarrow> bool" where
  "ss_inv ss \<longleftrightarrow> members_wf ss \<and> data_wf ss \<and> leases_wf ss \<and> conns_wf ss"

lemmas ss_inv_defs = ss_inv_def members_wf_def data_wf_def leases_wf_def conns_wf_def

subsection \<open>Ownership\<close>

definition owns :: "storageServer \<Rightarrow> string \<Rightarrow> bool" where
  "owns ss key \<longleftrightarrow> ss_nodeID ss = ring_owner (set (ss_ring ss)) (StoreHash key)"

lemma keyRangeContains_owns:
  "ss_inv ss \<Longrightarrow> ss_ring ss \<noteq> [] \<Longrightarrow> keyRangeContains ss key = Inr (owns ss key)"
  by (simp add: keyRangeContains_def SearchHashRing_owner ss_inv_def members_wf_def owns_def)

subsection \<open>Recording and revoking leases\<close>

definition tenants_of :: "storageServer \<Rightarrow> string \<Rightarrow> string list" where
  "tenants_of ss key = (case ss_tenants ss key of None \<Rightarrow> [] | Some ts \<Rightarrow> ts)"

definition holders :: "storageServer \<Rightarrow> string \<Rightarrow> string set" where
  "holders ss key = lease_host ` set (tenants_of ss key)"

lemma tenants_of_wf: "leases_wf ss \<Longrightarrow> tenants_wf (tenants_of ss key)"
  by (auto simp: leases_wf_def tenants_of_def tenants_wf_def split: option.splits)

lemma recordLease_held:
  assumes "leases_wf ss" and "CHR ''~'' \<notin> set h" and "h \<in> holders ss key"
  shows "recordLease now key h ss = Inr ss"
proof -
  let ?ts = "tenants_of ss key"
  have wf: "\<forall>r\<in>set ?ts. lease_record r" "ssorted (map lease_host ?ts)"
    using tenants_of_wf [OF assms(1)] by (auto simp: tenants_wf_def)
  have hit: "rank (map lease_host ?ts) h < length ?ts"
    "lease_host (?ts ! rank (map lease_host ?ts) h) = h"
    using lease_search.hit_iff [OF wf(2), of h] assms(3) by (auto simp: holders_def)
  moreover have "lease_record (?ts ! rank (map lease_host ?ts) h)" using wf(1) hit(1) by auto
  ultimately show ?thesis
    using assms(2)
    by (simp add: recordLease_def BinarySearchLeaseRecord_rank [OF wf] go_index_nat Let_def
        flip: tenants_of_def)
qed

lemma recordLease_new:
  assumes "leases_wf ss" and "CHR ''~'' \<notin> set h" and "h \<notin> holders ss key"
  obtains ts where "recordLease now key h ss = Inr (ss\<lparr>ss_tenants := (ss_tenants ss)(key \<mapsto> ts)\<rparr>)"
    and "set ts = insert (FormatLeaseRecord h now) (set (tenants_of ss key))" and "tenants_wf ts"
proof -
  let ?ts = "tenants_of ss key" and ?r = "FormatLeaseRecord h now"
  have wf: "\<forall>r\<in>set ?ts. lease_record r" "ssorted (map lease_host ?ts)"
    using tenants_of_wf [OF assms(1)] by (auto simp: tenants_wf_def)
  have k: "lease_host ?r = h" using assms(2) by simp
  then have miss: "lease_host ?r \<notin> lease_host ` set ?ts" using assms(3) by (simp add: holders_def)
  obtain ts where ts: "go_bind (Inr (int (rank (map lease_host ?ts) h))) (\<lambda>i. go_insert [] ?ts i ?r) = Inr ts"
    "set ts = insert ?r (set ?ts)" "ssorted (map lease_host ts)"
    using lease_search.search_then_insert [OF wf miss] lease_search.search_rank [OF wf] k by metis
  have no_hit: "rank (map lease_host ?ts) h < length ?ts \<Longrightarrow>
      lease_host (?ts ! rank (map lease_host ?ts) h) \<noteq> h"
    using lease_search.hit_iff [OF wf(2), of h] assms(3) by (auto simp: holders_def)
  have "recordLease now key h ss = Inr (ss\<lparr>ss_tenants := (ss_tenants ss)(key \<mapsto> ts)\<rparr>)"
  proof (cases "rank (map lease_host ?ts) h < length ?ts")
    case True
    then have "lease_record (?ts ! rank (map lease_host ?ts) h)" using wf(1) by auto
    with True no_hit ts(1) k show ?thesis
      by (simp add: recordLease_def BinarySearchLeaseRecord_rank [OF wf] go_index_nat Let_def
          flip: tenants_of_def)
  next
    case False
    with ts(1) k show ?thesis
      by (simp add: recordLease_def BinarySearchLeaseRecord_rank [OF wf] Let_def flip: tenants_of_def)
  qed
  moreover have "tenants_wf ts" using ts wf by (simp add: tenants_wf_def)
  ultimately show thesis using ts(2) that by blast
qed

text \<open>The callbacks \<open>revokeLease\<close> makes: one to each holder whose record has not run out when
  the loop reaches it.\<close>

definition lease_calls :: "env \<Rightarrow> storageServer \<Rightarrow> string \<Rightarrow> revocation list" where
  "lease_calls e ss key =
     map (\<lambda>(n, r). (lease_host r, key))
       (filter (\<lambda>(n, r). clk e n \<le> lease_time r + LeaseSeconds + LeaseGuardSeconds)
         (enumerate 0 (tenants_of ss key)))"

lemma set_lease_calls:
  "set (lease_calls e ss key) =
     {(lease_host (tenants_of ss key ! n), key) | n.
        n < length (tenants_of ss key) \<and>
        clk e n \<le> lease_time (tenants_of ss key ! n) + LeaseSeconds + LeaseGuardSeconds}"
  by (force simp: lease_calls_def in_set_enumerate_eq image_iff)

definition reachable_holders :: "env \<Rightarrow> storageServer \<Rightarrow> string \<Rightarrow> bool" where
  "reachable_holders e ss key \<longleftrightarrow> (\<forall>h\<in>holders ss key. dial e h)"

lemma getAppServer_dials:
  assumes "conns_wf ss" and "dial e h"
  obtains c where "getAppServer e h ss = Inr (h, ss\<lparr>ss_conns := c\<rparr>)" and "conns_wf (ss\<lparr>ss_conns := c\<rparr>)"
  using assms that [of "ss_conns ss"] that [of "(ss_conns ss)(h \<mapsto> h)"]
  by (cases "ss_conns ss h") (auto simp: getAppServer_def conns_wf_def split: option.splits)

lemma revoke_loop_calls:
  assumes "\<forall>r\<in>set rs. lease_record r \<and> dial e (lease_host r)" and "conns_wf ss"
  shows "\<exists>c. revoke_loop e n key rs ss =
      Inr (map (\<lambda>(n, r). (lease_host r, key))
             (filter (\<lambda>(n, r). clk e n \<le> lease_time r + LeaseSeconds + LeaseGuardSeconds)
               (enumerate n rs)),
           ss\<lparr>ss_conns := c\<rparr>) \<and> conns_wf (ss\<lparr>ss_conns := c\<rparr>)"
  using assms
proof (induction rs arbitrary: n ss)
  case Nil
  then show ?case by (auto intro!: exI [of _ "ss_conns ss"])
next
  case (Cons r rs)
  show ?case
  proof (cases "lease_time r + LeaseSeconds + LeaseGuardSeconds < clk e n")
    case True
    with Cons.IH [of ss "Suc n"] Cons.prems show ?thesis by auto
  next
    case False
    obtain c where c: "getAppServer e (lease_host r) ss = Inr (lease_host r, ss\<lparr>ss_conns := c\<rparr>)"
      "conns_wf (ss\<lparr>ss_conns := c\<rparr>)"
      using getAppServer_dials Cons.prems by (metis list.set_intros(1))
    from Cons.IH [OF _ c(2), of "Suc n"] Cons.prems(1) False c(1) Cons.prems(1)
    show ?thesis by auto
  qed
qed

lemma revokeLease_calls:
  assumes "leases_wf ss" and "conns_wf ss" and "reachable_holders e ss key"
  obtains c where
    "revokeLease e key ss =
       Inr (lease_calls e ss key, ss\<lparr>ss_conns := c, ss_tenants := (ss_tenants ss)(key := None)\<rparr>)"
    and "conns_wf (ss\<lparr>ss_conns := c\<rparr>)"
proof (cases "ss_tenants ss key")
  case None
  then have "revokeLease e key ss = Inr (lease_calls e ss key, ss)"
    by (simp add: revokeLease_def lease_calls_def tenants_of_def)
  moreover have "ss = ss\<lparr>ss_conns := ss_conns ss, ss_tenants := (ss_tenants ss)(key := None)\<rparr>"
    using None by (simp add: fun_upd_idem)
  ultimately show thesis using that [of "ss_conns ss"] assms(2) by simp
next
  case (Some ts)
  then have ts: "tenants_of ss key = ts" by (simp add: tenants_of_def)
  have "\<forall>r\<in>set ts. lease_record r \<and> dial e (lease_host r)"
    using tenants_of_wf [OF assms(1), of key] assms(3)
    by (auto simp: tenants_wf_def reachable_holders_def holders_def ts)
  from revoke_loop_calls [OF this assms(2), of 0 key] obtain c where
    "revoke_loop e 0 key ts ss = Inr (lease_calls e ss key, ss\<lparr>ss_conns := c\<rparr>)"
    "conns_wf (ss\<lparr>ss_conns := c\<rparr>)"
    by (auto simp: lease_calls_def ts)
  then show thesis using Some that [of c] by (simp add: revokeLease_def)
qed

text \<open>When holders cannot be dialled: the loop runs as if they could, until it meets an unexpired record of one of
  them, which ends the process.\<close>

definition cut_off :: "env \<Rightarrow> nat \<Rightarrow> string list \<Rightarrow> bool" where
  "cut_off e n rs \<longleftrightarrow>
     (\<exists>i<length rs. clk e (n + i) \<le> lease_time (rs ! i) + LeaseSeconds + LeaseGuardSeconds \<and> \<not> dial e (lease_host (rs ! i)))"

abbreviation all_dialled :: "env \<Rightarrow> env" where
  "all_dialled e \<equiv> e\<lparr>dial := \<lambda>_. True\<rparr>"

lemma cut_off_Cons:
  "cut_off e n (r # rs) \<longleftrightarrow>
     clk e n \<le> lease_time r + LeaseSeconds + LeaseGuardSeconds \<and> \<not> dial e (lease_host r) \<or> cut_off e (Suc n) rs"
  unfolding cut_off_def by (auto simp: less_Suc_eq_0_disj)

lemma revoke_loop_outcome:
  assumes "\<forall>r\<in>set rs. lease_record r"
  shows "revoke_loop e n key rs ss = revoke_loop (all_dialled e) n key rs ss \<or>
    revoke_loop e n key rs ss = Inl (LogFatal ''rpc error:'') \<and> cut_off e n rs"
  using assms
proof (induction rs arbitrary: n ss)
  case (Cons r rs)
  then have IH: "revoke_loop e (Suc n) key rs s = revoke_loop (all_dialled e) (Suc n) key rs s \<or>
      revoke_loop e (Suc n) key rs s = Inl (LogFatal ''rpc error:'') \<and> cut_off e (Suc n) rs" for s by simp
  show ?case
  proof (cases "ss_conns ss (lease_host r) = None \<and> \<not> dial e (lease_host r)")
    case True
    with Cons.prems IH [of ss] show ?thesis by (auto simp: getAppServer_def cut_off_Cons)
  next
    case False
    then have "getAppServer e (lease_host r) ss = getAppServer (all_dialled e) (lease_host r) ss"
      by (auto simp: getAppServer_def split: option.splits)
    moreover obtain a b where "getAppServer (all_dialled e) (lease_host r) ss = Inr (a, b)"
      by (cases "ss_conns ss (lease_host r)") (simp_all add: getAppServer_def)
    ultimately show ?thesis using Cons.prems IH [of b] IH [of ss] by (auto simp: cut_off_Cons)
  qed
qed simp

lemma revokeLease_outcome:
  assumes "leases_wf ss"
  shows "revokeLease e key ss = revokeLease (all_dialled e) key ss \<or>
    revokeLease e key ss = Inl (LogFatal ''rpc error:'') \<and> cut_off e 0 (tenants_of ss key)"
proof (cases "ss_tenants ss key")
  case (Some ts)
  then have "tenants_of ss key = ts" "\<forall>r\<in>set ts. lease_record r"
    using tenants_of_wf [OF assms, of key] by (auto simp: tenants_of_def tenants_wf_def)
  with revoke_loop_outcome [of ts e 0 key ss] Some show ?thesis by (auto simp: revokeLease_def)
qed (simp add: revokeLease_def)

section \<open>The abstract specification: a map of sets\<close>

type_synonym kv = "string \<rightharpoonup> string set"

definition kv_get :: "string \<Rightarrow> kv \<Rightarrow> Status \<times> string" where
  "kv_get k m = (case m k of None \<Rightarrow> (KeyNotFound, []) | Some S \<Rightarrow> (OK, if S = {} then [] else Min S))"

definition kv_get_list :: "string \<Rightarrow> kv \<Rightarrow> Status \<times> string list" where
  "kv_get_list k m = (case m k of None \<Rightarrow> (KeyNotFound, []) | Some S \<Rightarrow> (OK, sorted_list_of_set S))"

definition kv_put :: "string \<Rightarrow> string \<Rightarrow> kv \<Rightarrow> Status \<times> kv" where
  "kv_put k v m = (OK, m(k \<mapsto> {v}))"

definition kv_delete :: "string \<Rightarrow> kv \<Rightarrow> Status \<times> kv" where
  "kv_delete k m = (case m k of None \<Rightarrow> (KeyNotFound, m) | Some _ \<Rightarrow> (OK, m(k := None)))"

definition kv_append :: "string \<Rightarrow> string \<Rightarrow> kv \<Rightarrow> Status \<times> kv" where
  "kv_append k v m =
     (case m k of
        None \<Rightarrow> (OK, m(k \<mapsto> {v}))
      | Some S \<Rightarrow> if v \<in> S then (ItemExists, m) else (OK, m(k \<mapsto> insert v S)))"

definition kv_remove :: "string \<Rightarrow> string \<Rightarrow> kv \<Rightarrow> Status \<times> kv" where
  "kv_remove k v m =
     (case m k of
        None \<Rightarrow> (ItemNotFound, m)
      | Some S \<Rightarrow> if v \<in> S then (OK, m(k \<mapsto> S - {v})) else (ItemNotFound, m))"

lemmas kv_defs = kv_get_def kv_get_list_def kv_put_def kv_delete_def kv_append_def kv_remove_def

definition abs_kv :: "(string \<rightharpoonup> string list) \<Rightarrow> kv" where
  "abs_kv m = (\<lambda>k. map_option set (m k))"

lemma abs_kv_upd [simp]:
  "abs_kv (m(k \<mapsto> vs)) = (abs_kv m)(k \<mapsto> set vs)"
  "abs_kv (m(k := None)) = (abs_kv m)(k := None)"
  by (auto simp: abs_kv_def)

lemma abs_kv_None [simp]: "abs_kv m k = None \<longleftrightarrow> m k = None"
  by (simp add: abs_kv_def)

lemma abs_kv_absent: "m k = None \<Longrightarrow> abs_kv m k = None"
  by simp

lemma abs_kv_Some: "m k = Some vs \<Longrightarrow> abs_kv m k = Some (set vs)"
  by (simp add: abs_kv_def)

section \<open>What each handler does\<close>

text \<open>A key that this server owns, on a server that has joined the ring and can reach the lease
  holders of the key.\<close>

definition serving :: "env \<Rightarrow> storageServer \<Rightarrow> string \<Rightarrow> bool" where
  "serving e ss key \<longleftrightarrow>
     ss_inv ss \<and> ss_ring ss \<noteq> [] \<and> owns ss key \<and> reachable_holders e ss key"

lemma serving_mine [simp]: "serving e ss key \<Longrightarrow> keyRangeContains ss key = Inr True"
  by (simp add: serving_def keyRangeContains_owns)

lemma serving_sorted: "serving e ss key \<Longrightarrow> ss_storage ss key = Some vs \<Longrightarrow> ssorted vs"
  by (auto simp: serving_def ss_inv_defs)

text \<open>The effect of a write that revokes the leases of the key: the value is replaced, the lease
  records of the key are dropped, connections may have been opened, and nothing else changes.\<close>

definition wrote ::
  "env \<Rightarrow> storageServer \<Rightarrow> string \<Rightarrow> string list option \<Rightarrow> revocation list \<Rightarrow> storageServer \<Rightarrow> bool" where
  "wrote e ss key v calls ss' \<longleftrightarrow>
     calls = lease_calls e ss key \<and>
     (\<exists>c. conns_wf (ss\<lparr>ss_conns := c\<rparr>) \<and>
        ss' = ss\<lparr>ss_conns := c, ss_tenants := (ss_tenants ss)(key := None),
                 ss_storage := (ss_storage ss)(key := v)\<rparr>)"

lemma serving_revoke:
  assumes "serving e ss key"
  obtains calls ss' where "revokeLease e key ss = Inr (calls, ss')"
    and "\<And>v. wrote e ss key v calls (ss'\<lparr>ss_storage := (ss_storage ss')(key := v)\<rparr>)"
proof -
  obtain c where "revokeLease e key ss =
      Inr (lease_calls e ss key, ss\<lparr>ss_conns := c, ss_tenants := (ss_tenants ss)(key := None)\<rparr>)"
    "conns_wf (ss\<lparr>ss_conns := c\<rparr>)"
    using assms revokeLease_calls by (metis serving_def ss_inv_def)
  then show thesis by (intro that) (auto simp: wrote_def)
qed

lemma ss_Put_serving:
  assumes "serving e ss key"
  obtains calls ss' where "ss_Put e \<lparr>pa_Key = key, pa_Value = v\<rparr> ss = Inr (\<lparr>pr_Status = OK\<rparr>, calls, ss')"
    and "wrote e ss key (Some [v]) calls ss'"
proof -
  obtain calls ss' where "revokeLease e key ss = Inr (calls, ss')"
    "\<And>v. wrote e ss key v calls (ss'\<lparr>ss_storage := (ss_storage ss')(key := v)\<rparr>)"
    using serving_revoke assms by blast
  then show thesis using assms by (intro that) (simp_all add: ss_Put_def)
qed

lemma ss_Delete_serving:
  assumes "serving e ss key" and "ss_storage ss key \<noteq> None"
  obtains calls ss' where "ss_Delete e \<lparr>da_Key = key\<rparr> ss = Inr (\<lparr>dr_Status = OK\<rparr>, calls, ss')"
    and "wrote e ss key None calls ss'"
proof -
  obtain calls ss' where "revokeLease e key ss = Inr (calls, ss')"
    "\<And>v. wrote e ss key v calls (ss'\<lparr>ss_storage := (ss_storage ss')(key := v)\<rparr>)"
    using serving_revoke assms by blast
  then show thesis using assms by (intro that) (auto simp: ss_Delete_def)
qed

lemma ss_Delete_absent:
  "serving e ss key \<Longrightarrow> ss_storage ss key = None \<Longrightarrow>
   ss_Delete e \<lparr>da_Key = key\<rparr> ss = Inr (\<lparr>dr_Status = KeyNotFound\<rparr>, [], ss)"
  by (simp add: ss_Delete_def)

lemma ins_at_rank_last: "\<forall>x\<in>set xs. x < v \<Longrightarrow> ins_at_rank xs v = xs @ [v]"
  by (simp add: ins_at_rank_def take_rank drop_rank)

lemma ss_Append_unleased:
  "serving e ss key \<Longrightarrow> ss_storage ss key = None \<or> ss_storage ss key = Some [] \<Longrightarrow>
   ss_AppendToList e \<lparr>pa_Key = key, pa_Value = v\<rparr> ss =
     Inr (\<lparr>pr_Status = OK\<rparr>, [], ss\<lparr>ss_storage := (ss_storage ss)(key \<mapsto> [v])\<rparr>)"
  by (auto simp: ss_AppendToList_def)

lemma last_index: "vs \<noteq> [] \<Longrightarrow> go_index vs (int (length vs) - 1) = Inr (last vs)"
  by (cases vs rule: rev_cases) (auto simp: go_index_def nat_diff_distrib)

lemma ssorted_last_max: "ssorted vs \<Longrightarrow> vs \<noteq> [] \<Longrightarrow> x \<in> set vs \<Longrightarrow> x \<le> last vs"
  by (cases vs rule: rev_cases) (auto simp: sorted_wrt_append)

lemma rank_below_last: "vs \<noteq> [] \<Longrightarrow> \<not> last vs < v \<Longrightarrow> rank vs v < length vs"
  by (rule le_neq_implies_less [OF rank_le])
    (use rank_below [of "length vs - 1" vs v] in \<open>auto simp: last_conv_nth\<close>)

lemma ss_Append_present:
  assumes "serving e ss key" and "ss_storage ss key = Some vs" and "v \<in> set vs"
  shows "ss_AppendToList e \<lparr>pa_Key = key, pa_Value = v\<rparr> ss = Inr (\<lparr>pr_Status = ItemExists\<rparr>, [], ss)"
proof -
  have s: "ssorted vs" using serving_sorted assms by blast
  have ne: "vs \<noteq> []" using assms(3) by auto
  have "\<not> last vs < v" using ssorted_last_max [OF s ne assms(3)] by simp
  then show ?thesis
    using assms ne in_set_rank [OF ssorted_sorted [OF s] assms(3)] s
    by (simp add: ss_AppendToList_def last_index string_search.search_rank go_index_nat Suc_le_eq)
qed

lemma ss_Append_serving:
  assumes "serving e ss key" and "ss_storage ss key = Some vs" and "vs \<noteq> []" and "v \<notin> set vs"
  obtains calls ss' where
    "ss_AppendToList e \<lparr>pa_Key = key, pa_Value = v\<rparr> ss = Inr (\<lparr>pr_Status = OK\<rparr>, calls, ss')"
    and "wrote e ss key (Some (ins_at_rank vs v)) calls ss'"
proof -
  obtain calls ss' where rev: "revokeLease e key ss = Inr (calls, ss')"
    "\<And>v. wrote e ss key v calls (ss'\<lparr>ss_storage := (ss_storage ss')(key := v)\<rparr>)"
    using serving_revoke assms by blast
  have s: "ssorted vs" using serving_sorted assms by blast
  have eq: "ss_AppendToList e \<lparr>pa_Key = key, pa_Value = v\<rparr> ss =
      Inr (\<lparr>pr_Status = OK\<rparr>, calls, ss'\<lparr>ss_storage := (ss_storage ss')(key \<mapsto> ins_at_rank vs v)\<rparr>)"
  proof (cases "last vs < v")
    case True
    then have "ins_at_rank vs v = vs @ [v]"
      using ssorted_last_max [OF s assms(3)] by (intro ins_at_rank_last) force
    with True assms rev show ?thesis by (simp add: ss_AppendToList_def last_index Suc_le_eq)
  next
    case False
    note R = rank_below_last [OF assms(3) False]
    then have "vs ! rank vs v \<noteq> v" using assms(4) by (metis nth_mem)
    with False R assms rev s show ?thesis
      by (simp add: ss_AppendToList_def last_index Suc_le_eq string_search.search_rank go_index_nat
          go_insert_nat ins_at_rank_def)
  qed
  show thesis by (rule that [OF eq]) (use rev(2) in simp)
qed

lemma ss_Remove_absent:
  assumes "serving e ss key" and "\<forall>vs. ss_storage ss key = Some vs \<longrightarrow> v \<notin> set vs"
  shows "ss_RemoveFromList e \<lparr>pa_Key = key, pa_Value = v\<rparr> ss = Inr (\<lparr>pr_Status = ItemNotFound\<rparr>, [], ss)"
proof (cases "ss_storage ss key")
  case (Some vs)
  have s: "ssorted vs" using serving_sorted assms Some by blast
  have "rank vs v < length vs \<Longrightarrow> vs ! rank vs v \<noteq> v" using assms(2) Some by (metis nth_mem)
  with assms Some s show ?thesis
    by (auto simp: ss_RemoveFromList_def string_search.search_rank go_index_nat Suc_le_eq)
qed (use assms in \<open>simp add: ss_RemoveFromList_def\<close>)

lemma ss_Remove_serving:
  assumes "serving e ss key" and "ss_storage ss key = Some vs" and "v \<in> set vs"
  obtains calls ss' ws where
    "ss_RemoveFromList e \<lparr>pa_Key = key, pa_Value = v\<rparr> ss = Inr (\<lparr>pr_Status = OK\<rparr>, calls, ss')"
    and "wrote e ss key (Some ws) calls ss'" and "ssorted ws" and "set ws = set vs - {v}"
proof -
  obtain calls ss' where rev: "revokeLease e key ss = Inr (calls, ss')"
    "\<And>v. wrote e ss key v calls (ss'\<lparr>ss_storage := (ss_storage ss')(key := v)\<rparr>)"
    using serving_revoke assms by blast
  have s: "ssorted vs" using serving_sorted assms by blast
  note R = in_set_rank [OF ssorted_sorted [OF s] assms(3)]
  let ?ws = "take (rank vs v) vs @ drop (Suc (rank vs v)) vs"
  have eq: "ss_RemoveFromList e \<lparr>pa_Key = key, pa_Value = v\<rparr> ss =
      Inr (\<lparr>pr_Status = OK\<rparr>, calls, ss'\<lparr>ss_storage := (ss_storage ss')(key \<mapsto> ?ws)\<rparr>)"
    using assms R rev s
    by (auto simp: ss_RemoveFromList_def string_search.search_rank go_index_nat go_remove_nat Suc_le_eq)
  show thesis
    by (rule that [OF eq rev(2) ssorted_remove_nth(2) [OF s R(1)]
          ssorted_remove_nth(1) [OF s R(1), unfolded R(2)]])
qed

lemma recordLease_result:
  assumes "leases_wf ss" and "CHR ''~'' \<notin> set h"
  obtains ts where "recordLease now key h ss = Inr (ss\<lparr>ss_tenants := (ss_tenants ss)(key \<mapsto> ts)\<rparr>)"
    and "tenants_wf ts" and "lease_host ` set ts = insert h (holders ss key)"
    and "set ts = (if h \<in> holders ss key then set (tenants_of ss key)
                   else insert (FormatLeaseRecord h now) (set (tenants_of ss key)))"
proof (cases "h \<in> holders ss key")
  case True
  then have "ss_tenants ss key = Some (tenants_of ss key)"
    by (cases "ss_tenants ss key") (auto simp: holders_def tenants_of_def)
  then have "ss = ss\<lparr>ss_tenants := (ss_tenants ss)(key \<mapsto> tenants_of ss key)\<rparr>"
    by (simp add: fun_upd_idem)
  with True recordLease_held [OF assms True] tenants_of_wf [OF assms(1)] show thesis
    by (intro that [of "tenants_of ss key"]) (auto simp: holders_def)
next
  case False
  then obtain ts where "recordLease now key h ss = Inr (ss\<lparr>ss_tenants := (ss_tenants ss)(key \<mapsto> ts)\<rparr>)"
    "set ts = insert (FormatLeaseRecord h now) (set (tenants_of ss key))" "tenants_wf ts"
    using recordLease_new assms by metis
  with False assms(2) show thesis by (intro that [of ts]) (auto simp: holders_def)
qed

text \<open>The answer to a read, and the lease that is recorded with it.\<close>

definition leased :: "int \<Rightarrow> storageServer \<Rightarrow> GetArgs \<Rightarrow> storageServer \<Rightarrow> bool" where
  "leased now ss args ss' \<longleftrightarrow>
     (if ga_WantLease args \<and> ss_storage ss (ga_Key args) \<noteq> None then
        \<exists>ts. ss' = ss\<lparr>ss_tenants := (ss_tenants ss)(ga_Key args \<mapsto> ts)\<rparr> \<and> tenants_wf ts \<and>
             lease_host ` set ts = insert (ga_HostPort args) (holders ss (ga_Key args)) \<and>
             set ts = (if ga_HostPort args \<in> holders ss (ga_Key args) then set (tenants_of ss (ga_Key args))
                       else insert (FormatLeaseRecord (ga_HostPort args) now)
                              (set (tenants_of ss (ga_Key args))))
      else ss' = ss)"

definition lease_of :: "storageServer \<Rightarrow> GetArgs \<Rightarrow> Lease" where
  "lease_of ss args =
     (if ga_WantLease args \<and> ss_storage ss (ga_Key args) \<noteq> None then granted_lease else zero_Lease)"

lemma ssorted_hd_Min: "ssorted vs \<Longrightarrow> vs \<noteq> [] \<Longrightarrow> Min (set vs) = vs ! 0"
  using sorted_nth_mono [OF ssorted_sorted, of vs 0]
  by (intro Min_eqI) (auto simp: in_set_conv_nth)

lemma ssorted_list_of_set: "ssorted vs \<Longrightarrow> sorted_list_of_set (set vs) = vs"
  by (simp add: sorted_list_of_set.idem_if_sorted_distinct ssorted_sorted ssorted_distinct)

lemma recordLease_leased:
  assumes "ss_inv ss" and "CHR ''~'' \<notin> set (ga_HostPort args)" and "ss_storage ss (ga_Key args) = Some vs"
  obtains ss' where "recordLease now (ga_Key args) (ga_HostPort args) ss = Inr ss'"
    and "ga_WantLease args \<Longrightarrow> leased now ss args ss'"
proof -
  have "leases_wf ss" using assms(1) by (simp add: ss_inv_def)
  from recordLease_result [OF this assms(2), of now "ga_Key args"] obtain ts where ts:
    "recordLease now (ga_Key args) (ga_HostPort args) ss =
       Inr (ss\<lparr>ss_tenants := (ss_tenants ss)(ga_Key args \<mapsto> ts)\<rparr>)"
    "tenants_wf ts" "lease_host ` set ts = insert (ga_HostPort args) (holders ss (ga_Key args))"
    "set ts = (if ga_HostPort args \<in> holders ss (ga_Key args) then set (tenants_of ss (ga_Key args))
               else insert (FormatLeaseRecord (ga_HostPort args) now) (set (tenants_of ss (ga_Key args))))"
    by blast
  show thesis
  proof (rule that [OF ts(1)])
    assume "ga_WantLease args"
    with assms(3) have wants: "ga_WantLease args \<and> ss_storage ss (ga_Key args) \<noteq> None" by simp
    show "leased now ss args (ss\<lparr>ss_tenants := (ss_tenants ss)(ga_Key args \<mapsto> ts)\<rparr>)"
      unfolding leased_def if_P [OF wants] using ts(2-4) by blast
  qed
qed

lemma ss_Get_serving:
  assumes "serving e ss (ga_Key args)" and "CHR ''~'' \<notin> set (ga_HostPort args)"
  obtains ss' where "ss_Get e args ss =
      Inr (\<lparr>gr_Status = fst (kv_get (ga_Key args) (abs_kv (ss_storage ss))),
           gr_Value = snd (kv_get (ga_Key args) (abs_kv (ss_storage ss))),
           gr_Lease = lease_of ss args\<rparr>, ss')"
    and "leased (clk e 0) ss args ss'"
proof (cases "ss_storage ss (ga_Key args)")
  case None
  then show thesis
    using assms
    by (intro that [of ss]) (simp_all add: ss_Get_def kv_get_def leased_def lease_of_def abs_kv_absent)
next
  case (Some vs)
  have "ss_inv ss" using assms(1) by (simp add: serving_def)
  then obtain ss' where "recordLease (clk e 0) (ga_Key args) (ga_HostPort args) ss = Inr ss'"
    "ga_WantLease args \<Longrightarrow> leased (clk e 0) ss args ss'"
    using recordLease_leased assms(2) Some by metis
  with Some assms(1) ssorted_hd_Min [OF serving_sorted [OF assms(1) Some]] show thesis
    by (intro that [of "if ga_WantLease args then ss' else ss"])
      (auto simp: ss_Get_def kv_get_def abs_kv_Some lease_of_def leased_def Let_def)
qed

lemma ss_GetList_serving:
  assumes "serving e ss (ga_Key args)" and "CHR ''~'' \<notin> set (ga_HostPort args)"
  obtains ss' where "ss_GetList e args ss =
      Inr (\<lparr>glr_Status = fst (kv_get_list (ga_Key args) (abs_kv (ss_storage ss))),
           glr_Value = snd (kv_get_list (ga_Key args) (abs_kv (ss_storage ss))),
           glr_Lease = lease_of ss args\<rparr>, ss')"
    and "leased (clk e 0) ss args ss'"
proof (cases "ss_storage ss (ga_Key args)")
  case None
  then show thesis
    using assms
    by (intro that [of ss])
      (simp_all add: ss_GetList_def kv_get_list_def leased_def lease_of_def abs_kv_absent)
next
  case (Some vs)
  have "ss_inv ss" using assms(1) by (simp add: serving_def)
  then obtain ss' where "recordLease (clk e 0) (ga_Key args) (ga_HostPort args) ss = Inr ss'"
    "ga_WantLease args \<Longrightarrow> leased (clk e 0) ss args ss'"
    using recordLease_leased assms(2) Some by metis
  with Some assms(1) ssorted_list_of_set [OF serving_sorted [OF assms(1) Some]] show thesis
    by (intro that [of "if ga_WantLease args then ss' else ss"])
      (auto simp: ss_GetList_def kv_get_list_def abs_kv_Some lease_of_def leased_def Let_def)
qed

section \<open>The handlers keep the invariant\<close>

lemma members_wf_frame [simp]:
  "members_wf (ss\<lparr>ss_storage := d\<rparr>) = members_wf ss"
  "members_wf (ss\<lparr>ss_tenants := t\<rparr>) = members_wf ss"
  "members_wf (ss\<lparr>ss_conns := c\<rparr>) = members_wf ss"
  by (simp_all add: members_wf_def)

lemma wf_frame [simp]:
  "conns_wf (ss\<lparr>ss_storage := d\<rparr>) = conns_wf ss"
  "conns_wf (ss\<lparr>ss_tenants := t\<rparr>) = conns_wf ss"
  "data_wf (ss\<lparr>ss_tenants := t\<rparr>) = data_wf ss"
  "data_wf (ss\<lparr>ss_conns := c\<rparr>) = data_wf ss"
  "leases_wf (ss\<lparr>ss_conns := c\<rparr>) = leases_wf ss"
  by (simp_all add: conns_wf_def data_wf_def leases_wf_def)

lemma ss_inv_store:
  "ss_inv ss \<Longrightarrow> ssorted vs \<Longrightarrow> ss_inv (ss\<lparr>ss_storage := (ss_storage ss)(key \<mapsto> vs)\<rparr>)"
  by (auto simp: ss_inv_def data_wf_def leases_wf_def)

lemma ss_inv_wrote:
  assumes "ss_inv ss" and "wrote e ss key v calls ss'" and "\<And>vs. v = Some vs \<Longrightarrow> ssorted vs"
  shows "ss_inv ss'"
  using assms by (auto simp: wrote_def ss_inv_def data_wf_def leases_wf_def split: if_splits)

lemma leasedE:
  assumes "leased now ss args ss'"
  obtains "ss' = ss"
  | ts where "ss' = ss\<lparr>ss_tenants := (ss_tenants ss)(ga_Key args \<mapsto> ts)\<rparr>" and "tenants_wf ts"
      and "ss_storage ss (ga_Key args) \<noteq> None"
  using assms unfolding leased_def by (cases "ga_WantLease args \<and> ss_storage ss (ga_Key args) \<noteq> None") auto

lemma leased_holders:
  assumes "leased now ss args ss'" and "ga_WantLease args" and "ss_storage ss (ga_Key args) \<noteq> None"
  shows "holders ss' (ga_Key args) = insert (ga_HostPort args) (holders ss (ga_Key args))"
proof -
  have "holders (ss\<lparr>ss_tenants := t(k \<mapsto> ts)\<rparr>) k = lease_host ` set ts" for t k ts
    by (simp add: holders_def tenants_of_def)
  moreover have "ga_WantLease args \<and> ss_storage ss (ga_Key args) \<noteq> None" using assms(2,3) ..
  ultimately show ?thesis using assms(1) unfolding leased_def by (simp only: if_True) metis
qed

lemma ss_inv_leased: "ss_inv ss \<Longrightarrow> leased now ss args ss' \<Longrightarrow> ss_inv ss'"
  by (elim leasedE) (auto simp: ss_inv_def leases_wf_def split: if_splits)

lemma ss_inv_members:
  "ss_inv ss \<Longrightarrow> members_wf (ss\<lparr>ss_ring := r, ss_nodes := n\<rparr>) \<Longrightarrow>
   ss_inv (ss\<lparr>ss_ring := r, ss_nodes := n\<rparr>)"
  by (simp add: ss_inv_def data_wf_def leases_wf_def conns_wf_def)

definition register_reply :: "range_order \<Rightarrow> storageServer \<Rightarrow> RegisterReply" where
  "register_reply rng ss =
     (if ss_numNodes ss \<le> int (length (ss_ring ss))
      then \<lparr>reg_Status = OK, reg_Servers = map node_of (rng (ss_nodes ss))\<rparr>
      else \<lparr>reg_Status = NotReady, reg_Servers = []\<rparr>)"

lemma register_reply_Status [simp]:
  "reg_Status (register_reply rng ss) = OK \<longleftrightarrow> ss_numNodes ss \<le> int (length (ss_ring ss))"
  by (simp add: register_reply_def)

lemma ss_RegisterServer_reply:
  "ss_RegisterServer rng args ss = Inr (r, ss') \<Longrightarrow> r = register_reply rng ss' \<and> ss_numNodes ss' = ss_numNodes ss"
  by (auto simp: ss_RegisterServer_def register_reply_def Let_def go_bind_eq_Inr split: if_splits)

lemma ss_RegisterServer_known:
  "NodeID (ServerInfo args) \<in> fst ` set (ss_nodes ss) \<Longrightarrow> \<exists>r. ss_RegisterServer rng args ss = Inr (r, ss)"
  by (auto simp: ss_RegisterServer_def map_of_eq_None_iff Let_def)

lemma ss_RegisterServer_new:
  assumes "members_wf ss" and "NodeID (ServerInfo args) \<notin> fst ` set (ss_nodes ss)"
  defines "ss' \<equiv> ss\<lparr>ss_ring := ins_at_rank (ss_ring ss) (NodeID (ServerInfo args)),
      ss_nodes := AList.update (NodeID (ServerInfo args)) (HostPort (ServerInfo args)) (ss_nodes ss)\<rparr>"
  shows "\<exists>r. ss_RegisterServer rng args ss = Inr (r, ss')" and "members_wf ss'"
proof -
  let ?id = "NodeID (ServerInfo args)"
  have "map_of (ss_nodes ss) ?id = None" using assms(2) by (simp add: map_of_eq_None_iff)
  then show "\<exists>r. ss_RegisterServer rng args ss = Inr (r, ss')"
    using assms(1)
    by (auto simp: ss_RegisterServer_def members_wf_def uint32_search.search_rank go_insert_nat
        ins_at_rank_def ss'_def Let_def)
  have "fst ` set (AList.update ?id a (ss_nodes ss)) = insert ?id (fst ` set (ss_nodes ss))" for a
    by (simp add: dom_update)
  then show "members_wf ss'"
    using assms(1,2) by (simp add: members_wf_def ss'_def ssorted_ins_at_rank distinct_update)
qed

section \<open>Requests\<close>

text \<open>The key a request is about, and what the request needs from outside: a callback address
  without the separator of lease records, or lease holders that can be dialled.\<close>

fun req_key :: "request \<Rightarrow> string option" where
  "req_key (ReqGet a) = Some (ga_Key a)"
| "req_key (ReqGetList a) = Some (ga_Key a)"
| "req_key (ReqPut a) = Some (pa_Key a)"
| "req_key (ReqDelete a) = Some (da_Key a)"
| "req_key (ReqAppend a) = Some (pa_Key a)"
| "req_key (ReqRemove a) = Some (pa_Key a)"
| "req_key _ = None"

fun callback_ok :: "request \<Rightarrow> bool" where
  "callback_ok (ReqGet a) = (CHR ''~'' \<notin> set (ga_HostPort a))"
| "callback_ok (ReqGetList a) = (CHR ''~'' \<notin> set (ga_HostPort a))"
| "callback_ok _ = True"

definition admissible :: "env \<Rightarrow> storageServer \<Rightarrow> request \<Rightarrow> bool" where
  "admissible e ss req \<longleftrightarrow>
     callback_ok req \<and> (\<forall>key. req_key req = Some key \<longrightarrow> reachable_holders e ss key)"

fun is_write :: "request \<Rightarrow> bool" where
  "is_write (ReqPut _) = True"
| "is_write (ReqDelete _) = True"
| "is_write (ReqAppend _) = True"
| "is_write (ReqRemove _) = True"
| "is_write _ = False"

text \<open>Only a write that meets an unexpired lease of a holder that is cut off depends on what can be dialled.\<close>

lemma ss_serve_outcome:
  assumes "leases_wf ss" and "req_key req = Some key"
  shows "ss_serve rng e req ss = ss_serve rng (all_dialled e) req ss \<or>
    is_write req \<and> ss_serve rng e req ss = Inl (LogFatal ''rpc error:'') \<and> cut_off e 0 (tenants_of ss key)"
proof (cases "revokeLease e key ss = revokeLease (all_dialled e) key ss")
  case True
  with assms(2) show ?thesis
    by (cases req)
      (simp_all add: ss_Get_def ss_GetList_def ss_Put_def ss_Delete_def ss_AppendToList_def ss_RemoveFromList_def Let_def
        cong: option.case_cong if_cong)
next
  case False
  then have r: "revokeLease e key ss = Inl (LogFatal ''rpc error:'')" "cut_off e 0 (tenants_of ss key)"
    using revokeLease_outcome [OF assms(1)] by blast+
  with assms(2) show ?thesis
    by (cases req) (auto simp: ss_Get_def ss_GetList_def ss_Put_def ss_Delete_def ss_AppendToList_def ss_RemoveFromList_def
        go_bind_def Let_def split: sum.splits option.splits)
qed

text \<open>The reply of a server that does not own the key.\<close>

fun wrong_server :: "request \<Rightarrow> response" where
  "wrong_server (ReqGet a) = RespGet (zero_GetReply\<lparr>gr_Status := WrongServer\<rparr>)"
| "wrong_server (ReqGetList a) = RespGetList (zero_GetListReply\<lparr>glr_Status := WrongServer\<rparr>)"
| "wrong_server (ReqDelete a) = RespDelete \<lparr>dr_Status = WrongServer\<rparr>"
| "wrong_server _ = RespPut \<lparr>pr_Status = WrongServer\<rparr>"

lemma ss_serve_not_mine:
  assumes "req_key req = Some key" and "keyRangeContains ss key = Inr False"
  shows "ss_serve rng e req ss = Inr (wrong_server req, [], ss)"
  using assms
  by (cases req) (simp_all add: ss_Get_def ss_GetList_def ss_Put_def ss_Delete_def
      ss_AppendToList_def ss_RemoveFromList_def)

text \<open>The abstract answer to a request about a key.\<close>

fun kv_serve :: "request \<Rightarrow> kv \<Rightarrow> (Status \<times> string list) \<times> kv" where
  "kv_serve (ReqGet a) m = (case kv_get (ga_Key a) m of (st, v) \<Rightarrow> ((st, [v]), m))"
| "kv_serve (ReqGetList a) m = (kv_get_list (ga_Key a) m, m)"
| "kv_serve (ReqPut a) m = (case kv_put (pa_Key a) (pa_Value a) m of (st, m) \<Rightarrow> ((st, []), m))"
| "kv_serve (ReqDelete a) m = (case kv_delete (da_Key a) m of (st, m) \<Rightarrow> ((st, []), m))"
| "kv_serve (ReqAppend a) m = (case kv_append (pa_Key a) (pa_Value a) m of (st, m) \<Rightarrow> ((st, []), m))"
| "kv_serve (ReqRemove a) m = (case kv_remove (pa_Key a) (pa_Value a) m of (st, m) \<Rightarrow> ((st, []), m))"
| "kv_serve _ m = ((OK, []), m)"

fun answer :: "response \<Rightarrow> Status \<times> string list" where
  "answer (RespGet r) = (gr_Status r, [gr_Value r])"
| "answer (RespGetList r) = (glr_Status r, glr_Value r)"
| "answer (RespPut r) = (pr_Status r, [])"
| "answer (RespDelete r) = (dr_Status r, [])"
| "answer (RespRegister r) = (reg_Status r, [])"
| "answer (RespGetServers r) = (gs_Status r, [])"

text \<open>What one request does on a server that owns its key: it is answered as the abstract map
  answers it, the new data is the new map, and the invariant and the ring are kept.\<close>

definition refines_step ::
  "request \<Rightarrow> storageServer \<Rightarrow> (response \<times> revocation list \<times> storageServer) go \<Rightarrow> bool" where
  "refines_step req ss out \<longleftrightarrow>
     (\<exists>resp calls ss'. out = Inr (resp, calls, ss') \<and>
        (answer resp, abs_kv (ss_storage ss')) = kv_serve req (abs_kv (ss_storage ss)) \<and>
        ss_inv ss' \<and> ss_ring ss' = ss_ring ss \<and> ss_nodeID ss' = ss_nodeID ss)"

lemma wrote_frame:
  "wrote e ss key v calls ss' \<Longrightarrow> ss_ring ss' = ss_ring ss \<and> ss_nodeID ss' = ss_nodeID ss \<and>
     ss_storage ss' = (ss_storage ss)(key := v)"
  by (auto simp: wrote_def)

lemma leased_frame:
  "leased now ss args ss' \<Longrightarrow> ss_ring ss' = ss_ring ss \<and> ss_nodeID ss' = ss_nodeID ss \<and>
     ss_storage ss' = ss_storage ss"
  by (elim leasedE) auto

lemma refines_write:
  assumes "ss_inv ss" and "wrote e ss key v calls ss'" and "\<And>vs. v = Some vs \<Longrightarrow> ssorted vs"
    and "(answer resp, (abs_kv (ss_storage ss))(key := map_option set v)) = kv_serve req (abs_kv (ss_storage ss))"
  shows "refines_step req ss (Inr (resp, calls, ss'))"
proof -
  have "abs_kv ((ss_storage ss)(key := v)) = (abs_kv (ss_storage ss))(key := map_option set v)"
    by (auto simp: abs_kv_def)
  with assms ss_inv_wrote [OF assms(1-3)] wrote_frame [OF assms(2)] show ?thesis
    by (auto simp: refines_step_def)
qed

lemma refines_same:
  assumes "ss_inv ss" and "(answer resp, abs_kv (ss_storage ss)) = kv_serve req (abs_kv (ss_storage ss))"
  shows "refines_step req ss (Inr (resp, [], ss))"
  using assms by (auto simp: refines_step_def)

lemma serving_inv: "serving e ss key \<Longrightarrow> ss_inv ss"
  by (simp add: serving_def)

lemma refines_Get:
  assumes "serving e ss (ga_Key a)" and "CHR ''~'' \<notin> set (ga_HostPort a)"
  shows "refines_step (ReqGet a) ss (ss_serve rng e (ReqGet a) ss)"
    and "refines_step (ReqGetList a) ss (ss_serve rng e (ReqGetList a) ss)"
proof -
  note inv = serving_inv [OF assms(1)]
  obtain ss1 where "ss_Get e a ss =
      Inr (\<lparr>gr_Status = fst (kv_get (ga_Key a) (abs_kv (ss_storage ss))),
           gr_Value = snd (kv_get (ga_Key a) (abs_kv (ss_storage ss))), gr_Lease = lease_of ss a\<rparr>, ss1)"
    and l1: "leased (clk e 0) ss a ss1"
    using ss_Get_serving [OF assms] by blast
  then show "refines_step (ReqGet a) ss (ss_serve rng e (ReqGet a) ss)"
    using leased_frame [OF l1] ss_inv_leased [OF inv l1] by (auto simp: refines_step_def split: prod.splits)
  obtain ss2 where "ss_GetList e a ss =
      Inr (\<lparr>glr_Status = fst (kv_get_list (ga_Key a) (abs_kv (ss_storage ss))),
           glr_Value = snd (kv_get_list (ga_Key a) (abs_kv (ss_storage ss))), glr_Lease = lease_of ss a\<rparr>, ss2)"
    and l2: "leased (clk e 0) ss a ss2"
    using ss_GetList_serving [OF assms] by blast
  then show "refines_step (ReqGetList a) ss (ss_serve rng e (ReqGetList a) ss)"
    using leased_frame [OF l2] ss_inv_leased [OF inv l2] by (auto simp: refines_step_def)
qed

lemma refines_Put:
  assumes "serving e ss (pa_Key a)"
  shows "refines_step (ReqPut a) ss (ss_serve rng e (ReqPut a) ss)"
proof -
  obtain calls ss' where "ss_Put e a ss = Inr (\<lparr>pr_Status = OK\<rparr>, calls, ss')"
    "wrote e ss (pa_Key a) (Some [pa_Value a]) calls ss'"
    using ss_Put_serving [OF assms, of "pa_Value a"] by (metis PutArgs.surjective old.unit.exhaust)
  then show ?thesis
    using refines_write [OF serving_inv [OF assms], of e "pa_Key a" "Some [pa_Value a]"]
    by (simp add: kv_put_def)
qed

lemma refines_Delete:
  assumes "serving e ss (da_Key a)"
  shows "refines_step (ReqDelete a) ss (ss_serve rng e (ReqDelete a) ss)"
proof -
  have a: "a = \<lparr>da_Key = da_Key a\<rparr>" by simp
  show ?thesis
  proof (cases "ss_storage ss (da_Key a)")
    case None
    then show ?thesis
      using ss_Delete_absent [OF assms None] a refines_same [OF serving_inv [OF assms]]
      by (simp add: kv_delete_def abs_kv_absent)
  next
    case (Some vs)
    then obtain calls ss' where "ss_Delete e a ss = Inr (\<lparr>dr_Status = OK\<rparr>, calls, ss')"
      "wrote e ss (da_Key a) None calls ss'"
      using ss_Delete_serving [OF assms] a by (metis option.simps(3))
    then show ?thesis
      using refines_write [OF serving_inv [OF assms], of e "da_Key a" None] Some
      by (simp add: kv_delete_def abs_kv_Some)
  qed
qed

lemma refines_Append:
  assumes "serving e ss (pa_Key a)"
  shows "refines_step (ReqAppend a) ss (ss_serve rng e (ReqAppend a) ss)"
proof -
  note inv = serving_inv [OF assms]
  have a: "a = \<lparr>pa_Key = pa_Key a, pa_Value = pa_Value a\<rparr>" by simp
  consider "ss_storage ss (pa_Key a) = None \<or> ss_storage ss (pa_Key a) = Some []"
    | vs where "ss_storage ss (pa_Key a) = Some vs" "pa_Value a \<in> set vs"
    | vs where "ss_storage ss (pa_Key a) = Some vs" "vs \<noteq> []" "pa_Value a \<notin> set vs"
    by (cases "ss_storage ss (pa_Key a)") auto
  then show ?thesis
  proof cases
    case 1
    with ss_Append_unleased [OF assms 1, of "pa_Value a"] a ss_inv_store [OF inv, of "[pa_Value a]" "pa_Key a"]
    show ?thesis by (auto simp: refines_step_def kv_append_def abs_kv_absent abs_kv_Some)
  next
    case (2 vs)
    with ss_Append_present [OF assms 2] a refines_same [OF inv] show ?thesis
      by (simp add: kv_append_def abs_kv_Some)
  next
    case (3 vs)
    then obtain calls ss' where "ss_AppendToList e a ss = Inr (\<lparr>pr_Status = OK\<rparr>, calls, ss')"
      "wrote e ss (pa_Key a) (Some (ins_at_rank vs (pa_Value a))) calls ss'"
      using ss_Append_serving [OF assms] a by metis
    then show ?thesis
      using refines_write [OF inv, of e "pa_Key a" "Some (ins_at_rank vs (pa_Value a))"]
        ssorted_ins_at_rank [OF serving_sorted [OF assms 3(1)] 3(3)] 3
      by (simp add: kv_append_def abs_kv_Some)
  qed
qed

lemma refines_Remove:
  assumes "serving e ss (pa_Key a)"
  shows "refines_step (ReqRemove a) ss (ss_serve rng e (ReqRemove a) ss)"
proof (cases "\<exists>vs. ss_storage ss (pa_Key a) = Some vs \<and> pa_Value a \<in> set vs")
  case True
  then obtain vs where vs: "ss_storage ss (pa_Key a) = Some vs" "pa_Value a \<in> set vs" by blast
  obtain calls ss' ws where
    "ss_RemoveFromList e a ss = Inr (\<lparr>pr_Status = OK\<rparr>, calls, ss')"
    "wrote e ss (pa_Key a) (Some ws) calls ss'" "ssorted ws" "set ws = set vs - {pa_Value a}"
    using ss_Remove_serving [OF assms vs] by (metis PutArgs.surjective old.unit.exhaust)
  then show ?thesis
    using refines_write [OF serving_inv [OF assms], of e "pa_Key a" "Some ws"] vs
    by (simp add: kv_remove_def abs_kv_Some)
next
  case False
  then have "ss_RemoveFromList e a ss = Inr (\<lparr>pr_Status = ItemNotFound\<rparr>, [], ss)"
    using ss_Remove_absent [OF assms, of "pa_Value a"] by (metis PutArgs.surjective old.unit.exhaust)
  with False show ?thesis
    using refines_same [OF serving_inv [OF assms]]
    by (cases "ss_storage ss (pa_Key a)") (simp_all add: kv_remove_def abs_kv_absent abs_kv_Some)
qed

lemma ss_serve_refines:
  assumes "ss_inv ss" and "ss_ring ss \<noteq> []" and "admissible e ss req"
    and "req_key req = Some key" and "owns ss key"
  shows "refines_step req ss (ss_serve rng e req ss)"
proof -
  have "serving e ss key" using assms by (simp add: serving_def admissible_def)
  moreover have "callback_ok req" using assms(3) by (simp add: admissible_def)
  ultimately show ?thesis
    using assms(4) refines_Get refines_Put refines_Delete refines_Append refines_Remove
    by (cases req) (auto simp del: ss_serve.simps)
qed

section \<open>Joining the ring\<close>

definition node_pair :: "Node \<Rightarrow> u32 \<times> string" where
  "node_pair n = (NodeID n, HostPort n)"

lemma node_of_sel [simp]: "NodeID (node_of p) = fst p" "HostPort (node_of p) = snd p"
  by (simp_all add: node_of_def)

lemma node_of_ids [simp]: "NodeID ` node_of ` A = fst ` A"
  by (simp add: image_image)

lemma node_pair_of [simp]: "node_pair (node_of p) = p"
  by (simp add: node_pair_def node_of_def)

lemma AList_update_dom: "fst ` set (AList.update k v al) = insert k (fst ` set al)"
  by (simp add: dom_update)

lemma add_servers_result:
  assumes "members_wf ss" and "distinct (map NodeID servers)" and "set (map NodeID servers) \<inter> set (ss_ring ss) = {}"
  shows "\<exists>r n. add_servers servers ss = Inr (ss\<lparr>ss_ring := r, ss_nodes := n\<rparr>) \<and>
     members_wf (ss\<lparr>ss_ring := r, ss_nodes := n\<rparr>) \<and>
     map_of n = map_of (ss_nodes ss) ++ map_of (map node_pair servers)"
  using assms
proof (induction servers arbitrary: ss)
  case Nil
  then show ?case by (auto intro!: exI [of _ "ss_ring ss"] exI [of _ "ss_nodes ss"])
next
  case (Cons node servers)
  let ?id = "NodeID node"
  let ?ss = "ss\<lparr>ss_ring := ins_at_rank (ss_ring ss) ?id,
      ss_nodes := AList.update ?id (HostPort node) (ss_nodes ss)\<rparr>"
  have new: "?id \<notin> set (ss_ring ss)" using Cons.prems by auto
  then have step: "add_servers (node # servers) ss = add_servers servers ?ss"
    using Cons.prems(1) by (simp add: members_wf_def uint32_search.search_rank go_insert_nat ins_at_rank_def Let_def)
  have wf: "members_wf ?ss"
    using Cons.prems(1) new
    by (simp add: members_wf_def ssorted_ins_at_rank distinct_update AList_update_dom)
  from Cons.IH [OF wf] Cons.prems obtain r n where
    rn: "add_servers servers ?ss = Inr (ss\<lparr>ss_ring := r, ss_nodes := n\<rparr>)"
    "members_wf (ss\<lparr>ss_ring := r, ss_nodes := n\<rparr>)"
    and n: "map_of n = map_of (ss_nodes ?ss) ++ map_of (map node_pair servers)"
    by auto
  have "?id \<notin> dom (map_of (map node_pair servers))"
    using Cons.prems(2) by (auto simp: dom_map_of_conv_image_fst node_pair_def)
  then have "map_of n = map_of (ss_nodes ss) ++ map_of (map node_pair (node # servers))"
    unfolding n by (simp add: update_conv' map_add_upd_left node_pair_def [of node])
  with rn show ?case unfolding step by blast
qed

lemma ssorted_unique: "ssorted xs \<Longrightarrow> ssorted ys \<Longrightarrow> set xs = set ys \<Longrightarrow> xs = ys"
  by (metis ssorted_list_of_set)

text \<open>Whatever order the reply lists the nodes of a server in, a fresh server that inserts them
  one by one ends with the same ring.\<close>

lemma add_servers_same_ring:
  assumes "members_wf m" and "mset nodes = mset (ss_nodes m)" and "ss_ring ss = []" and "ss_nodes ss = []"
  shows "\<exists>n. add_servers (map node_of nodes) ss = Inr (ss\<lparr>ss_ring := ss_ring m, ss_nodes := n\<rparr>) \<and>
     members_wf (ss\<lparr>ss_ring := ss_ring m, ss_nodes := n\<rparr>) \<and> map_of n = map_of (ss_nodes m)"
proof -
  have set: "set nodes = set (ss_nodes m)" using assms(2) by (rule mset_eq_setD)
  have dist: "distinct (map fst nodes)"
    using assms(1,2) by (metis members_wf_def mset_eq_imp_distinct_iff mset_map)
  have "members_wf ss" using assms(3,4) by (simp add: members_wf_def)
  from add_servers_result [OF this, of "map node_of nodes"] obtain r n where
    r: "add_servers (map node_of nodes) ss = Inr (ss\<lparr>ss_ring := r, ss_nodes := n\<rparr>)"
      "members_wf (ss\<lparr>ss_ring := r, ss_nodes := n\<rparr>)" and n: "map_of n = map_of nodes"
    using dist assms(3,4) by (auto simp: comp_def)
  have "map_of nodes = map_of (ss_nodes m)"
    using assms(1) dist set by (simp add: members_wf_def map_of_inject_set)
  moreover have "r = ss_ring m"
  proof (rule ssorted_unique)
    have "set r = dom (map_of n)" using r(2) by (simp add: members_wf_def dom_map_of_conv_image_fst)
    also have "\<dots> = set (ss_ring m)"
      using assms(1) set n by (simp add: members_wf_def dom_map_of_conv_image_fst)
    finally show "set r = set (ss_ring m)" .
  qed (use r(2) assms(1) in \<open>auto simp: members_wf_def\<close>)
  ultimately show ?thesis using r n by auto
qed

lemma dial_master_ok: "k \<le> 5 \<Longrightarrow> tries k \<Longrightarrow> c \<le> k \<Longrightarrow> \<exists>n. dial_master tries c = Inr n"
  by (induction tries c rule: dial_master.induct)
    (subst dial_master.simps, use le_antisym not_less_eq_eq in fastforce)

lemma join_ring_waits:
  assumes "\<forall>i. c \<le> i \<and> i < n \<longrightarrow> (\<exists>r. call i = Inr r \<and> reg_Status r \<noteq> OK)" and "c \<le> n"
  shows "join_ring call c ss = join_ring call n ss"
  using assms(2,1)
proof (induction c rule: inc_induct)
  case (step c)
  then obtain r where "call c = Inr r" "reg_Status r \<noteq> OK" by blast
  with step show ?case by (subst join_ring.simps) auto
qed simp

end
