(* ===== verification/Storage_Props.thy ===== *)
theory Storage_Props
  imports Storage_Correct
begin

section \<open>Properties of the storage server\<close>

text \<open>
  The properties of searching, of the ring and of the storage server, each with a witness at a
  concrete server.  Sequences of requests are \<open>ss_run\<close>; the start of a server is
  \<open>NewStorageServer\<close>.
\<close>

subsection \<open>A concrete server for the witnesses\<close>

text \<open>A ring of one node, which owns every key, with one list and one lease on it, taken at time
  \<open>100\<close> by the host \<open>h\<close>.\<close>

definition demo_ss :: storageServer where
  "demo_ss = (new_storageServer [] 1 9009 7)
     \<lparr>ss_storage := [''u:sublist'' \<mapsto> [''a'', ''c'']],
      ss_tenants := [''u:sublist'' \<mapsto> [FormatLeaseRecord ''h'' 100]]\<rparr>"

definition demo_env :: "int \<Rightarrow> env" where
  "demo_env now = \<lparr>clk = \<lambda>_. now, dial = \<lambda>_. True\<rparr>"

lemma demo_ss_ring [simp]: "ss_ring demo_ss = [7]"
  by (simp add: demo_ss_def new_storageServer_def)

lemma demo_owns [simp]: "owns demo_ss k"
  by (simp add: owns_def demo_ss_def new_storageServer_def)

lemma demo_ss_inv [simp]: "ss_inv demo_ss"
  by (auto simp: ss_inv_defs demo_ss_def new_storageServer_def tenants_wf_def split: if_splits)

lemma demo_dial [simp]: "dial (demo_env t) = (\<lambda>_. True)"
  by (simp add: demo_env_def)

lemma demo_reachable [simp]: "reachable_holders (demo_env t) ss k"
  by (simp add: reachable_holders_def)

lemma demo_serving [simp]: "serving (demo_env t) demo_ss k"
  by (simp add: serving_def)

subsection \<open>Every request is served\<close>

lemma served_if_admissible:
  assumes "ss_inv ss" and "ss_ring ss \<noteq> []" and "admissible e ss req"
  shows "\<exists>resp calls ss'. ss_serve rng e req ss = Inr (resp, calls, ss') \<and> ss_inv ss' \<and> ss_ring ss' \<noteq> []"
proof (cases "req_key req")
  case (Some key)
  show ?thesis
  proof (cases "owns ss key")
    case True
    from ss_serve_refines [OF assms Some True, of rng] show ?thesis
      using assms(2) by (auto simp: refines_step_def)
  next
    case False
    then have "keyRangeContains ss key = Inr False" using assms by (simp add: keyRangeContains_owns)
    with ss_serve_not_mine [OF Some] assms show ?thesis by auto
  qed
next
  case None
  have m: "members_wf ss" using assms(1) by (simp add: ss_inv_def)
  have reg: "\<exists>r ss'. ss_RegisterServer rng a ss = Inr (r, ss') \<and> ss_inv ss' \<and> ss_ring ss' \<noteq> []" for a
  proof (cases "NodeID (ServerInfo a) \<in> fst ` set (ss_nodes ss)")
    case True
    with ss_RegisterServer_known assms show ?thesis by blast
  next
    case False
    from ss_RegisterServer_new [OF m False] ss_inv_members [OF assms(1)] show ?thesis
      by fastforce
  qed
  from None consider a where "req = ReqRegister a" | "req = ReqGetServers" by (cases req) auto
  then show ?thesis
  proof cases
    case (1 a)
    with reg [of a] show ?thesis by auto
  qed (use assms in simp)
qed

text \<open>C6: a storage server that satisfies its invariant and has joined the ring serves an RPC request, in whatever
  order it is sent, and keeps the invariant and the ring, or ends with \<open>log.Fatal\<close>.  The latter happens only to a
  write of a key on which an app server that cannot be dialled holds a lease that has not run out.  The one
  condition on the request is that the callback address of a read does not contain the separator of lease
  records.\<close>

theorem storage_serves_every_request:
  assumes "ss_inv ss" and "ss_ring ss \<noteq> []" and "callback_ok req"
  shows "(\<exists>resp calls ss'. ss_serve rng e req ss = Inr (resp, calls, ss') \<and> ss_inv ss' \<and> ss_ring ss' \<noteq> []) \<or>
    (\<exists>key n. req_key req = Some key \<and> is_write req \<and> n < length (tenants_of ss key) \<and>
       clk e n \<le> lease_time (tenants_of ss key ! n) + LeaseSeconds + LeaseGuardSeconds \<and>
       \<not> dial e (lease_host (tenants_of ss key ! n)) \<and>
       ss_serve rng e req ss = Inl (LogFatal ''rpc error:''))"
proof (cases "req_key req")
  case (Some key)
  have "admissible (all_dialled e) ss req" using assms(3) by (simp add: admissible_def reachable_holders_def)
  from served_if_admissible [OF assms(1,2) this, of rng] obtain resp calls ss' where
    "ss_serve rng (all_dialled e) req ss = Inr (resp, calls, ss')" "ss_inv ss'" "ss_ring ss' \<noteq> []" by blast
  moreover have "leases_wf ss" using assms(1) by (simp add: ss_inv_def)
  note ss_serve_outcome [OF this Some, of rng e]
  ultimately show ?thesis using Some by (auto simp: cut_off_def)
next
  case None
  then have "admissible e ss req" using assms(3) by (simp add: admissible_def)
  from served_if_admissible [OF assms(1,2) this] show ?thesis by blast
qed

text \<open>A write at \<open>105\<close> by a server that reaches the holder \<open>h\<close>, and by one that does not.\<close>

theorem storage_serves_every_request_witness:
  "(\<exists>resp calls ss'. ss_serve rev (demo_env 105) (ReqAppend \<lparr>pa_Key = ''u:sublist'', pa_Value = ''b''\<rparr>) demo_ss
        = Inr (resp, calls, ss') \<and> ss_inv ss' \<and> ss_ring ss' \<noteq> []) \<and>
   ss_serve rev (demo_env 105\<lparr>dial := \<lambda>_. False\<rparr>) (ReqPut \<lparr>pa_Key = ''u:sublist'', pa_Value = ''b''\<rparr>) demo_ss =
     Inl (LogFatal ''rpc error:'')"
proof
  have "callback_ok (ReqAppend \<lparr>pa_Key = ''u:sublist'', pa_Value = ''b''\<rparr>)" by simp
  from storage_serves_every_request [OF demo_ss_inv _ this, of rev "demo_env 105"]
  show "\<exists>resp calls ss'. ss_serve rev (demo_env 105) (ReqAppend \<lparr>pa_Key = ''u:sublist'', pa_Value = ''b''\<rparr>) demo_ss
        = Inr (resp, calls, ss') \<and> ss_inv ss' \<and> ss_ring ss' \<noteq> []"
    by (simp del: ss_serve.simps)
  have "keyRangeContains demo_ss ''u:sublist'' = Inr True" using serving_mine demo_serving by blast
  moreover have "ss_tenants demo_ss ''u:sublist'' = Some [FormatLeaseRecord ''h'' 100]" by (simp add: demo_ss_def)
  moreover have "ss_conns demo_ss = Map.empty" by (simp add: demo_ss_def new_storageServer_def)
  ultimately show "ss_serve rev (demo_env 105\<lparr>dial := \<lambda>_. False\<rparr>) (ReqPut \<lparr>pa_Key = ''u:sublist'', pa_Value = ''b''\<rparr>) demo_ss =
     Inl (LogFatal ''rpc error:'')"
    by (simp add: ss_Put_def revokeLease_def getAppServer_def demo_env_def int64_def)
qed

subsection \<open>The data is a map of sets\<close>

fun ss_run ::
  "range_order \<Rightarrow> (env \<times> request) list \<Rightarrow> storageServer \<Rightarrow> (response list \<times> storageServer) go" where
  "ss_run rng [] ss = Inr ([], ss)"
| "ss_run rng ((e, req) # rest) ss =
     go_bind (ss_serve rng e req ss) (\<lambda>(resp, calls, ss).
     go_bind (ss_run rng rest ss) (\<lambda>(resps, ss). Inr (resp # resps, ss)))"

fun kv_run :: "request list \<Rightarrow> kv \<Rightarrow> (Status \<times> string list) list \<times> kv" where
  "kv_run [] m = ([], m)"
| "kv_run (req # rest) m =
     (case kv_serve req m of (a, m) \<Rightarrow> case kv_run rest m of (as, m) \<Rightarrow> (a # as, m))"

text \<open>C5: on a server that satisfies its invariant and has joined the ring, any sequence of data requests for keys that
  it owns is answered, status and value, exactly as the abstract map of sets answers it, and leaves the data of
  that map; in particular a list is read back sorted and without duplicates.  This holds while the app
  servers can be dialled (otherwise a write may end the process, see \<open>storage_serves_every_request\<close>) and the callback addresses of the
  reads do not contain the separator of lease records.\<close>

theorem storage_refines_map:
  assumes "ss_inv ss" and "ss_ring ss \<noteq> []"
    and "\<forall>(e, req)\<in>set reqs. callback_ok req \<and> (\<forall>h. dial e h) \<and> (\<exists>key. req_key req = Some key \<and> owns ss key)"
  shows "\<exists>resps ss'. ss_run rng reqs ss = Inr (resps, ss') \<and>
     (map answer resps, abs_kv (ss_storage ss')) = kv_run (map snd reqs) (abs_kv (ss_storage ss))"
  using assms
proof (induction reqs arbitrary: ss)
  case Nil
  then show ?case by simp
next
  case (Cons er reqs)
  obtain e req where er: "er = (e, req)" by (cases er)
  from Cons.prems(3) obtain key where key: "req_key req = Some key" "owns ss key"
    and ok: "callback_ok req" "\<forall>h. dial e h"
    by (auto simp: er)
  then have "admissible e ss req" by (simp add: admissible_def reachable_holders_def)
  from ss_serve_refines [OF Cons.prems(1,2) this key, of rng] obtain resp calls ss1 where 1:
    "ss_serve rng e req ss = Inr (resp, calls, ss1)" "ss_inv ss1" "ss_ring ss1 = ss_ring ss"
    "ss_nodeID ss1 = ss_nodeID ss"
    "kv_serve req (abs_kv (ss_storage ss)) = (answer resp, abs_kv (ss_storage ss1))"
    by (auto simp: refines_step_def)
  then have "owns ss1 = owns ss" by (simp add: fun_eq_iff owns_def)
  with Cons.IH [of ss1] Cons.prems 1 obtain resps ss2 where
    "ss_run rng reqs ss1 = Inr (resps, ss2)"
    "(map answer resps, abs_kv (ss_storage ss2)) = kv_run (map snd reqs) (abs_kv (ss_storage ss1))"
    by auto
  with 1 show ?case by (auto simp: er split: prod.splits)
qed

text \<open>An append, a removal and a read, on a server with data and a lease.\<close>

definition demo_reqs :: "(env \<times> request) list" where
  "demo_reqs = map (Pair (demo_env 105))
     [ReqAppend \<lparr>pa_Key = ''u:sublist'', pa_Value = ''b''\<rparr>,
      ReqRemove \<lparr>pa_Key = ''u:sublist'', pa_Value = ''c''\<rparr>,
      ReqGetList \<lparr>ga_Key = ''u:sublist'', ga_WantLease = True, ga_HostPort = ''h''\<rparr>]"

theorem storage_refines_map_witness:
  "\<exists>resps ss'. ss_run rev demo_reqs demo_ss = Inr (resps, ss') \<and>
     map answer resps = [(OK, []), (OK, []), (OK, [''a'', ''b''])] \<and>
     abs_kv (ss_storage ss') = [''u:sublist'' \<mapsto> {''a'', ''b''}]"
proof -
  have reqs: "\<forall>(e, req)\<in>set demo_reqs.
      callback_ok req \<and> (\<forall>h. dial e h) \<and> (\<exists>key. req_key req = Some key \<and> owns demo_ss key)"
    by (simp add: demo_reqs_def)
  have abs: "abs_kv (ss_storage demo_ss) = [''u:sublist'' \<mapsto> {''a'', ''c''}]"
    by (simp add: demo_ss_def) (simp add: abs_kv_def fun_eq_iff)
  have "sorted_list_of_set {''a'', ''b''} = [''a'', ''b'']" by simp
  moreover have "insert ''b'' {''a'', ''c''} - {''c''} = {''a'', ''b''}" by auto
  ultimately show ?thesis
    using storage_refines_map [OF demo_ss_inv _ reqs, of rev]
    by (auto simp: abs demo_reqs_def kv_append_def kv_remove_def kv_get_list_def)
qed

subsection \<open>Keys of other servers\<close>

text \<open>C20: a data request for a key that another node of the ring owns is answered with the status
  \<open>WrongServer\<close> and changes nothing, and no lease holder is called.\<close>

theorem storage_rejects_foreign_keys:
  assumes "ss_inv ss" and "ss_ring ss \<noteq> []" and "req_key req = Some key"
    and "ring_owner (set (ss_ring ss)) (StoreHash key) \<noteq> ss_nodeID ss"
  shows "\<exists>resp. ss_serve rng e req ss = Inr (resp, [], ss) \<and> fst (answer resp) = WrongServer"
proof -
  have "keyRangeContains ss key = Inr False"
    using assms by (auto simp: keyRangeContains_owns owns_def)
  from ss_serve_not_mine [OF assms(3) this] assms(3) show ?thesis by (cases req) auto
qed

definition demo_other :: storageServer where
  "demo_other = demo_ss\<lparr>ss_nodeID := 8\<rparr>"

theorem storage_rejects_foreign_keys_witness:
  "ss_inv demo_other \<and> ring_owner (set (ss_ring demo_other)) (StoreHash ''u:usrid'') \<noteq> ss_nodeID demo_other \<and>
   (\<exists>resp. ss_serve rev (demo_env 0) (ReqDelete \<lparr>da_Key = ''u:usrid''\<rparr>) demo_other = Inr (resp, [], demo_other)
      \<and> fst (answer resp) = WrongServer)"
proof -
  have inv: "ss_inv demo_other"
    using demo_ss_inv by (simp add: demo_other_def ss_inv_defs)
  have own: "ring_owner (set (ss_ring demo_other)) (StoreHash ''u:usrid'') \<noteq> ss_nodeID demo_other"
    by (simp add: demo_other_def)
  have "ss_ring demo_other \<noteq> []" by (simp add: demo_other_def)
  from storage_rejects_foreign_keys [OF inv this _ own, of "ReqDelete \<lparr>da_Key = ''u:usrid''\<rparr>" rev "demo_env 0"]
  show ?thesis using inv own by simp
qed

subsection \<open>Leases\<close>

lemma unleased_key: "ss_inv ss \<Longrightarrow> ss_storage ss key = None \<Longrightarrow> ss_tenants ss key = None"
  by (metis leases_wf_def not_Some_eq ss_inv_def)

lemma wrote_revokes: "wrote e ss key v calls ss' \<Longrightarrow> calls = lease_calls e ss key \<and> holders ss' key = {}"
  by (auto simp: wrote_def holders_def tenants_of_def)

lemma write_effect:
  assumes "serving e ss key" and "req_key req = Some key" and "is_write req"
    and "ss_serve rng e req ss = Inr (resp, calls, ss')" and "fst (answer resp) = OK"
    and "ss_storage ss key = Some [] \<Longrightarrow> \<nexists>a. req = ReqAppend a"
  shows "calls = lease_calls e ss key \<and> holders ss' key = {}"
proof (cases "ss_storage ss key = None")
  case True
  then have t: "ss_tenants ss key = None" using assms(1) unleased_key serving_inv by blast
  then have r: "revokeLease e key ss = Inr ([], ss)" by (simp add: revokeLease_def)
  show ?thesis
    using assms True t r
    by (cases req) (auto simp: ss_Put_def ss_Delete_def ss_AppendToList_def ss_RemoveFromList_def
        lease_calls_def tenants_of_def holders_def)
next
  case False
  then obtain vs where vs: "ss_storage ss key = Some vs" by auto
  have "\<exists>v. wrote e ss key v calls ss'"
  proof (cases req)
    case (ReqPut a)
    obtain v where a: "a = \<lparr>pa_Key = key, pa_Value = v\<rparr>" using assms(2) ReqPut by (cases a) auto
    obtain c s where
      "ss_Put e \<lparr>pa_Key = key, pa_Value = v\<rparr> ss = Inr (\<lparr>pr_Status = OK\<rparr>, c, s)" "wrote e ss key (Some [v]) c s"
      using ss_Put_serving [OF assms(1), of v] by blast
    with assms(4) ReqPut a show ?thesis by auto
  next
    case (ReqDelete a)
    have a: "a = \<lparr>da_Key = key\<rparr>" using assms(2) ReqDelete by (cases a) auto
    obtain c s where
      "ss_Delete e \<lparr>da_Key = key\<rparr> ss = Inr (\<lparr>dr_Status = OK\<rparr>, c, s)" "wrote e ss key None c s"
      using ss_Delete_serving [OF assms(1) False] by blast
    with assms(4) ReqDelete a show ?thesis by auto
  next
    case (ReqAppend a)
    obtain v where a: "a = \<lparr>pa_Key = key, pa_Value = v\<rparr>" using assms(2) ReqAppend by (cases a) auto
    have ne: "vs \<noteq> []" using assms(6) vs ReqAppend by auto
    show ?thesis
    proof (cases "v \<in> set vs")
      case True
      with ss_Append_present [OF assms(1) vs] assms(4,5) ReqAppend a show ?thesis by auto
    next
      case False
      obtain c s where "ss_AppendToList e \<lparr>pa_Key = key, pa_Value = v\<rparr> ss = Inr (\<lparr>pr_Status = OK\<rparr>, c, s)"
        "wrote e ss key (Some (ins_at_rank vs v)) c s"
        using ss_Append_serving [OF assms(1) vs ne False] by blast
      with assms(4) ReqAppend a show ?thesis by auto
    qed
  next
    case (ReqRemove a)
    obtain v where a: "a = \<lparr>pa_Key = key, pa_Value = v\<rparr>" using assms(2) ReqRemove by (cases a) auto
    show ?thesis
    proof (cases "v \<in> set vs")
      case True
      obtain c s ws where
        "ss_RemoveFromList e \<lparr>pa_Key = key, pa_Value = v\<rparr> ss = Inr (\<lparr>pr_Status = OK\<rparr>, c, s)"
        "wrote e ss key (Some ws) c s"
        by (rule ss_Remove_serving [OF assms(1) vs True]) (rule that)
      with assms(4) ReqRemove a show ?thesis by auto
    next
      case False
      then have "ss_RemoveFromList e a ss = Inr (\<lparr>pr_Status = ItemNotFound\<rparr>, [], ss)"
        using ss_Remove_absent [OF assms(1), of v] vs a by simp
      with assms(4,5) ReqRemove show ?thesis by auto
    qed
  qed (use assms(3) in simp_all)
  then show ?thesis using wrote_revokes by blast
qed

text \<open>C15: a successful write of a key on a server that owns it and can dial the lease holders calls exactly the
  holders whose record has not run out when the server reaches it, and afterwards nobody is on record for
  the key.  The one exception is an append to a list that is present and empty: it calls nobody and keeps all
  records, so that whoever has cached the empty list goes on reading it.\<close>

theorem write_revokes_unexpired_leases:
  assumes "serving e ss key" and "req_key req = Some key" and "is_write req"
    and "ss_serve rng e req ss = Inr (resp, calls, ss')" and "fst (answer resp) = OK"
  shows "if ss_storage ss key = Some [] \<and> (\<exists>a. req = ReqAppend a)
    then calls = [] \<and> ss_tenants ss' = ss_tenants ss
    else set calls = {(lease_host (tenants_of ss key ! n), key) | n.
        n < length (tenants_of ss key) \<and>
        clk e n \<le> lease_time (tenants_of ss key ! n) + LeaseSeconds + LeaseGuardSeconds}
      \<and> holders ss' key = {}"
proof (cases "ss_storage ss key = Some [] \<and> (\<exists>a. req = ReqAppend a)")
  case True
  then obtain a where a: "req = ReqAppend a" by blast
  then obtain v where "a = \<lparr>pa_Key = key, pa_Value = v\<rparr>" using assms(2) by (cases a) auto
  with ss_Append_unleased [OF assms(1), of v] True a assms(4) show ?thesis by auto
next
  case False
  then have "ss_storage ss key = Some [] \<Longrightarrow> \<nexists>a. req = ReqAppend a" by blast
  from write_effect [OF assms this] show ?thesis unfolding if_not_P [OF False] by (simp only: set_lease_calls)
qed

text \<open>The holder of a lease taken at \<open>100\<close> is called by a write at \<open>105\<close>.\<close>

theorem write_revokes_unexpired_leases_witness:
  "\<exists>resp calls ss'. ss_serve rev (demo_env 105) (ReqPut \<lparr>pa_Key = ''u:sublist'', pa_Value = ''x''\<rparr>) demo_ss
       = Inr (resp, calls, ss') \<and> set calls = {(''h'', ''u:sublist'')} \<and> holders ss' ''u:sublist'' = {}"
proof -
  let ?req = "ReqPut \<lparr>pa_Key = ''u:sublist'', pa_Value = ''x''\<rparr>"
  obtain calls ss' where "ss_Put (demo_env 105) \<lparr>pa_Key = ''u:sublist'', pa_Value = ''x''\<rparr> demo_ss
      = Inr (\<lparr>pr_Status = OK\<rparr>, calls, ss')"
    using ss_Put_serving [OF demo_serving] by blast
  then have put: "ss_serve rev (demo_env 105) ?req demo_ss = Inr (RespPut \<lparr>pr_Status = OK\<rparr>, calls, ss')"
    by simp
  have t: "tenants_of demo_ss ''u:sublist'' = [FormatLeaseRecord ''h'' 100]"
    by (simp add: tenants_of_def demo_ss_def)
  have "set calls = {(''h'', ''u:sublist'')} \<and> holders ss' ''u:sublist'' = {}"
    using write_revokes_unexpired_leases [OF demo_serving _ _ put]
    by (simp add: t demo_env_def int64_def)
  with put show ?thesis by blast
qed

text \<open>A read that asks for a lease on an owned key that exists is answered with a lease of
  \<open>LeaseSeconds\<close>, and the caller is on record as a holder of the key afterwards; a read never
  changes the data.\<close>

lemma read_records_lease:
  assumes "serving e ss (ga_Key args)" and "CHR ''~'' \<notin> set (ga_HostPort args)"
    and "ga_WantLease args" and "ss_storage ss (ga_Key args) \<noteq> None"
  shows "\<exists>reply ss'. ss_GetList e args ss = Inr (reply, ss') \<and> glr_Status reply = OK \<and>
      glr_Lease reply = \<lparr>Granted = True, ValidSeconds = LeaseSeconds\<rparr> \<and>
      holders ss' (ga_Key args) = insert (ga_HostPort args) (holders ss (ga_Key args)) \<and>
      ss_storage ss' = ss_storage ss"
proof -
  obtain ss' where r: "ss_GetList e args ss =
      Inr (\<lparr>glr_Status = fst (kv_get_list (ga_Key args) (abs_kv (ss_storage ss))),
           glr_Value = snd (kv_get_list (ga_Key args) (abs_kv (ss_storage ss))),
           glr_Lease = lease_of ss args\<rparr>, ss')" and l: "leased (clk e 0) ss args ss'"
    using ss_GetList_serving [OF assms(1,2)] by blast
  have "fst (kv_get_list (ga_Key args) (abs_kv (ss_storage ss))) = OK"
    using assms(4) by (auto simp: kv_get_list_def abs_kv_Some)
  moreover have "holders ss' (ga_Key args) = insert (ga_HostPort args) (holders ss (ga_Key args))"
    by (rule leased_holders [OF l assms(3,4)])
  ultimately show ?thesis
    using r assms(3,4) leased_frame [OF l] by (auto simp: lease_of_def granted_lease_def)
qed

text \<open>An append to a list that exists and is empty stores the value but calls no lease holder
  and leaves the lease records in place: whoever has cached the empty list keeps reading it.\<close>

lemma append_to_empty_list_revokes_nothing:
  assumes "serving e ss key" and "ss_storage ss key = Some []"
  shows "\<exists>ss'. ss_AppendToList e \<lparr>pa_Key = key, pa_Value = v\<rparr> ss = Inr (\<lparr>pr_Status = OK\<rparr>, [], ss') \<and>
     ss_storage ss' key = Some [v] \<and> ss_tenants ss' = ss_tenants ss"
  using ss_Append_unleased [OF assms(1) disjI2 [OF assms(2)]] by simp

text \<open>C39: renewing a lease does not renew its record.  When the only record of the key is the
  caller's own, of time \<open>t0\<close>, a read by the same host is granted a fresh lease at whatever time,
  but a write later than \<open>t0\<close> plus the lease and guard time finds the old record, takes the lease
  for expired and calls nobody.\<close>

theorem lease_renewal_is_not_recorded:
  assumes "serving e1 ss key" and "ss_tenants ss key = Some [FormatLeaseRecord h t0]"
    and "CHR ''~'' \<notin> set h" and "int64 t0"
    and "t0 + LeaseSeconds + LeaseGuardSeconds < clk e2 0"
  shows "\<exists>reply ss1 ss2. ss_Get e1 \<lparr>ga_Key = key, ga_WantLease = True, ga_HostPort = h\<rparr> ss = Inr (reply, ss1) \<and>
     gr_Lease reply = \<lparr>Granted = True, ValidSeconds = LeaseSeconds\<rparr> \<and>
     ss_Put e2 \<lparr>pa_Key = key, pa_Value = v\<rparr> ss1 = Inr (\<lparr>pr_Status = OK\<rparr>, [], ss2)"
proof -
  have held: "h \<in> holders ss key" using assms(2,3) by (simp add: holders_def tenants_of_def)
  have inv: "leases_wf ss" using assms(1) by (simp add: serving_def ss_inv_def)
  then obtain vs where vs: "ss_storage ss key = Some vs" using assms(2) by (auto simp: leases_wf_def)
  have "revokeLease e2 key ss = Inr ([], ss\<lparr>ss_tenants := (ss_tenants ss)(key := None)\<rparr>)"
    using assms(2-5) by (simp add: revokeLease_def)
  with recordLease_held [OF inv assms(3) held] assms(1) vs show ?thesis
    by (simp add: ss_Get_def ss_Put_def granted_lease_def Let_def)
qed

text \<open>A lease renewed at \<open>115\<close> is skipped by a write at \<open>116\<close>.\<close>

theorem lease_renewal_is_not_recorded_witness:
  "\<exists>reply ss1 ss2. ss_Get (demo_env 115) \<lparr>ga_Key = ''u:sublist'', ga_WantLease = True, ga_HostPort = ''h''\<rparr> demo_ss
       = Inr (reply, ss1) \<and> gr_Lease reply = \<lparr>Granted = True, ValidSeconds = LeaseSeconds\<rparr> \<and>
     ss_Put (demo_env 116) \<lparr>pa_Key = ''u:sublist'', pa_Value = ''x''\<rparr> ss1 = Inr (\<lparr>pr_Status = OK\<rparr>, [], ss2)"
proof -
  have "ss_tenants demo_ss ''u:sublist'' = Some [FormatLeaseRecord ''h'' 100]" by (simp add: demo_ss_def)
  from lease_renewal_is_not_recorded [OF demo_serving this, of "demo_env 116" 115 "''x''"] show ?thesis
    by (simp add: int64_def demo_env_def)
qed

subsection \<open>Membership\<close>

text \<open>C21: \<open>RegisterServer\<close> never crashes on a well-formed member list; afterwards the list is
  well formed, the ring is strictly sorted and holds the new identifier beside the old ones,
  registering a known node changes nothing, and the status is \<open>OK\<close> exactly when the ring has
  \<open>numNodes\<close> members, in which case the reply names every member.\<close>

theorem register_server_membership:
  assumes "members_wf ss" and "\<And>xs. set (rng xs) = set xs"
  shows "\<exists>r ss'. ss_RegisterServer rng args ss = Inr (r, ss') \<and> members_wf ss' \<and>
     set (ss_ring ss') = insert (NodeID (ServerInfo args)) (set (ss_ring ss)) \<and>
     (NodeID (ServerInfo args) \<in> set (ss_ring ss) \<longrightarrow> ss' = ss) \<and>
     (reg_Status r = OK \<longleftrightarrow> ss_numNodes ss \<le> int (length (ss_ring ss'))) \<and>
     (reg_Status r = OK \<longrightarrow> NodeID ` set (reg_Servers r) = set (ss_ring ss'))"
proof -
  have servers: "NodeID ` set (reg_Servers (register_reply rng ss')) = fst ` set (ss_nodes ss')"
    if "reg_Status (register_reply rng ss') = OK" for ss'
    using that assms(2) by (simp add: register_reply_def split: if_splits)
  have ring: "set (ss_ring ss) = fst ` set (ss_nodes ss)" using assms(1) by (simp add: members_wf_def)
  show ?thesis
  proof (cases "NodeID (ServerInfo args) \<in> fst ` set (ss_nodes ss)")
    case True
    then obtain r where r: "ss_RegisterServer rng args ss = Inr (r, ss)"
      using ss_RegisterServer_known by blast
    with ss_RegisterServer_reply [OF r] servers [of ss] assms(1) ring True show ?thesis by (simp add: insert_absorb)
  next
    case False
    let ?ss = "ss\<lparr>ss_ring := ins_at_rank (ss_ring ss) (NodeID (ServerInfo args)),
        ss_nodes := AList.update (NodeID (ServerInfo args)) (HostPort (ServerInfo args)) (ss_nodes ss)\<rparr>"
    obtain r where r: "ss_RegisterServer rng args ss = Inr (r, ?ss)" and wf: "members_wf ?ss"
      using ss_RegisterServer_new [OF assms(1) False] by blast
    have "fst ` set (ss_nodes ?ss) = set (ss_ring ?ss)" using wf by (simp add: members_wf_def)
    with ss_RegisterServer_reply [OF r] servers [of ?ss] r wf ring False show ?thesis by simp
  qed
qed

theorem register_server_membership_witness:
  "\<exists>r ss'. ss_RegisterServer rev \<lparr>ServerInfo = \<lparr>HostPort = ''localhost:9010'', NodeID = 3\<rparr>\<rparr>
       (new_storageServer [] 2 9009 7) = Inr (r, ss') \<and>
     set (ss_ring ss') = {3, 7} \<and> reg_Status r = OK \<and> NodeID ` set (reg_Servers r) = {3, 7}"
proof -
  let ?m = "new_storageServer [] 2 9009 7"
  have wf: "members_wf ?m" by (simp add: members_wf_def new_storageServer_def)
  obtain r ss' where r: "ss_RegisterServer rev \<lparr>ServerInfo = \<lparr>HostPort = ''localhost:9010'', NodeID = 3\<rparr>\<rparr> ?m = Inr (r, ss')"
    "members_wf ss'" "set (ss_ring ss') = insert 3 (set (ss_ring ?m))"
    "reg_Status r = OK \<longleftrightarrow> ss_numNodes ?m \<le> int (length (ss_ring ss'))"
    "reg_Status r = OK \<longrightarrow> NodeID ` set (reg_Servers r) = set (ss_ring ss')"
    using register_server_membership [OF wf, of rev "\<lparr>ServerInfo = \<lparr>HostPort = ''localhost:9010'', NodeID = 3\<rparr>\<rparr>"]
    by auto
  have set: "set (ss_ring ss') = {3, 7}" using r(3) by (simp add: new_storageServer_def)
  have "length (ss_ring ss') = card (set (ss_ring ss'))"
    using r(2) distinct_card [OF ssorted_distinct] by (metis members_wf_def)
  then have "length (ss_ring ss') = 2" by (simp add: set)
  with r set show ?thesis by (simp add: new_storageServer_def)
qed

text \<open>C22: a slave whose master answers at last with its member list, in any order, starts: the call
  returns, the slave's ring is the master's, its addresses are the master's, and it satisfies the
  invariant.  One of the first six dials must succeed and the earlier answers may all be
  \<open>NotReady\<close>.\<close>

theorem slave_joins_with_masters_ring:
  assumes "members_wf m" and "\<And>xs. mset (rng xs) = mset xs" and "master \<noteq> []"
    and "su_listen su (''localhost:'' @ Itoa port) = None" and "su_register su = None"
    and "k \<le> 5" and "su_dial su k"
    and "\<forall>i<n. \<exists>r. su_call su i = Inr r \<and> reg_Status r \<noteq> OK"
    and "su_call su n = Inr \<lparr>reg_Status = OK, reg_Servers = map node_of (rng (ss_nodes m))\<rparr>"
  shows "\<exists>ss. NewStorageServer su master numNodes port nodeID = Some (Inr (Inr ss)) \<and>
     ss_inv ss \<and> ss_nodeID ss = nodeID \<and> ss_ring ss = ss_ring m \<and>
     map_of (ss_nodes ss) = map_of (ss_nodes m) \<and> ss_numNodes ss = int (length (ss_ring m))"
proof -
  let ?s = "new_storageServer master numNodes port nodeID"
  have s: "ss_ring ?s = []" "ss_nodes ?s = []" "ss_inv ?s"
    using assms(3) by (simp_all add: new_storageServer_def ss_inv_defs)
  from add_servers_same_ring [OF assms(1) assms(2) s(1,2)] obtain ns where ns:
    "add_servers (map node_of (rng (ss_nodes m))) ?s = Inr (?s\<lparr>ss_ring := ss_ring m, ss_nodes := ns\<rparr>)"
    "members_wf (?s\<lparr>ss_ring := ss_ring m, ss_nodes := ns\<rparr>)" "map_of ns = map_of (ss_nodes m)"
    by blast
  have len: "length (rng (ss_nodes m)) = length (ss_ring m)"
  proof -
    have "length (ss_nodes m) = card (fst ` set (ss_nodes m))"
      using assms(1) distinct_card [of "map fst (ss_nodes m)"] by (simp add: members_wf_def)
    also have "\<dots> = length (ss_ring m)"
      using assms(1) distinct_card [OF ssorted_distinct, of "ss_ring m"] by (simp add: members_wf_def)
    finally show ?thesis using mset_eq_length [OF assms(2)] by simp
  qed
  have "join_ring (su_call su) 0 ?s =
      Some (Inr (?s\<lparr>ss_ring := ss_ring m, ss_nodes := ns, ss_numNodes := int (length (ss_ring m))\<rparr>))"
    using join_ring_waits [of 0 n "su_call su" ?s] assms(8,9) ns(1) len
    by (simp add: join_ring.simps [of _ n])
  moreover obtain d where "dial_master (su_dial su) 0 = Inr d"
    using dial_master_ok assms(6,7) by blast
  moreover have "ss_inv (?s\<lparr>ss_ring := ss_ring m, ss_nodes := ns, ss_numNodes := int (length (ss_ring m))\<rparr>)"
    using ss_inv_members [OF s(3) ns(2)] by (simp add: ss_inv_defs)
  moreover have "ss_nodeID ?s = nodeID" by (simp add: new_storageServer_def Let_def)
  ultimately show ?thesis
    using assms(3-5) ns(3) by (simp add: NewStorageServer_def Let_def)
qed

text \<open>The master of a ring of two answers the second call.\<close>

definition demo_master :: storageServer where
  "demo_master = (new_storageServer [] 2 9009 7)\<lparr>ss_ring := [3, 7],
     ss_nodes := [(7, ''localhost:9009''), (3, ''localhost:9010'')]\<rparr>"

definition demo_startup :: startup where
  "demo_startup = \<lparr>su_listen = \<lambda>_. None, su_register = None, su_polled = \<lambda>_. demo_master,
     su_dial = \<lambda>n. n = 2,
     su_call = (\<lambda>n. if n = 0 then Inr \<lparr>reg_Status = NotReady, reg_Servers = []\<rparr>
                else Inr \<lparr>reg_Status = OK, reg_Servers = map node_of (rev (ss_nodes demo_master))\<rparr>)\<rparr>"

theorem slave_joins_with_masters_ring_witness:
  "\<exists>ss. NewStorageServer demo_startup ''localhost:9009'' 2 9010 3 = Some (Inr (Inr ss)) \<and>
     ss_inv ss \<and> ss_ring ss = [3, 7] \<and> ss_numNodes ss = 2"
proof -
  have "members_wf demo_master" by (auto simp: members_wf_def demo_master_def)
  from slave_joins_with_masters_ring [OF this, of rev "''localhost:9009''" demo_startup 9010 2 1 2 3]
  obtain ss where "NewStorageServer demo_startup ''localhost:9009'' 2 9010 3 = Some (Inr (Inr ss))"
    "ss_inv ss" "ss_ring ss = ss_ring demo_master" "ss_numNodes ss = int (length (ss_ring demo_master))"
    by (auto simp: demo_startup_def)
  then show ?thesis by (intro exI [of _ ss]) (simp add: demo_master_def)
qed

text \<open>C40: a slave starts to serve RPCs before it has joined.  Until then its ring is empty, and
  any data request, for whatever key, panics and so ends the process.\<close>

theorem unjoined_server_crashes:
  assumes "ss_ring ss = []" and "req_key req = Some key"
  shows "ss_serve rng e req ss = Inl IndexOutOfRange"
proof -
  have "keyRangeContains ss k = Inl IndexOutOfRange" for k
    using assms(1)
    by (simp add: keyRangeContains_def SearchHashRing_def BinarySearchUint32_def
        bin_search_loop.simps go_index_def)
  with assms(2) show ?thesis
    by (cases req) (simp_all add: ss_Get_def ss_GetList_def ss_Put_def ss_Delete_def
        ss_AppendToList_def ss_RemoveFromList_def)
qed

theorem unjoined_server_crashes_witness:
  "ss_serve rev (demo_env 0) (ReqGet \<lparr>ga_Key = ''u:usrid'', ga_WantLease = False, ga_HostPort = ''h''\<rparr>)
     (new_storageServer ''localhost:9009'' 2 9010 3) = Inl IndexOutOfRange"
proof -
  have "ss_ring (new_storageServer ''localhost:9009'' 2 9010 3) = []" by (simp add: new_storageServer_def)
  from unjoined_server_crashes [OF this] show ?thesis by (simp del: ss_serve.simps)
qed

end
