(* ===== verification/Libstore.thy ===== *)
theory Libstore
  imports Storage_Rpc Util_Common
begin

section \<open>The libstore: the storage client with its lease cache\<close>

text \<open>
  \<open>libstore/libstore_impl.go\<close>.  Each app server links one libstore, which routes a key to the
  storage node that owns it and may keep values in a cache for as long as it holds a lease.  The
  struct is the record \<open>libstore\<close>.  The Go map \<open>records\<close> holds pointers, and \<open>Get\<close> keeps one
  of them across an RPC during which the lock is free, so records live on a heap.  This theory has
  the parts of the methods that run under \<open>ls.lock\<close> or without the network; the theory
  \<open>Cluster\<close> composes them with the RPCs.  Logging of slow calls is left out.
\<close>

subsection \<open>State\<close>

datatype LeaseMode = Never | Normal | Always

text \<open>The struct \<open>record\<close>, which embeds a \<open>Lease\<close>.\<close>

record lrecord = Lease +
  history :: "int list"

record libstore =
  ls_hostPort :: string
  ls_mode :: LeaseMode
  ls_ring :: "u32 list"
  ls_nodes :: "u32 \<rightharpoonup> string"
  ls_conns :: "u32 \<rightharpoonup> string"
  ls_cache :: "string \<rightharpoonup> string list"
  ls_records :: "string \<rightharpoonup> nat"
  ls_heap :: "nat \<rightharpoonup> lrecord"
  ls_next :: nat

definition deref :: "libstore \<Rightarrow> nat \<Rightarrow> lrecord go" where
  "deref ls p = (case ls_heap ls p of None \<Rightarrow> Inl NilDereference | Some r \<Rightarrow> Inr r)"

definition assign :: "nat \<Rightarrow> lrecord \<Rightarrow> libstore \<Rightarrow> libstore" where
  "assign p r ls = ls\<lparr>ls_heap := (ls_heap ls)(p \<mapsto> r)\<rparr>"

subsection \<open>Looking a key up under the lock\<close>

text \<open>The history keeps the last \<open>QueryCacheThresh\<close> queries.\<close>

definition push_history :: "int \<Rightarrow> lrecord \<Rightarrow> lrecord" where
  "push_history t r =
     (let h = history r @ [t] in
      r\<lparr>history := (if QueryCacheThresh < length h then drop (length h - QueryCacheThresh) h else h)\<rparr>)"

text \<open>What the first critical section of \<open>Get\<close> and \<open>GetList\<close> ends with: the cached values, or
  the decision on a lease together with the pointer to the record, if there is one.\<close>

datatype lookup = Hit "string list" | Miss bool "nat option"

definition ls_lookup :: "(nat \<Rightarrow> int) \<Rightarrow> string \<Rightarrow> libstore \<Rightarrow> (lookup \<times> libstore) go" where
  "ls_lookup now key ls =
     (case ls_mode ls of
        Never \<Rightarrow> Inr (Miss False (ls_records ls key), ls)
      | Always \<Rightarrow> Inr (Miss True (ls_records ls key), ls)
      | Normal \<Rightarrow>
          (case ls_records ls key of
             None \<Rightarrow> Inr (Miss False None, ls)
           | Some p \<Rightarrow>
               go_bind (deref ls p) (\<lambda>rec.
               go_bind (go_index (history rec) (int (length (history rec)) - 1)) (\<lambda>latest.
                 let rec = (if latest < now 0 - ValidSeconds rec then rec\<lparr>Granted := False\<rparr> else rec);
                     ls = assign p rec ls in
                 if Granted rec then
                   let ls = assign p (push_history (now 1) rec) ls in
                   (case ls_cache ls key of
                      None \<Rightarrow> Inl (LogFatal ''Cache inconsistent at key'')
                    | Some values \<Rightarrow> Inr (Hit values, ls))
                 else
                   go_bind
                     (if QueryCacheThresh \<le> length (history rec) then
                        go_bind (go_index (history rec) 0) (\<lambda>first.
                          Inr (now 1 - QueryCacheSeconds < first))
                      else Inr False)
                     (\<lambda>wantLease. Inr (Miss wantLease (Some p), ls))))))"

subsection \<open>Routing\<close>

definition getStorageServer :: "(string \<Rightarrow> bool) \<Rightarrow> string \<Rightarrow> libstore \<Rightarrow> (string \<times> libstore) go" where
  "getStorageServer dials key ls =
     go_bind (ls_searchHashRing (ls_ring ls) key) (\<lambda>nid.
       (case ls_conns ls nid of
          None \<Rightarrow>
            let addr = (case ls_nodes ls nid of None \<Rightarrow> [] | Some a \<Rightarrow> a) in
            if dials addr then Inr (addr, ls\<lparr>ls_conns := (ls_conns ls)(nid \<mapsto> addr)\<rparr>)
            else Inl (LogFatal ''rpc error:'')
        | Some cli \<Rightarrow> Inr (cli, ls)))"

subsection \<open>Taking in a reply under the lock\<close>

text \<open>The second critical section of \<open>Get\<close> and \<open>GetList\<close>, for a reply with status \<open>OK\<close>: a
  record is made when there was none before the call, the query enters its history, and with a
  lease the values enter the cache.\<close>

definition ls_store ::
  "int \<Rightarrow> string \<Rightarrow> bool \<Rightarrow> nat option \<Rightarrow> Lease \<Rightarrow> string list \<Rightarrow> libstore \<Rightarrow> libstore go" where
  "ls_store now key wantLease rec lease values ls =
     (let (p, ls) =
        (case rec of
           Some p \<Rightarrow> (p, ls)
         | None \<Rightarrow>
             (ls_next ls,
              assign (ls_next ls) \<lparr>Granted = False, ValidSeconds = LeaseSeconds, history = []\<rparr>
                (ls\<lparr>ls_next := Suc (ls_next ls), ls_records := (ls_records ls)(key \<mapsto> ls_next ls)\<rparr>)))
      in
        go_bind (deref ls p) (\<lambda>r.
          let r = push_history now r in
          if wantLease then
            Inr ((assign p (r\<lparr>Granted := Granted lease, ValidSeconds := ValidSeconds lease\<rparr>) ls)
                   \<lparr>ls_cache := (ls_cache ls)(key \<mapsto> values)\<rparr>)
          else Inr (assign p r ls)))"

definition not_found :: "string \<Rightarrow> go_error" where
  "not_found key = Err (''Key '' @ key @ '' not found'')"

definition ls_Get_reply ::
  "int \<Rightarrow> string \<Rightarrow> bool \<Rightarrow> nat option \<Rightarrow> GetReply \<Rightarrow> libstore \<Rightarrow> ((go_error + string) \<times> libstore) go" where
  "ls_Get_reply now key wantLease rec reply ls =
     (if gr_Status reply = OK then
        go_bind (ls_store now key wantLease rec (gr_Lease reply) [gr_Value reply] ls) (\<lambda>ls.
          Inr (Inr (gr_Value reply), ls))
      else if gr_Status reply = KeyNotFound then Inr (Inl (not_found key), ls)
      else Inr (Inl (Err ''Should not be reached''), ls))"

definition ls_GetList_reply ::
  "int \<Rightarrow> string \<Rightarrow> bool \<Rightarrow> nat option \<Rightarrow> GetListReply \<Rightarrow> libstore
     \<Rightarrow> ((go_error + string list) \<times> libstore) go" where
  "ls_GetList_reply now key wantLease rec reply ls =
     (if glr_Status reply = OK then
        go_bind (ls_store now key wantLease rec (glr_Lease reply) (glr_Value reply) ls) (\<lambda>ls.
          Inr (Inr (glr_Value reply), ls))
      else if glr_Status reply = KeyNotFound then Inr (Inl (not_found key), ls)
      else Inr (Inl (Err ''Unknown reply''), ls))"

text \<open>The errors of the four methods that write.\<close>

definition ls_Put_reply :: "PutReply \<Rightarrow> go_error option" where
  "ls_Put_reply reply = (if pr_Status reply = OK then None else Some (Err ''Should not be reached''))"

definition ls_Delete_reply :: "string \<Rightarrow> DeleteReply \<Rightarrow> go_error option" where
  "ls_Delete_reply key reply =
     (if dr_Status reply = OK then None
      else if dr_Status reply = KeyNotFound then Some (not_found key)
      else Some (Err ''Should not be reached''))"

definition ls_Remove_reply :: "string \<Rightarrow> string \<Rightarrow> PutReply \<Rightarrow> go_error option" where
  "ls_Remove_reply key removeItem reply =
     (if pr_Status reply = OK then None
      else if pr_Status reply = ItemNotFound then
        Some (Err (''Item '' @ removeItem @ '' not found under key '' @ key))
      else Some (Err ''Unknown reply''))"

definition ls_Append_reply :: "string \<Rightarrow> string \<Rightarrow> PutReply \<Rightarrow> go_error option" where
  "ls_Append_reply key newItem reply =
     (if pr_Status reply = OK then None
      else if pr_Status reply = ItemExists then
        Some (Err (''Item '' @ newItem @ '' exists under key '' @ key))
      else Some (Err ''Unknown reply''))"

subsection \<open>Callbacks and the recycler\<close>

definition ls_RevokeLease :: "RevokeLeaseArgs \<Rightarrow> libstore \<Rightarrow> (RevokeLeaseReply \<times> libstore) go" where
  "ls_RevokeLease args ls =
     (let key = ra_Key args in
      case ls_cache ls key of
        Some _ \<Rightarrow>
          let ls = ls\<lparr>ls_cache := (ls_cache ls)(key := None)\<rparr> in
          (case ls_records ls key of
             None \<Rightarrow> Inl NilDereference
           | Some p \<Rightarrow>
               go_bind (deref ls p) (\<lambda>r.
                 Inr (\<lparr>rr_Status = OK\<rparr>, assign p (r\<lparr>Granted := False\<rparr>) ls)))
      | None \<Rightarrow> Inr (\<lparr>rr_Status = KeyNotFound\<rparr>, ls))"

text \<open>The body of \<open>cacheRecycler\<close> for one key of the cache.\<close>

definition recycle_key :: "int \<Rightarrow> string \<Rightarrow> libstore \<Rightarrow> libstore go" where
  "recycle_key now key ls =
     (case ls_records ls key of
        None \<Rightarrow> Inr ls
      | Some p \<Rightarrow>
          go_bind (deref ls p) (\<lambda>rec.
          go_bind (go_index (history rec) (int (length (history rec)) - 1)) (\<lambda>latest.
            if latest < now - ValidSeconds rec \<or> Granted rec = False then
              Inr (ls\<lparr>ls_cache := (ls_cache ls)(key := None), ls_records := (ls_records ls)(key := None)\<rparr>)
            else Inr ls)))"

text \<open>One round over the keys of the cache, in the order the iteration takes.\<close>

fun recycle_round :: "(nat \<Rightarrow> int) \<Rightarrow> nat \<Rightarrow> string list \<Rightarrow> libstore \<Rightarrow> libstore go" where
  "recycle_round now n [] ls = Inr ls"
| "recycle_round now n (key # keys) ls =
     go_bind (recycle_key (now n) key ls) (\<lambda>ls. recycle_round now (Suc n) keys ls)"

subsection \<open>Making a libstore\<close>

definition new_libstore :: "string \<Rightarrow> LeaseMode \<Rightarrow> libstore" where
  "new_libstore myHostPort mode =
     \<lparr>ls_hostPort = myHostPort, ls_mode = mode, ls_ring = [], ls_nodes = Map.empty,
      ls_conns = Map.empty, ls_cache = Map.empty, ls_records = Map.empty,
      ls_heap = Map.empty, ls_next = 0\<rparr>"

fun ls_add_servers :: "Node list \<Rightarrow> libstore \<Rightarrow> libstore go" where
  "ls_add_servers [] ls = Inr ls"
| "ls_add_servers (node # rest) ls =
     (let nid = NodeID node; addr = HostPort node in
      go_bind (ls_binarySearchUint32 (ls_ring ls) nid) (\<lambda>i.
      go_bind (go_insert 0 (ls_ring ls) i nid) (\<lambda>temp.
        ls_add_servers rest (ls\<lparr>ls_ring := temp, ls_nodes := (ls_nodes ls)(nid \<mapsto> addr)\<rparr>))))"

text \<open>The master is asked at most five times; \<open>call n\<close> is the outcome of the \<open>n\<close>-th call.\<close>

function await_servers ::
  "(nat \<Rightarrow> go_error + GetServersReply) \<Rightarrow> nat \<Rightarrow> libstore \<Rightarrow> (go_error + libstore) go" where
  "await_servers call re ls =
     (if 5 \<le> re then Inr (Inl (Err ''Timeout when waiting StorageServer ready.''))
      else
        case call re of
          Inl err \<Rightarrow> Inl (LogFatal ''rpc error:'')
        | Inr reply \<Rightarrow>
            if gs_Status reply = OK then
              go_bind (ls_add_servers (gs_Servers reply) ls) (\<lambda>ls. Inr (Inr ls))
            else await_servers call (re + 1) ls)"
  by pat_completeness auto
termination
  by (relation "measure (\<lambda>(call, re, ls). 5 - re)") auto

declare await_servers.simps [simp del]

text \<open>\<open>dialErr\<close> and \<open>registerErr\<close> are the errors of \<open>rpc.DialHTTP\<close> and of registering the
  callbacks, if any.\<close>

definition NewLibstore ::
  "go_error option \<Rightarrow> (nat \<Rightarrow> go_error + GetServersReply) \<Rightarrow> go_error option \<Rightarrow> string \<Rightarrow> LeaseMode
     \<Rightarrow> (go_error + libstore) go" where
  "NewLibstore dialErr call registerErr myHostPort mode =
     (let ls = new_libstore myHostPort mode in
      case dialErr of
        Some err \<Rightarrow> Inr (Inl err)
      | None \<Rightarrow>
          go_bind (await_servers call 0 ls) (\<lambda>r.
            case r of
              Inl err \<Rightarrow> Inr (Inl err)
            | Inr ls \<Rightarrow>
                if mode \<noteq> Never \<and> myHostPort \<noteq> [] then
                  (case registerErr of Some err \<Rightarrow> Inr (Inl err) | None \<Rightarrow> Inr (Inr ls))
                else Inr (Inr ls)))"

end
