(* ===== verification/Libstore_Correct.thy ===== *)
theory Libstore_Correct
  imports Libstore
begin

text \<open>
  The invariant of the libstore and what each of its critical sections does to it.  All of them
  but \<open>ls_store\<close> can only take leases away, which the preorder \<open>lib_down\<close> says; the
  coherence of the caches is proved from that in the theory \<open>Coherence\<close>.
\<close>

section \<open>The invariant of the libstore\<close>

definition lrec :: "libstore \<Rightarrow> string \<Rightarrow> lrecord option" where
  "lrec ls k = (case ls_records ls k of None \<Rightarrow> None | Some p \<Rightarrow> ls_heap ls p)"

definition granted :: "libstore \<Rightarrow> string \<Rightarrow> bool" where
  "granted ls k \<longleftrightarrow> (\<exists>r. lrec ls k = Some r \<and> Granted r)"

text \<open>Every entry of \<open>records\<close> points to an allocated record of its own, whose history is not
  empty and not longer than the threshold; a cached key has a record, and a key with a granted
  lease is cached; a libstore in mode \<open>Never\<close> holds no lease.\<close>

definition lib_inv :: "libstore \<Rightarrow> bool" where
  "lib_inv ls \<longleftrightarrow>
     (\<forall>k p. ls_records ls k = Some p \<longrightarrow> p < ls_next ls \<and>
        (\<exists>r. ls_heap ls p = Some r \<and> history r \<noteq> [] \<and> length (history r) \<le> QueryCacheThresh)) \<and>
     (\<forall>k k' p. ls_records ls k = Some p \<and> ls_records ls k' = Some p \<longrightarrow> k = k') \<and>
     (\<forall>k. ls_cache ls k \<noteq> None \<longrightarrow> ls_records ls k \<noteq> None) \<and>
     (\<forall>k. granted ls k \<longrightarrow> ls_cache ls k \<noteq> None) \<and>
     (\<forall>k. granted ls k \<longrightarrow> ls_mode ls \<noteq> Never)"

lemma lib_inv_record:
  assumes "lib_inv ls" and "ls_records ls k = Some p"
  obtains r where "ls_heap ls p = Some r" and "history r \<noteq> []"
    and "length (history r) \<le> QueryCacheThresh" and "p < ls_next ls"
  using assms unfolding lib_inv_def by meson

lemma lib_inv_cached: "lib_inv ls \<Longrightarrow> ls_cache ls k = Some vs \<Longrightarrow> \<exists>p. ls_records ls k = Some p"
  unfolding lib_inv_def by blast

lemma lib_inv_granted: "lib_inv ls \<Longrightarrow> granted ls k \<Longrightarrow> \<exists>vs. ls_cache ls k = Some vs"
  unfolding lib_inv_def by blast

lemma lib_inv_own: "lib_inv ls \<Longrightarrow> ls_records ls k = Some p \<Longrightarrow> ls_records ls k' = Some p \<Longrightarrow> k = k'"
  unfolding lib_inv_def by blast

subsection \<open>Taking leases away\<close>

definition lib_frame :: "libstore \<Rightarrow> libstore \<Rightarrow> bool" where
  "lib_frame ls ls' \<longleftrightarrow>
     ls_hostPort ls' = ls_hostPort ls \<and> ls_mode ls' = ls_mode ls \<and> ls_ring ls' = ls_ring ls \<and>
     ls_nodes ls' = ls_nodes ls"

definition lib_down :: "libstore \<Rightarrow> libstore \<Rightarrow> bool" where
  "lib_down ls ls' \<longleftrightarrow> lib_frame ls ls' \<and> lib_inv ls' \<and>
     (\<forall>k. granted ls' k \<longrightarrow> granted ls k \<and> ls_cache ls' k = ls_cache ls k)"

lemma lib_down_refl: "lib_inv ls \<Longrightarrow> lib_down ls ls"
  by (simp add: lib_down_def lib_frame_def)

lemma lib_down_trans: "lib_down a b \<Longrightarrow> lib_down b c \<Longrightarrow> lib_down a c"
  by (simp add: lib_down_def lib_frame_def)

lemma lib_downD:
  assumes "lib_down ls ls'"
  shows "lib_inv ls'" and "lib_frame ls ls'" and "granted ls' k \<Longrightarrow> granted ls k"
    and "granted ls' k \<Longrightarrow> ls_cache ls' k = ls_cache ls k"
  using assms by (auto simp: lib_down_def)

subsection \<open>Updates of one record\<close>

lemma assign_sel [simp]:
  "ls_hostPort (assign p r ls) = ls_hostPort ls" "ls_mode (assign p r ls) = ls_mode ls"
  "ls_ring (assign p r ls) = ls_ring ls" "ls_nodes (assign p r ls) = ls_nodes ls"
  "ls_conns (assign p r ls) = ls_conns ls" "ls_cache (assign p r ls) = ls_cache ls"
  "ls_records (assign p r ls) = ls_records ls" "ls_next (assign p r ls) = ls_next ls"
  "ls_heap (assign p r ls) = (ls_heap ls)(p \<mapsto> r)"
  by (simp_all add: assign_def)

lemma assign_assign [simp]: "assign p r (assign p r' ls) = assign p r ls"
  by (simp add: assign_def)

lemma deref_assign [simp]: "deref (assign p r ls) p = Inr r"
  by (simp add: deref_def)

lemma lrec_assign:
  "lib_inv ls \<Longrightarrow> ls_records ls key = Some p \<Longrightarrow> lrec (assign p r ls) k = (if k = key then Some r else lrec ls k)"
  by (cases "ls_records ls k") (auto simp: lrec_def dest: lib_inv_own [of ls key p k])

lemma granted_assign:
  "lib_inv ls \<Longrightarrow> ls_records ls key = Some p \<Longrightarrow>
   granted (assign p r ls) k \<longleftrightarrow> (if k = key then Granted r else granted ls k)"
  by (simp add: granted_def lrec_assign)

lemma granted_record:
  "ls_records ls k = Some p \<Longrightarrow> ls_heap ls p = Some r \<Longrightarrow> granted ls k \<longleftrightarrow> Granted r"
  "ls_records ls k = None \<Longrightarrow> \<not> granted ls k"
  by (simp_all add: granted_def lrec_def)

lemma granted_frame [simp]:
  "granted (ls\<lparr>ls_cache := c\<rparr>) k = granted ls k" "granted (ls\<lparr>ls_conns := d\<rparr>) k = granted ls k"
  by (simp_all add: granted_def lrec_def split: option.splits)

lemma lib_inv_assign:
  assumes "lib_inv ls" and "ls_records ls key = Some p" and "history r \<noteq> []"
    and "length (history r) \<le> QueryCacheThresh" and "Granted r \<longrightarrow> granted ls key"
  shows "lib_inv (assign p r ls)"
  unfolding lib_inv_def
proof (intro conjI allI impI)
  fix k q assume "ls_records (assign p r ls) k = Some q"
  then have q: "ls_records ls k = Some q" by simp
  obtain r0 where "ls_heap ls q = Some r0" "history r0 \<noteq> []" "length (history r0) \<le> QueryCacheThresh"
    "q < ls_next ls"
    using lib_inv_record [OF assms(1) q] by blast
  then show "q < ls_next (assign p r ls)"
    "\<exists>r'. ls_heap (assign p r ls) q = Some r' \<and> history r' \<noteq> [] \<and> length (history r') \<le> QueryCacheThresh"
    using assms(3,4) by auto
next
  fix k assume "granted (assign p r ls) k"
  then have "granted ls k" using assms(5) by (simp add: granted_assign [OF assms(1,2)] split: if_splits)
  then show "ls_cache (assign p r ls) k \<noteq> None" "ls_mode (assign p r ls) \<noteq> Never"
    using assms(1) unfolding lib_inv_def by auto
qed (use assms(1) in \<open>unfold lib_inv_def assign_sel, blast+\<close>)

lemma lib_down_assign:
  assumes "lib_inv ls" and "ls_records ls key = Some p" and "history r \<noteq> []"
    and "length (history r) \<le> QueryCacheThresh" and "Granted r \<longrightarrow> granted ls key"
  shows "lib_down ls (assign p r ls)"
  using lib_inv_assign [OF assms] assms(5)
  by (auto simp: lib_down_def lib_frame_def granted_assign [OF assms(1,2)] split: if_splits)

lemma push_history_sel [simp]:
  "Granted (push_history t r) = Granted r" "ValidSeconds (push_history t r) = ValidSeconds r"
  "history (push_history t r) \<noteq> []" "length (history (push_history t r)) \<le> 3"
  "last (history (push_history t r)) = t"
  by (auto simp: push_history_def Let_def)

lemma last_history:
  "history r \<noteq> [] \<Longrightarrow> go_index (history r) (int (length (history r)) - 1) = Inr (last (history r))"
  by (cases "history r" rule: rev_cases) (auto simp: go_index_def nat_diff_distrib)

section \<open>What the critical sections do\<close>

text \<open>A lookup is a hit only on a granted key in mode \<open>Normal\<close> that was last queried no longer
  ago than its validity, and then returns the cached values; otherwise it hands on the record of
  the key.\<close>

definition lookup_ok :: "int \<Rightarrow> string \<Rightarrow> libstore \<Rightarrow> lookup \<Rightarrow> bool" where
  "lookup_ok now key ls lk \<longleftrightarrow>
     (case lk of
        Hit vs \<Rightarrow> granted ls key \<and> ls_cache ls key = Some vs \<and> ls_mode ls = Normal \<and>
          (\<exists>r. lrec ls key = Some r \<and> now - ValidSeconds r \<le> last (history r))
      | Miss want rec \<Rightarrow> rec = ls_records ls key \<and> (want \<longrightarrow> ls_mode ls \<noteq> Never))"

lemma ls_lookup_result:
  assumes "lib_inv ls"
  obtains (result) lk ls' where "ls_lookup now key ls = Inr (lk, ls')" and "lookup_ok (now 0) key ls lk"
    and "lib_down ls ls'" and "ls_records ls' = ls_records ls" and "ls_conns ls' = ls_conns ls"
proof -
  have easy: thesis if eq: "ls_lookup now key ls = Inr (Miss want (ls_records ls key), ls)"
      and want: "want \<longrightarrow> ls_mode ls \<noteq> Never" for want
    by (rule result [OF eq]) (use want in \<open>auto simp: lookup_ok_def lib_down_refl assms\<close>)
  show thesis
  proof (cases "ls_mode ls = Normal \<and> ls_records ls key \<noteq> None")
    case False
    then show thesis by (cases "ls_mode ls") (auto intro: easy simp: ls_lookup_def)
  next
    case True
    then obtain p where p: "ls_records ls key = Some p" and normal: "ls_mode ls = Normal" by blast
    obtain r where r: "ls_heap ls p = Some r" "history r \<noteq> []" "length (history r) \<le> QueryCacheThresh"
      using lib_inv_record [OF assms p] by blast
    have lr: "lrec ls key = Some r" using p r by (simp add: lrec_def)
    then have g: "granted ls key \<longleftrightarrow> Granted r" by (simp add: granted_def)
    note down = lib_down_assign [OF assms p]
    show thesis
    proof (cases "Granted r \<and> now 0 - ValidSeconds r \<le> last (history r)")
      case True
      then obtain vs where vs: "ls_cache ls key = Some vs" using lib_inv_granted [OF assms] g by blast
      have "ls_lookup now key ls = Inr (Hit vs, assign p (push_history (now 1) r) ls)"
        using True normal p r vs by (auto simp: ls_lookup_def deref_def last_history Let_def)
      then show thesis
        by (rule result) (use True vs g normal lr in \<open>auto simp: lookup_ok_def intro!: down\<close>)
    next
      case False
      let ?r = "if last (history r) < now 0 - ValidSeconds r then r\<lparr>Granted := False\<rparr> else r"
      have nf: "\<not> Granted ?r" "history ?r = history r" using False by auto
      define want where
        "want \<longleftrightarrow> QueryCacheThresh \<le> length (history r) \<and> now 1 - QueryCacheSeconds < history r ! 0"
      have "ls_lookup now key ls = Inr (Miss want (Some p), assign p ?r ls)"
        unfolding ls_lookup_def normal p LeaseMode.case option.case deref_def r(1) go_bind_simps
          last_history [OF r(2)] Let_def if_not_P [OF nf(1)] nf(2)
        by (simp add: go_index_def want_def)
      then show thesis
      proof (rule result)
        show "lib_down ls (assign p ?r ls)" by (rule down) (use nf r in \<open>simp_all only: not_False_eq_True simp_thms\<close>)
      qed (use p normal in \<open>simp_all add: lookup_ok_def\<close>)
    qed
  qed
qed

text \<open>The connections of a libstore lead to the nodes they are filed under.\<close>

definition lib_conns_wf :: "libstore \<Rightarrow> bool" where
  "lib_conns_wf ls \<longleftrightarrow> (\<forall>nid c. ls_conns ls nid = Some c \<longrightarrow> ls_nodes ls nid = Some c)"

lemma lib_inv_conns [simp]: "lib_inv (ls\<lparr>ls_conns := c\<rparr>) = lib_inv ls"
  by (simp add: lib_inv_def)

lemma lib_down_conns: "lib_inv ls \<Longrightarrow> lib_down ls (ls\<lparr>ls_conns := c\<rparr>)"
  by (simp add: lib_down_def lib_frame_def)

lemma getStorageServer_result:
  assumes "lib_inv ls" and "lib_conns_wf ls" and "ssorted (ls_ring ls)" and "ls_ring ls \<noteq> []"
    and "ls_nodes ls (ring_owner (set (ls_ring ls)) (StoreHash key)) = Some addr" and "dials addr"
  obtains ls' where "getStorageServer dials key ls = Inr (addr, ls')" and "lib_down ls ls'"
    and "lib_conns_wf ls'" and "ls_records ls' = ls_records ls"
proof -
  let ?o = "ring_owner (set (ls_ring ls)) (StoreHash key)"
  have o: "ls_searchHashRing (ls_ring ls) key = Inr ?o"
    using SearchHashRing_owner [OF assms(3,4)] by (simp add: ls_searchHashRing_eq)
  show thesis
  proof (cases "ls_conns ls ?o")
    case None
    then have "getStorageServer dials key ls = Inr (addr, ls\<lparr>ls_conns := (ls_conns ls)(?o \<mapsto> addr)\<rparr>)"
      using o assms(5,6) by (simp add: getStorageServer_def)
    then show thesis
      by (rule that) (use assms in \<open>auto simp: lib_conns_wf_def intro: lib_down_conns\<close>)
  next
    case (Some c)
    then have "c = addr" using assms(2,5) by (auto simp: lib_conns_wf_def)
    with Some o have "getStorageServer dials key ls = Inr (addr, ls)" by (simp add: getStorageServer_def)
    then show thesis by (rule that) (use assms in \<open>auto intro: lib_down_refl\<close>)
  qed
qed

subsection \<open>Storing a reply\<close>

text \<open>With the record that the lookup found, or a fresh one, the reply enters the history; with a
  lease the values enter the cache.  Leases of other keys are as before.\<close>

definition stored ::
  "string \<Rightarrow> bool \<Rightarrow> bool \<Rightarrow> string list \<Rightarrow> libstore \<Rightarrow> libstore \<Rightarrow> bool" where
  "stored key want g values ls ls' \<longleftrightarrow>
     lib_frame ls ls' \<and> lib_inv ls' \<and> ls_conns ls' = ls_conns ls \<and>
     ls_cache ls' = (if want then (ls_cache ls)(key \<mapsto> values) else ls_cache ls) \<and>
     (\<forall>k. granted ls' k \<longleftrightarrow> (if k = key \<and> want then g else granted ls k))"

lemma lib_inv_cache:
  assumes "lib_inv ls" and "ls_records ls key \<noteq> None"
  shows "lib_inv (ls\<lparr>ls_cache := (ls_cache ls)(key \<mapsto> vs)\<rparr>)"
  using assms unfolding lib_inv_def granted_frame by auto

lemma stored_assign:
  assumes "lib_inv ls" and "ls_records ls key = Some p" and "ls_heap ls p = Some r"
    and "want \<longrightarrow> ls_mode ls \<noteq> Never"
    and "\<not> want \<longrightarrow> Granted r' = Granted r" and "want \<longrightarrow> Granted r' = g"
    and "history r' \<noteq> []" and "length (history r') \<le> 3"
  shows "stored key want g values ls
    ((assign p r' ls)\<lparr>ls_cache := (if want then (ls_cache ls)(key \<mapsto> values) else ls_cache ls)\<rparr>)"
    (is "stored _ _ _ _ _ ?ls'")
proof -
  have gr: "granted ?ls' k \<longleftrightarrow> (if k = key \<and> want then g else granted ls k)" for k
    using assms(5,6) granted_record(1) [OF assms(2,3)] by (auto simp: granted_assign [OF assms(1,2)])
  have "lib_inv ?ls'"
    unfolding lib_inv_def
  proof (intro conjI allI impI)
    fix k q assume "ls_records ?ls' k = Some q"
    then have q: "ls_records ls k = Some q" by simp
    obtain r0 where "ls_heap ls q = Some r0" "history r0 \<noteq> []" "length (history r0) \<le> QueryCacheThresh"
      "q < ls_next ls"
      using lib_inv_record [OF assms(1) q] by blast
    then show "q < ls_next ?ls'"
      "\<exists>r'. ls_heap ?ls' q = Some r' \<and> history r' \<noteq> [] \<and> length (history r') \<le> QueryCacheThresh"
      using assms(7,8) by auto
  next
    fix k assume "granted ?ls' k"
    then have "k = key \<and> want \<or> granted ls k" unfolding gr by (auto split: if_splits)
    then show "ls_cache ?ls' k \<noteq> None" "ls_mode ?ls' \<noteq> Never"
      using assms(1,4) unfolding lib_inv_def by auto
  qed (use assms(1,2) in \<open>auto simp: lib_inv_def split: if_splits\<close>)
  with gr show ?thesis by (simp add: stored_def lib_frame_def)
qed

text \<open>A record made for a key that has none.\<close>

definition fresh_record :: "string \<Rightarrow> int \<Rightarrow> libstore \<Rightarrow> libstore" where
  "fresh_record key now ls =
     assign (ls_next ls) \<lparr>Granted = False, ValidSeconds = LeaseSeconds, history = [now]\<rparr>
       (ls\<lparr>ls_next := Suc (ls_next ls), ls_records := (ls_records ls)(key \<mapsto> ls_next ls)\<rparr>)"

lemma lrec_fresh:
  assumes "lib_inv ls"
  shows "lrec (fresh_record key now ls) k =
    (if k = key then Some \<lparr>Granted = False, ValidSeconds = LeaseSeconds, history = [now]\<rparr> else lrec ls k)"
proof -
  have "ls_records ls k \<noteq> Some (ls_next ls)" using lib_inv_record [OF assms, of k "ls_next ls"] by blast
  then show ?thesis by (auto simp: lrec_def fresh_record_def split: option.splits)
qed

lemma fresh_record_inv:
  assumes "lib_inv ls" and "ls_records ls key = None"
  shows "lib_inv (fresh_record key now ls)" and "granted (fresh_record key now ls) k = granted ls k"
proof -
  show gr: "granted (fresh_record key now ls) k = granted ls k" for k
    using granted_record(2) [OF assms(2)] by (cases "k = key") (auto simp: granted_def lrec_fresh [OF assms(1)])
  have new: "ls_records ls k \<noteq> Some (ls_next ls)" for k
    using lib_inv_record [OF assms(1), of k "ls_next ls"] by blast
  show "lib_inv (fresh_record key now ls)"
    unfolding lib_inv_def gr
  proof (intro conjI allI impI)
    fix k p assume "ls_records (fresh_record key now ls) k = Some p"
    then have "p = ls_next ls \<or> ls_records ls k = Some p"
      by (auto simp: fresh_record_def split: if_splits)
    then have "p = ls_next ls \<or> (\<exists>r. p < ls_next ls \<and> ls_heap ls p = Some r \<and> history r \<noteq> [] \<and>
        length (history r) \<le> QueryCacheThresh)"
      using lib_inv_record [OF assms(1), of k p] by metis
    then show "p < ls_next (fresh_record key now ls)"
      "\<exists>r. ls_heap (fresh_record key now ls) p = Some r \<and> history r \<noteq> [] \<and>
         length (history r) \<le> QueryCacheThresh"
      by (auto simp: fresh_record_def)
  qed (use assms new in \<open>auto simp: lib_inv_def fresh_record_def split: if_splits\<close>)
qed

lemma assign_cache_same [simp]: "(assign p r ls)\<lparr>ls_cache := ls_cache ls\<rparr> = assign p r ls"
  by (simp add: assign_def)

lemma ls_store_result:
  assumes "lib_inv ls" and "want \<longrightarrow> ls_mode ls \<noteq> Never"
  obtains ls' where "ls_store now key want (ls_records ls key) lease values ls = Inr ls'"
    and "stored key want (Granted lease) values ls ls'"
proof (cases "ls_records ls key")
  case (Some p)
  obtain r where r: "ls_heap ls p = Some r" using lib_inv_record [OF assms(1) Some] by blast
  let ?r = "if want then (push_history now r)\<lparr>Granted := Granted lease, ValidSeconds := ValidSeconds lease\<rparr>
            else push_history now r"
  let ?ls = "(assign p ?r ls)\<lparr>ls_cache := (if want then (ls_cache ls)(key \<mapsto> values) else ls_cache ls)\<rparr>"
  have "ls_store now key want (ls_records ls key) lease values ls = Inr ?ls"
    using Some r by (simp add: ls_store_def deref_def Let_def)
  moreover have "stored key want (Granted lease) values ls ?ls"
    by (rule stored_assign [OF assms(1) Some r assms(2)]) auto
  ultimately show thesis by (rule that)
next
  case None
  let ?f = "fresh_record key now ls" and ?p = "ls_next ls"
  let ?init = "\<lparr>Granted = False, ValidSeconds = LeaseSeconds, history = [now]\<rparr>"
  let ?r = "if want then ?init\<lparr>Granted := Granted lease, ValidSeconds := ValidSeconds lease\<rparr> else ?init"
  let ?ls = "(assign ?p ?r ?f)\<lparr>ls_cache := (if want then (ls_cache ?f)(key \<mapsto> values) else ls_cache ?f)\<rparr>"
  have push: "push_history now \<lparr>Granted = False, ValidSeconds = LeaseSeconds, history = []\<rparr> = ?init"
    by (simp add: push_history_def)
  have frame: "lib_frame ls ?f" "ls_conns ?f = ls_conns ls" "ls_cache ?f = ls_cache ls"
    "ls_records ?f key = Some ?p" "ls_heap ?f ?p = Some ?init"
    by (simp_all add: fresh_record_def lib_frame_def)
  note inv = fresh_record_inv [OF assms(1) None]
  have "ls_store now key want (ls_records ls key) lease values ls = Inr ?ls"
    using None push by (cases want) (simp_all add: ls_store_def Let_def fresh_record_def assign_def deref_def)
  moreover have "want \<longrightarrow> ls_mode ?f \<noteq> Never" using assms(2) frame(1) by (simp add: lib_frame_def)
  then have "stored key want (Granted lease) values ?f ?ls"
    by (rule stored_assign [OF inv(1) frame(4,5)]) auto
  then have "stored key want (Granted lease) values ls ?ls"
    using frame(1-3) inv(2) unfolding stored_def lib_frame_def by simp
  ultimately show thesis by (rule that)
qed

subsection \<open>Callbacks and the recycler\<close>

lemma lib_inv_uncache:
  assumes "lib_inv ls" and "\<not> granted ls key"
  shows "lib_inv (ls\<lparr>ls_cache := (ls_cache ls)(key := None)\<rparr>)"
  using assms unfolding lib_inv_def granted_frame by auto

lemma ls_RevokeLease_result:
  assumes "lib_inv ls"
  obtains st ls' where "ls_RevokeLease \<lparr>ra_Key = key\<rparr> ls = Inr (\<lparr>rr_Status = st\<rparr>, ls')"
    and "lib_down ls ls'" and "\<not> granted ls' key" and "ls_conns ls' = ls_conns ls"
    and "ls_records ls' = ls_records ls" and "ls_cache ls' = (ls_cache ls)(key := None)"
    and "st = (if ls_cache ls key = None then KeyNotFound else OK)"
proof (cases "ls_cache ls key")
  case None
  then have "\<not> granted ls key" using lib_inv_granted [OF assms] by force
  with None show thesis
    by (intro that [of KeyNotFound ls]) (auto simp: ls_RevokeLease_def lib_down_refl assms)
next
  case (Some vs)
  then obtain p where p: "ls_records ls key = Some p" using lib_inv_cached [OF assms] by blast
  obtain r where r: "ls_heap ls p = Some r" "history r \<noteq> []" "length (history r) \<le> QueryCacheThresh"
    using lib_inv_record [OF assms p] by blast
  let ?a = "assign p (r\<lparr>Granted := False\<rparr>) ls"
  let ?ls = "?a\<lparr>ls_cache := (ls_cache ls)(key := None)\<rparr>"
  have eq: "ls_RevokeLease \<lparr>ra_Key = key\<rparr> ls = Inr (\<lparr>rr_Status = OK\<rparr>, ?ls)"
    using Some p r(1) by (simp add: ls_RevokeLease_def deref_def assign_def Let_def)
  have down: "lib_down ls ?a" by (rule lib_down_assign [OF assms p]) (use r in auto)
  have ng: "\<not> granted ?a key" by (simp add: granted_assign [OF assms p])
  have "lib_down ls ?ls"
    using lib_inv_uncache [OF lib_downD(1) [OF down] ng] lib_downD(2,3) [OF down] ng
    by (auto simp: lib_down_def lib_frame_def)
  then show thesis using ng Some by (intro that [OF eq]) auto
qed

lemma recycle_key_result:
  assumes "lib_inv ls"
  obtains ls' where "recycle_key now key ls = Inr ls'" and "lib_down ls ls'" and "ls_conns ls' = ls_conns ls"
proof (cases "ls_records ls key")
  case None
  then show thesis by (intro that [of ls]) (auto simp: recycle_key_def lib_down_refl assms)
next
  case (Some p)
  obtain r where r: "ls_heap ls p = Some r" "history r \<noteq> []" using lib_inv_record [OF assms Some] by blast
  let ?ls = "ls\<lparr>ls_cache := (ls_cache ls)(key := None), ls_records := (ls_records ls)(key := None)\<rparr>"
  have gr: "granted ?ls k \<longleftrightarrow> k \<noteq> key \<and> granted ls k" for k
    by (cases "ls_records ls k") (simp_all add: granted_def lrec_def)
  have "lib_inv ?ls"
    using assms unfolding lib_inv_def gr by auto
  then have "lib_down ls ?ls" unfolding lib_down_def gr by (auto simp: lib_frame_def)
  moreover have "recycle_key now key ls = Inr ?ls \<or> recycle_key now key ls = Inr ls"
    using Some r by (simp add: recycle_key_def deref_def last_history)
  ultimately show thesis using that [of ?ls] that [of ls] lib_down_refl [OF assms] by fastforce
qed

lemma recycle_round_result:
  assumes "lib_inv ls"
  shows "\<exists>ls'. recycle_round now n keys ls = Inr ls' \<and> lib_down ls ls' \<and> ls_conns ls' = ls_conns ls"
  using assms
proof (induction keys arbitrary: n ls)
  case Nil
  then show ?case by (simp add: lib_down_refl)
next
  case (Cons key keys)
  obtain ls1 where 1: "recycle_key (now n) key ls = Inr ls1" "lib_down ls ls1" "ls_conns ls1 = ls_conns ls"
    by (rule recycle_key_result [OF Cons.prems])
  with Cons.IH [OF lib_downD(1) [OF 1(2)], of "Suc n"] show ?case
    by (auto intro: lib_down_trans [OF 1(2)])
qed

end
