(* ===== verification/Libstore_Props.thy ===== *)
theory Libstore_Props
  imports Libstore_Correct Storage_Correct
begin

text \<open>
  The properties of the libstore by itself: the decisions of its lookup, its invariant, its start,
  and what can happen between the two critical sections of a read.
\<close>

section \<open>An example\<close>

text \<open>A libstore that holds the lease of a key since time 100.\<close>

definition leased_lib :: libstore where
  "leased_lib = (new_libstore ''a:1'' Normal)
     \<lparr>ls_cache := [''k'' \<mapsto> [''v'']], ls_records := [''k'' \<mapsto> 0], ls_next := 1,
      ls_heap := [0 \<mapsto> \<lparr>Granted = True, ValidSeconds = 10, history = [98, 99, 100]\<rparr>]\<rparr>"

lemma leased_lib_sel [simp]:
  "ls_mode leased_lib = Normal" "ls_cache leased_lib = [''k'' \<mapsto> [''v'']]"
  "ls_records leased_lib = [''k'' \<mapsto> 0]" "ls_next leased_lib = 1"
  "ls_heap leased_lib = [0 \<mapsto> \<lparr>Granted = True, ValidSeconds = 10, history = [98, 99, 100]\<rparr>]"
  by (simp_all add: leased_lib_def new_libstore_def)

lemma leased_lib_granted [simp]: "granted leased_lib k \<longleftrightarrow> k = ''k''"
  by (simp add: granted_def lrec_def)

lemma leased_lib_inv [simp]: "lib_inv leased_lib"
  by (simp add: lib_inv_def)

lemma leased_lib_lrec [simp]:
  "lrec leased_lib ''k'' = Some \<lparr>Granted = True, ValidSeconds = 10, history = [98, 99, 100]\<rparr>"
  by (simp add: lrec_def)

section \<open>Lookups\<close>

text \<open>The decision of \<open>Get\<close> and \<open>GetList\<close> in mode \<open>Normal\<close>, from the record of the key.\<close>

definition decide :: "(nat \<Rightarrow> int) \<Rightarrow> string \<Rightarrow> libstore \<Rightarrow> lookup" where
  "decide now key ls =
     (case lrec ls key of
        None \<Rightarrow> Miss False (ls_records ls key)
      | Some r \<Rightarrow>
          if Granted r \<and> now 0 - ValidSeconds r \<le> last (history r)
          then Hit (case ls_cache ls key of None \<Rightarrow> [] | Some vs \<Rightarrow> vs)
          else Miss (length (history r) = QueryCacheThresh \<and> now 1 - QueryCacheSeconds < hd (history r))
                 (ls_records ls key))"

text \<open>C16: in mode \<open>Normal\<close>, under the invariant, a lookup never crashes; it is a hit exactly when the lease
  of the key is granted and the last query is no older than the lease, and asks for a lease exactly
  when the last three queries fall into ten seconds.  It keeps the invariant, and changes at most the
  record of the key.\<close>

theorem lookup_decides:
  assumes "lib_inv ls" and "ls_mode ls = Normal"
  shows "\<exists>ls'. ls_lookup now key ls = Inr (decide now key ls, ls') \<and> lib_inv ls' \<and>
    ls_cache ls' = ls_cache ls \<and> ls_records ls' = ls_records ls \<and> (\<forall>k. k \<noteq> key \<longrightarrow> lrec ls' k = lrec ls k)"
proof (cases "ls_records ls key")
  case None
  then show ?thesis using assms by (simp add: ls_lookup_def decide_def lrec_def)
next
  case (Some p)
  obtain r where r: "ls_heap ls p = Some r" "history r \<noteq> []" "length (history r) \<le> QueryCacheThresh"
    using lib_inv_record [OF assms(1) Some] by blast
  have lr: "lrec ls key = Some r" using Some r by (simp add: lrec_def)
  have inv: "lib_inv ls'" if "ls_lookup now key ls = Inr (lk, ls')" for lk ls'
    using ls_lookup_result [OF assms(1), of now key] that lib_downD(1) by (metis old.prod.inject sum.inject(2))
  show ?thesis
  proof (cases "Granted r \<and> now 0 - ValidSeconds r \<le> last (history r)")
    case True
    then obtain vs where vs: "ls_cache ls key = Some vs"
      using lib_inv_granted [OF assms(1)] lr by (auto simp: granted_def)
    have eq: "ls_lookup now key ls = Inr (Hit vs, assign p (push_history (now 1) r) ls)"
      using True assms(2) Some r vs by (auto simp: ls_lookup_def deref_def last_history Let_def)
    with True lr vs inv [OF eq] show ?thesis
      by (simp add: decide_def lrec_assign [OF assms(1) Some])
  next
    case False
    let ?r = "if last (history r) < now 0 - ValidSeconds r then r\<lparr>Granted := False\<rparr> else r"
    have nf: "\<not> Granted ?r" "history ?r = history r" using False by auto
    have len: "length (history r) = QueryCacheThresh \<longleftrightarrow> QueryCacheThresh \<le> length (history r)" using r(3) by linarith
    have "ls_lookup now key ls = Inr (Miss (QueryCacheThresh \<le> length (history r) \<and>
        now 1 - QueryCacheSeconds < history r ! 0) (Some p), assign p ?r ls)"
      unfolding ls_lookup_def assms(2) Some LeaseMode.case option.case deref_def r(1) go_bind_simps
        last_history [OF r(2)] Let_def if_not_P [OF nf(1)] nf(2)
      by (simp add: go_index_def)
    then have eq: "ls_lookup now key ls = Inr (decide now key ls, assign p ?r ls)"
      unfolding decide_def lr option.case if_not_P [OF False] len Some using r(2) by (simp add: hd_conv_nth)
    then show ?thesis using inv [OF eq] by (auto simp: lrec_assign [OF assms(1) Some])
  qed
qed

theorem lookup_decides_witness:
  "\<exists>ls'. ls_lookup (\<lambda>_. 105) ''k'' leased_lib = Inr (Hit [''v''], ls') \<and> lib_inv ls'"
  using lookup_decides [of leased_lib "\<lambda>_. 105" "''k''"] by (auto simp: decide_def)

text \<open>The history of a record holds the times of the last three queries, oldest first, whatever
  their number.\<close>

lemma query_history_bounded:
  assumes "length (history r) \<le> QueryCacheThresh"
  shows "history (fold push_history ts r) = drop (length (history r @ ts) - QueryCacheThresh) (history r @ ts) \<and>
    length (history (fold push_history ts r)) \<le> QueryCacheThresh"
proof -
  have *: "length (history r) \<le> 3 \<Longrightarrow>
      history (fold push_history ts r) = drop (length (history r @ ts) - 3) (history r @ ts)" for r
  proof (induction ts arbitrary: r)
    case (Cons t ts)
    have h: "history (push_history t r) = drop (length (history r @ [t]) - 3) (history r @ [t])"
      by (auto simp: push_history_def Let_def)
    from Cons.IH [of "push_history t r"] have
      "history (fold push_history (t # ts) r) =
         drop (length (history (push_history t r) @ ts) - 3) (history (push_history t r) @ ts)" by simp
    also have "\<dots> = drop (length (history r @ t # ts) - 3) (history r @ t # ts)"
      unfolding h using Cons.prems by (cases "length (history r) = 3") (auto simp: drop_Cons' numeral_3_eq_3)
    finally show ?case .
  qed simp
  then show ?thesis using assms by simp
qed

section \<open>The invariant\<close>

text \<open>Each critical section of the libstore runs without a crash and keeps its invariant: the lookup, the
  routing of a call, the storing of a reply with the record that the lookup found, the revocation of
  a lease and a round of the recycler.  A revocation leaves the key neither cached nor granted.\<close>

lemma libstore_keeps_invariant:
  assumes "lib_inv ls" and "ls_mode ls \<noteq> Never"
  shows "(\<exists>lk ls'. ls_lookup now key ls = Inr (lk, ls') \<and> lib_inv ls') \<and>
    (\<exists>ls'. ls_store t key want (ls_records ls key) lease vs ls = Inr ls' \<and> lib_inv ls' \<and>
       (want \<longrightarrow> ls_cache ls' key = Some vs \<and> granted ls' key = Granted lease)) \<and>
    (\<exists>reply ls'. ls_RevokeLease \<lparr>ra_Key = key\<rparr> ls = Inr (reply, ls') \<and> lib_inv ls' \<and>
       ls_cache ls' key = None \<and> \<not> granted ls' key) \<and>
    (\<exists>ls'. recycle_round now n keys ls = Inr ls' \<and> lib_inv ls')"
proof (intro conjI)
  show "\<exists>lk ls'. ls_lookup now key ls = Inr (lk, ls') \<and> lib_inv ls'"
    using ls_lookup_result [OF assms(1), of now key] lib_downD(1) by metis
  obtain ls' where "ls_store t key want (ls_records ls key) lease vs ls = Inr ls'"
    "stored key want (Granted lease) vs ls ls'"
    by (rule ls_store_result [OF assms(1)]) (use assms(2) in simp)
  then show "\<exists>ls'. ls_store t key want (ls_records ls key) lease vs ls = Inr ls' \<and> lib_inv ls' \<and>
       (want \<longrightarrow> ls_cache ls' key = Some vs \<and> granted ls' key = Granted lease)"
    by (auto simp: stored_def)
  obtain st ls1 where "ls_RevokeLease \<lparr>ra_Key = key\<rparr> ls = Inr (\<lparr>rr_Status = st\<rparr>, ls1)"
    "lib_down ls ls1" "\<not> granted ls1 key" "ls_cache ls1 = (ls_cache ls)(key := None)"
    by (rule ls_RevokeLease_result [OF assms(1)])
  then show "\<exists>reply ls'. ls_RevokeLease \<lparr>ra_Key = key\<rparr> ls = Inr (reply, ls') \<and> lib_inv ls' \<and>
       ls_cache ls' key = None \<and> \<not> granted ls' key"
    using lib_downD(1) by (intro exI conjI) auto
  show "\<exists>ls'. recycle_round now n keys ls = Inr ls' \<and> lib_inv ls'"
    using recycle_round_result [OF assms(1), of now n keys] lib_downD(1) by metis
qed

section \<open>Between the critical sections of a read\<close>

text \<open>The lock is free between the reply of the storage server and the second critical section of a
  read.  When the revocation of the lease just granted arrives in between, it comes too early:
  the read then caches the old value as leased, and nothing revokes it.\<close>

lemma early_revocation_is_lost:
  assumes "lib_inv ls" and "ls_mode ls \<noteq> Never"
  shows "\<exists>reply ls1 ls2. ls_RevokeLease \<lparr>ra_Key = key\<rparr> ls = Inr (reply, ls1) \<and>
    ls_Get_reply t key True (ls_records ls key)
      \<lparr>gr_Status = OK, gr_Value = old, gr_Lease = \<lparr>Granted = True, ValidSeconds = LeaseSeconds\<rparr>\<rparr> ls1 =
      Inr (Inr old, ls2) \<and> granted ls2 key \<and> ls_cache ls2 key = Some [old]"
proof -
  obtain st ls1 where 1: "ls_RevokeLease \<lparr>ra_Key = key\<rparr> ls = Inr (\<lparr>rr_Status = st\<rparr>, ls1)"
    "lib_down ls ls1" "ls_records ls1 = ls_records ls"
    by (rule ls_RevokeLease_result [OF assms(1)])
  have inv1: "lib_inv ls1" "ls_mode ls1 \<noteq> Never" using 1(2) assms(2) by (auto simp: lib_down_def lib_frame_def)
  let ?lease = "\<lparr>Granted = True, ValidSeconds = LeaseSeconds\<rparr>"
  obtain ls2 where "ls_store t key True (ls_records ls1 key) ?lease [old] ls1 = Inr ls2"
    "stored key True (Granted ?lease) [old] ls1 ls2"
    by (rule ls_store_result [OF inv1(1), of True]) (use inv1(2) in simp)
  then show ?thesis using 1(1,3) by (simp add: ls_Get_reply_def stored_def)
qed

text \<open>When the recycler drops the record of an expired key between the two critical sections of a read
  of that key, the read writes its lease into the dropped record and caches the value without one;
  the next revocation of the key dereferences a nil pointer and takes the app server down.\<close>

lemma recycled_record_crashes_revocation:
  assumes "lib_inv ls" and "ls_records ls key = Some p" and "\<not> granted ls key"
  shows "\<exists>ls1 ls2. recycle_key now key ls = Inr ls1 \<and>
    ls_store t key True (Some p) \<lparr>Granted = True, ValidSeconds = LeaseSeconds\<rparr> values ls1 = Inr ls2 \<and>
    ls_RevokeLease \<lparr>ra_Key = key\<rparr> ls2 = Inl NilDereference"
proof -
  obtain r where r: "ls_heap ls p = Some r" "history r \<noteq> []" using lib_inv_record [OF assms(1,2)] by blast
  then have "\<not> Granted r" using assms(2,3) granted_record(1) by blast
  with r assms(2) show ?thesis
    by (simp add: recycle_key_def deref_def last_history ls_store_def ls_RevokeLease_def Let_def assign_def)
qed

definition expired_lib :: libstore where
  "expired_lib = leased_lib\<lparr>ls_heap := [0 \<mapsto> \<lparr>Granted = False, ValidSeconds = 10, history = [98, 99, 100]\<rparr>]\<rparr>"

text \<open>C32: two races around the RPC of a read, during which the lock is free.  A revocation of the lease just granted that
  arrives before the reply is taken in comes too early: the read then caches the old value as leased, and
  nothing revokes it.  And when the recycler drops the record of a key in between, the read caches the value
  without a record; the next revocation of the key dereferences a nil pointer and takes the app server down.\<close>

theorem revocation_races:
  assumes "lib_inv ls"
  shows "(ls_mode ls \<noteq> Never \<longrightarrow>
      (\<exists>reply ls1 ls2. ls_RevokeLease \<lparr>ra_Key = key\<rparr> ls = Inr (reply, ls1) \<and>
        ls_Get_reply t key True (ls_records ls key)
          \<lparr>gr_Status = OK, gr_Value = old, gr_Lease = \<lparr>Granted = True, ValidSeconds = LeaseSeconds\<rparr>\<rparr> ls1 =
          Inr (Inr old, ls2) \<and> granted ls2 key \<and> ls_cache ls2 key = Some [old])) \<and>
    (ls_records ls key = Some p \<and> \<not> granted ls key \<longrightarrow>
      (\<exists>ls1 ls2. recycle_key now key ls = Inr ls1 \<and>
        ls_store t key True (Some p) \<lparr>Granted = True, ValidSeconds = LeaseSeconds\<rparr> vs ls1 = Inr ls2 \<and>
        ls_RevokeLease \<lparr>ra_Key = key\<rparr> ls2 = Inl NilDereference))"
  using early_revocation_is_lost [OF assms] recycled_record_crashes_revocation [OF assms] by blast

theorem revocation_races_witness:
  "(\<exists>reply ls1 ls2. ls_RevokeLease \<lparr>ra_Key = ''q''\<rparr> leased_lib = Inr (reply, ls1) \<and>
     ls_Get_reply 101 ''q'' True None
       \<lparr>gr_Status = OK, gr_Value = ''old'', gr_Lease = \<lparr>Granted = True, ValidSeconds = LeaseSeconds\<rparr>\<rparr> ls1 =
       Inr (Inr ''old'', ls2) \<and> granted ls2 ''q'' \<and> ls_cache ls2 ''q'' = Some [''old'']) \<and>
   (\<exists>ls1 ls2. recycle_key 111 ''k'' expired_lib = Inr ls1 \<and>
     ls_store 111 ''k'' True (Some 0) \<lparr>Granted = True, ValidSeconds = LeaseSeconds\<rparr> [''w''] ls1 = Inr ls2 \<and>
     ls_RevokeLease \<lparr>ra_Key = ''k''\<rparr> ls2 = Inl NilDereference)"
proof
  show "\<exists>reply ls1 ls2. ls_RevokeLease \<lparr>ra_Key = ''q''\<rparr> leased_lib = Inr (reply, ls1) \<and>
     ls_Get_reply 101 ''q'' True None
       \<lparr>gr_Status = OK, gr_Value = ''old'', gr_Lease = \<lparr>Granted = True, ValidSeconds = LeaseSeconds\<rparr>\<rparr> ls1 =
       Inr (Inr ''old'', ls2) \<and> granted ls2 ''q'' \<and> ls_cache ls2 ''q'' = Some [''old'']"
    using revocation_races [of leased_lib "''q''" 101 "''old''"] by simp
  have "lib_inv expired_lib" "ls_records expired_lib ''k'' = Some 0" "\<not> granted expired_lib ''k''"
    by (simp_all add: expired_lib_def lib_inv_def granted_def lrec_def)
  then show "\<exists>ls1 ls2. recycle_key 111 ''k'' expired_lib = Inr ls1 \<and>
     ls_store 111 ''k'' True (Some 0) \<lparr>Granted = True, ValidSeconds = LeaseSeconds\<rparr> [''w''] ls1 = Inr ls2 \<and>
     ls_RevokeLease \<lparr>ra_Key = ''k''\<rparr> ls2 = Inl NilDereference"
    using revocation_races [of expired_lib "''k''"] by blast
qed

section \<open>Starting a libstore\<close>

definition lib_members :: "libstore \<Rightarrow> bool" where
  "lib_members ls \<longleftrightarrow> ssorted (ls_ring ls) \<and> set (ls_ring ls) = dom (ls_nodes ls)"

lemma ls_add_servers_result:
  assumes "lib_members ls" and "distinct (map NodeID servers)" and "set (map NodeID servers) \<inter> dom (ls_nodes ls) = {}"
  shows "\<exists>r n. ls_add_servers servers ls = Inr (ls\<lparr>ls_ring := r, ls_nodes := n\<rparr>) \<and>
     lib_members (ls\<lparr>ls_ring := r, ls_nodes := n\<rparr>) \<and> n = ls_nodes ls ++ map_of (map node_pair servers)"
  using assms
proof (induction servers arbitrary: ls)
  case Nil
  then show ?case by (auto intro!: exI [of _ "ls_ring ls"])
next
  case (Cons node servers)
  let ?id = "NodeID node"
  let ?ls = "ls\<lparr>ls_ring := ins_at_rank (ls_ring ls) ?id, ls_nodes := (ls_nodes ls)(?id \<mapsto> HostPort node)\<rparr>"
  have new: "?id \<notin> set (ls_ring ls)" using Cons.prems by (auto simp: lib_members_def)
  then have step: "ls_add_servers (node # servers) ls = ls_add_servers servers ?ls"
    using Cons.prems(1)
    by (simp add: lib_members_def ls_uint32_search.search_rank go_insert_nat ins_at_rank_def Let_def)
  have wf: "lib_members ?ls" using Cons.prems(1) new by (simp add: lib_members_def ssorted_ins_at_rank)
  have "?id \<notin> dom (map_of (map node_pair servers))"
    using Cons.prems(2) by (auto simp: dom_map_of_conv_image_fst node_pair_def)
  then have n: "ls_nodes ?ls ++ map_of (map node_pair servers) = ls_nodes ls ++ map_of (map node_pair (node # servers))"
    by (simp add: map_add_upd_left node_pair_def [of node])
  have "set (map NodeID servers) \<inter> dom (ls_nodes ?ls) = {}" "distinct (map NodeID servers)"
    using Cons.prems(2,3) by auto
  from Cons.IH [OF wf this(2,1), unfolded n] obtain r n where
    "ls_add_servers servers ?ls = Inr (?ls\<lparr>ls_ring := r, ls_nodes := n\<rparr>)"
    "lib_members (?ls\<lparr>ls_ring := r, ls_nodes := n\<rparr>)"
    "n = ls_nodes ls ++ map_of (map node_pair (node # servers))" by blast
  moreover have "?ls\<lparr>ls_ring := r, ls_nodes := n\<rparr> = ls\<lparr>ls_ring := r, ls_nodes := n\<rparr>" for r n by simp
  ultimately show ?case unfolding step by metis
qed

lemma await_servers_waits:
  assumes "\<forall>i. c \<le> i \<and> i < n \<longrightarrow> (\<exists>r. call i = Inr r \<and> gs_Status r \<noteq> OK)" and "c \<le> n" and "n \<le> 5"
  shows "await_servers call c ls = await_servers call n ls"
  using assms(2,1)
proof (induction c rule: inc_induct)
  case (step c)
  then obtain r where "call c = Inr r" "gs_Status r \<noteq> OK" by blast
  with step assms(3) show ?case by (subst await_servers.simps) auto
qed simp

text \<open>C23: a libstore that reaches the master asks it at most five times.  When the master is not ready at all
  five, \<open>NewLibstore\<close> returns an error.  When one of the five replies is the list of the master's
  members, in any order, the new libstore is empty and has the master's ring and addresses, so that
  it routes every key as the storage servers do.\<close>

theorem new_libstore_learns_ring:
  assumes "members_wf m" and "ss_numNodes m \<le> int (length (ss_ring m))" and "mset (rng (ss_nodes m)) = mset (ss_nodes m)"
    and "\<forall>i<n. \<exists>r. call i = Inr r \<and> gs_Status r \<noteq> OK" and "n < 5 \<longrightarrow> call n = Inr (ss_GetServers rng m)" and "n \<le> 5"
  shows "NewLibstore None call None h mode =
    Inr (if n = 5 then Inl (Err ''Timeout when waiting StorageServer ready.'')
         else Inr ((new_libstore h mode)\<lparr>ls_ring := ss_ring m, ls_nodes := map_of (ss_nodes m)\<rparr>))"
proof -
  have wait: "await_servers call 0 ls = await_servers call n ls" for ls
    by (rule await_servers_waits) (use assms(4,6) in auto)
  show ?thesis
  proof (cases "n = 5")
    case True
    then show ?thesis by (simp add: NewLibstore_def wait) (simp add: await_servers.simps)
  next
    case False
    let ?ls = "new_libstore h mode" and ?nodes = "rng (ss_nodes m)"
    have dist: "distinct (map fst ?nodes)"
      using assms(1,3) by (metis members_wf_def mset_eq_imp_distinct_iff mset_map)
    have empty: "lib_members ?ls" "set (map NodeID (map node_of ?nodes)) \<inter> dom (ls_nodes ?ls) = {}"
      by (simp_all add: lib_members_def new_libstore_def)
    have ids: "map NodeID (map node_of ?nodes) = map fst ?nodes"
      and al: "ls_nodes ?ls ++ map_of (map node_pair (map node_of ?nodes)) = map_of ?nodes"
      by (simp_all add: comp_def new_libstore_def)
    from ls_add_servers_result [OF empty(1) dist [folded ids] empty(2), unfolded al] obtain r where
      r: "ls_add_servers (map node_of ?nodes) ?ls = Inr (?ls\<lparr>ls_ring := r, ls_nodes := map_of ?nodes\<rparr>)"
      "lib_members (?ls\<lparr>ls_ring := r, ls_nodes := map_of ?nodes\<rparr>)" by blast
    have "set ?nodes = set (ss_nodes m)" using assms(3) by (rule mset_eq_setD)
    then have nodes: "map_of ?nodes = map_of (ss_nodes m)"
      using assms(1) dist by (simp add: members_wf_def map_of_inject_set)
    have "r = ss_ring m"
    proof (rule ssorted_unique)
      show "ssorted r" "set r = set (ss_ring m)"
        using r(2) assms(1) unfolding nodes
        by (simp_all add: lib_members_def members_wf_def dom_map_of_conv_image_fst)
    qed (use assms(1) in \<open>simp add: members_wf_def\<close>)
    with r(1) nodes False assms(2,5,6) have "await_servers call n ?ls =
        Inr (Inr (?ls\<lparr>ls_ring := ss_ring m, ls_nodes := map_of (ss_nodes m)\<rparr>))"
      by (subst await_servers.simps) (simp add: ss_GetServers_def)
    with False show ?thesis by (simp add: NewLibstore_def wait)
  qed
qed

definition two_nodes :: storageServer where
  "two_nodes = \<lparr>ss_nodeID = 5, ss_ring = [5, 9], ss_nodes = [(9, ''s:2''), (5, ''s:1'')], ss_conns = Map.empty,
     ss_numNodes = 2, ss_storage = Map.empty, ss_tenants = Map.empty\<rparr>"

theorem new_libstore_learns_ring_witness:
  "\<exists>ls. NewLibstore None
      (\<lambda>i. Inr (if i < 2 then \<lparr>gs_Status = NotReady, gs_Servers = []\<rparr> else ss_GetServers rev two_nodes)) None ''a:1'' Normal
    = Inr (Inr ls) \<and> ls_ring ls = [5, 9]"
  using new_libstore_learns_ring [of two_nodes rev 2
      "\<lambda>i. Inr (if i < 2 then \<lparr>gs_Status = NotReady, gs_Servers = []\<rparr> else ss_GetServers rev two_nodes)" "''a:1''" Normal]
  by (simp add: two_nodes_def members_wf_def insert_commute)

end
