(* ===== verification/Libstore_Threads.thy ===== *)
theory Libstore_Threads
  imports Libstore_Correct
begin

text \<open>
  One libstore under concurrent use.  \<open>Get\<close> and \<open>GetList\<close> hold the lock twice, with the RPC in between; any number
  of goroutines may be inside such a call while others read, callbacks revoke leases and the recycler drops
  keys.  The step relation has one rule per critical section, so that its runs are the interleavings of the code.
\<close>

section \<open>Configurations and steps\<close>

text \<open>A goroutine between its two critical sections: the key, whether it asked for a lease, and the
  pointer to the record that it found.\<close>

type_synonym pending = "string \<times> bool \<times> nat option"

type_synonym ls_conf = "libstore \<times> (nat \<rightharpoonup> pending)"

text \<open>The flag says whether the recycler runs.\<close>

inductive ls_step :: "bool \<Rightarrow> ls_conf \<Rightarrow> ls_conf \<Rightarrow> bool" for recycler where
  hit: "ls_lookup now key ls = Inr (Hit values, ls') \<Longrightarrow> ls_step recycler (ls, th) (ls', th)"
| miss: "ls_lookup now key ls = Inr (Miss wantLease rec, ls') \<Longrightarrow> th i = None \<Longrightarrow>
    ls_step recycler (ls, th) (ls', th(i \<mapsto> (key, wantLease, rec)))"
| route: "getStorageServer dials key ls = Inr (addr, ls') \<Longrightarrow> ls_step recycler (ls, th) (ls', th)"
| get_reply: "th i = Some (key, wantLease, rec) \<Longrightarrow> ls_Get_reply t key wantLease rec reply ls = Inr (r, ls') \<Longrightarrow>
    ls_step recycler (ls, th) (ls', th(i := None))"
| get_list_reply: "th i = Some (key, wantLease, rec) \<Longrightarrow> ls_GetList_reply t key wantLease rec reply' ls = Inr (r', ls') \<Longrightarrow>
    ls_step recycler (ls, th) (ls', th(i := None))"
| call_failed: "ls_step recycler (ls, th) (ls, th(i := None))"
| revoke: "ls_RevokeLease args ls = Inr (status, ls') \<Longrightarrow> ls_step recycler (ls, th) (ls', th)"
| recycle: "recycler \<Longrightarrow> recycle_key now key ls = Inr ls' \<Longrightarrow> ls_step recycler (ls, th) (ls', th)" for now :: int

inductive ls_reachable :: "bool \<Rightarrow> ls_conf \<Rightarrow> ls_conf \<Rightarrow> bool" for recycler c where
  start: "ls_reachable recycler c c"
| step: "ls_reachable recycler c c' \<Longrightarrow> ls_step recycler c' c'' \<Longrightarrow> ls_reachable recycler c c''"

section \<open>The invariant that survives every interleaving\<close>

text \<open>A record is well formed when it is allocated and its history is not empty.\<close>

definition rec_ok :: "libstore \<Rightarrow> nat \<Rightarrow> bool" where
  "rec_ok ls p \<longleftrightarrow> p < ls_next ls \<and> (\<exists>r. ls_heap ls p = Some r \<and> history r \<noteq> [])"

text \<open>In contrast to \<open>lib_inv\<close>, a cached key need not have a record.\<close>

definition shared_inv :: "libstore \<Rightarrow> bool" where
  "shared_inv ls \<longleftrightarrow> (\<forall>k p. ls_records ls k = Some p \<longrightarrow> rec_ok ls p) \<and>
     (\<forall>k k' p. ls_records ls k = Some p \<and> ls_records ls k' = Some p \<longrightarrow> k = k') \<and>
     (\<forall>k. granted ls k \<longrightarrow> ls_cache ls k \<noteq> None)"

text \<open>The record a goroutine holds on to is still allocated, and is the record of no other key.\<close>

definition pending_ok :: "libstore \<Rightarrow> pending \<Rightarrow> bool" where
  "pending_ok ls t = (case t of (key, wantLease, rec) \<Rightarrow>
     \<forall>p. rec = Some p \<longrightarrow> rec_ok ls p \<and> (\<forall>k. ls_records ls k = Some p \<longrightarrow> k = key))"

definition conf_inv :: "ls_conf \<Rightarrow> bool" where
  "conf_inv c \<longleftrightarrow> shared_inv (fst c) \<and> (\<forall>i t. snd c i = Some t \<longrightarrow> pending_ok (fst c) t)"

text \<open>Steps neither free records nor give a record to another key: what a goroutine relies on while the
  lock is free.\<close>

definition records_kept :: "libstore \<Rightarrow> libstore \<Rightarrow> bool" where
  "records_kept ls ls' \<longleftrightarrow> ls_next ls \<le> ls_next ls' \<and> (\<forall>p. rec_ok ls p \<longrightarrow> rec_ok ls' p) \<and>
     (\<forall>k p. ls_records ls' k = Some p \<longrightarrow> ls_records ls k = Some p \<or> ls_next ls \<le> p)"

lemma pending_kept: "pending_ok ls t \<Longrightarrow> records_kept ls ls' \<Longrightarrow> pending_ok ls' t"
  unfolding pending_ok_def records_kept_def rec_ok_def by (fastforce split: prod.splits)

lemma shared_record:
  assumes "shared_inv ls" and "ls_records ls k = Some p"
  obtains r where "ls_heap ls p = Some r" and "history r \<noteq> []" and "p < ls_next ls"
  using assms unfolding shared_inv_def rec_ok_def by blast

lemma shared_granted: "shared_inv ls \<Longrightarrow> granted ls k \<Longrightarrow> ls_cache ls k \<noteq> None"
  unfolding shared_inv_def by blast

lemma shared_own:
  "shared_inv ls \<Longrightarrow> ls_records ls k = Some p \<Longrightarrow> ls_records ls k' = Some p \<Longrightarrow> k = k'"
  unfolding shared_inv_def by blast

lemma shared_invI:
  assumes "\<And>k p. ls_records ls k = Some p \<Longrightarrow> rec_ok ls p"
    and "\<And>k k' p. ls_records ls k = Some p \<Longrightarrow> ls_records ls k' = Some p \<Longrightarrow> k = k'"
    and "\<And>k. granted ls k \<Longrightarrow> ls_cache ls k \<noteq> None"
  shows "shared_inv ls"
  using assms unfolding shared_inv_def by blast

text \<open>A step of the shared state: the invariant is kept and the records of others are.\<close>

definition safe_step :: "libstore \<Rightarrow> libstore \<Rightarrow> bool" where
  "safe_step ls ls' \<longleftrightarrow> shared_inv ls' \<and> records_kept ls ls'"

lemma safe_step_refl: "shared_inv ls \<Longrightarrow> safe_step ls ls"
  by (simp add: safe_step_def records_kept_def)

lemma safe_step_trans: "safe_step a b \<Longrightarrow> safe_step b c \<Longrightarrow> safe_step a c"
  unfolding safe_step_def records_kept_def by (meson order_trans)

lemma safe_step_frame:
  assumes "shared_inv ls" and "ls_heap ls' = ls_heap ls" and "ls_next ls' = ls_next ls"
    and "\<And>k p. ls_records ls' k = Some p \<Longrightarrow> ls_records ls k = Some p"
    and "\<And>k. granted ls' k \<Longrightarrow> ls_cache ls' k \<noteq> None"
  shows "safe_step ls ls'"
proof -
  have ok: "rec_ok ls' p = rec_ok ls p" for p using assms(2,3) by (simp add: rec_ok_def)
  have "shared_inv ls'"
    using assms(1) assms(4,5) ok unfolding shared_inv_def by metis
  then show ?thesis using assms(3,4) by (simp add: safe_step_def records_kept_def ok)
qed

section \<open>The critical sections keep the invariant\<close>

lemma granted_assign_shared:
  assumes "shared_inv ls"
  shows "granted (assign p r ls) k \<longleftrightarrow> (if ls_records ls k = Some p then Granted r else granted ls k)"
  by (auto simp: granted_def lrec_def split: option.splits)

lemma safe_step_assign:
  assumes "shared_inv ls" and "rec_ok ls p" and "history r \<noteq> []"
    and "\<And>k. ls_records ls k = Some p \<Longrightarrow> Granted r \<Longrightarrow> ls_cache ls k \<noteq> None"
  shows "safe_step ls (assign p r ls)"
proof -
  have ok: "rec_ok ls q \<Longrightarrow> rec_ok (assign p r ls) q" for q using assms(3) by (auto simp: rec_ok_def)
  have "shared_inv (assign p r ls)"
  proof (rule shared_invI)
    fix k assume "granted (assign p r ls) k"
    then show "ls_cache (assign p r ls) k \<noteq> None"
      using assms(4) shared_granted [OF assms(1)]
      by (auto simp: granted_assign_shared [OF assms(1)] split: if_splits)
  qed (use assms(1) ok in \<open>auto simp: shared_inv_def\<close>)
  then show ?thesis using ok by (simp add: safe_step_def records_kept_def)
qed

lemma safe_step_cache:
  "shared_inv ls \<Longrightarrow> safe_step ls (ls\<lparr>ls_cache := (ls_cache ls)(k \<mapsto> vs)\<rparr>)"
  by (rule safe_step_frame) (auto dest: shared_granted)

text \<open>The lookup of any key, at any time, returns.  When it misses, it hands on the record of the key.\<close>

lemma lookup_safe:
  assumes "shared_inv ls"
  obtains lk ls' where "ls_lookup now key ls = Inr (lk, ls')" and "safe_step ls ls'"
    and "ls_records ls' = ls_records ls" and "ls_cache ls' = ls_cache ls"
    and "\<And>want rec. lk = Miss want rec \<Longrightarrow> rec = ls_records ls key"
    and "\<And>vs. lk = Hit vs \<Longrightarrow> ls_cache ls key = Some vs"
proof (cases "ls_mode ls = Normal \<and> ls_records ls key \<noteq> None")
  case False
  then have "\<exists>want. ls_lookup now key ls = Inr (Miss want (ls_records ls key), ls)"
    by (cases "ls_mode ls") (auto simp: ls_lookup_def)
  then show thesis using that safe_step_refl [OF assms] by blast
next
  case True
  then obtain p where p: "ls_records ls key = Some p" and normal: "ls_mode ls = Normal" by blast
  obtain r where r: "ls_heap ls p = Some r" "history r \<noteq> []" "p < ls_next ls"
    by (rule shared_record [OF assms p])
  then have ok: "rec_ok ls p" by (simp add: rec_ok_def)
  let ?r = "if last (history r) < now 0 - ValidSeconds r then r\<lparr>Granted := False\<rparr> else r"
  have upd: "safe_step ls (assign p r' ls)" if "Granted r' \<Longrightarrow> Granted r" "history r' \<noteq> []" for r'
  proof (rule safe_step_assign [OF assms ok that(2)])
    fix k assume "ls_records ls k = Some p" "Granted r'"
    then show "ls_cache ls k \<noteq> None"
      using that(1) granted_record(1) [OF _ r(1)] shared_granted [OF assms] by blast
  qed
  have hist: "history ?r = history r" by simp
  note norm = ls_lookup_def [of now key ls, unfolded normal p LeaseMode.case option.case deref_def r(1) go_bind_simps
      last_history [OF r(2)] Let_def hist]
  show thesis
  proof (cases "Granted ?r")
    case True
    then have "Granted r" by (simp split: if_splits)
    then obtain vs where vs: "ls_cache ls key = Some vs"
      using granted_record(1) [OF p r(1)] shared_granted [OF assms] by blast
    have "ls_lookup now key ls = Inr (Hit vs, assign p (push_history (now 1) ?r) ls)"
      unfolding norm if_P [OF True] by (simp add: vs)
    moreover have "safe_step ls (assign p (push_history (now 1) ?r) ls)" by (rule upd) (simp_all add: \<open>Granted r\<close>)
    ultimately show thesis by (rule that) (use vs in simp_all)
  next
    case False
    have "ls_lookup now key ls =
      Inr (Miss (QueryCacheThresh \<le> length (history r) \<and> now 1 - QueryCacheSeconds < history r ! 0) (Some p), assign p ?r ls)"
      unfolding norm if_not_P [OF False] by (simp add: go_index_def)
    moreover have "safe_step ls (assign p ?r ls)" by (rule upd) (use r in \<open>auto split: if_splits\<close>)
    ultimately show thesis by (rule that) (use p in simp_all)
  qed
qed

text \<open>A reply is taken in with the record the goroutine found, even when the recycler has dropped it since,
  or with a new record, even when another goroutine has made one since.\<close>

lemma safe_step_fresh:
  assumes "shared_inv ls"
  shows "safe_step ls (fresh_record key now ls)"
proof -
  let ?f = "fresh_record key now ls"
  have new: "ls_records ls k \<noteq> Some (ls_next ls)" for k using shared_record [OF assms, of k] by blast
  have ok: "rec_ok ls p \<Longrightarrow> rec_ok ?f p" for p by (auto simp: rec_ok_def fresh_record_def)
  have own: "rec_ok ?f (ls_next ls)" by (simp add: rec_ok_def fresh_record_def)
  have recs: "ls_records ?f k = (if k = key then Some (ls_next ls) else ls_records ls k)" for k
    by (simp add: fresh_record_def)
  have "shared_inv ?f"
  proof (rule shared_invI)
    fix k p assume "ls_records ?f k = Some p"
    then show "rec_ok ?f p"
      using own ok assms unfolding recs shared_inv_def by (auto split: if_splits)
  next
    fix k assume "granted ?f k"
    then have "granted ls k"
      by (auto simp: granted_def lrec_def fresh_record_def split: if_splits option.splits)
    then show "ls_cache ?f k \<noteq> None" using shared_granted [OF assms] by (simp add: fresh_record_def)
  qed (use new shared_own [OF assms] in \<open>auto simp: recs split: if_splits\<close>)
  then show ?thesis using ok by (auto simp: safe_step_def records_kept_def recs fresh_record_def)
qed

lemma safe_step_reply:
  assumes "shared_inv ls" and "rec_ok ls p" and "\<And>k. ls_records ls k = Some p \<Longrightarrow> k = key" and "ls_heap ls p = Some r"
    and "history r' \<noteq> []" and "\<not> want \<Longrightarrow> Granted r' = Granted r"
  shows "safe_step ls ((assign p r' ls)\<lparr>ls_cache := (if want then (ls_cache ls)(key \<mapsto> vs) else ls_cache ls)\<rparr>)"
proof (cases want)
  case True
  let ?ls = "ls\<lparr>ls_cache := (ls_cache ls)(key \<mapsto> vs)\<rparr>"
  note cached = safe_step_cache [OF assms(1), of key vs]
  have "safe_step ?ls (assign p r' ?ls)"
    by (rule safe_step_assign) (use cached assms in \<open>auto simp: safe_step_def rec_ok_def\<close>)
  with cached have "safe_step ls (assign p r' ?ls)" by (rule safe_step_trans)
  moreover have "assign p r' ?ls = (assign p r' ls)\<lparr>ls_cache := (ls_cache ls)(key \<mapsto> vs)\<rparr>" by (simp add: assign_def)
  ultimately show ?thesis using True by simp
next
  case False
  have "safe_step ls (assign p r' ls)"
  proof (rule safe_step_assign [OF assms(1,2,5)])
    fix k assume "ls_records ls k = Some p" "Granted r'"
    then have "granted ls k" using assms(4,6) False by (simp add: granted_record(1))
    then show "ls_cache ls k \<noteq> None" by (rule shared_granted [OF assms(1)])
  qed
  with False show ?thesis by simp
qed

lemma store_safe:
  assumes "shared_inv ls" and "pending_ok ls (key, want, rec)"
  obtains ls' where "ls_store now key want rec lease vs ls = Inr ls'" and "safe_step ls ls'"
    and "dom (ls_records ls') = dom (ls_records ls) \<union> (if rec = None then {key} else {})"
    and "dom (ls_cache ls') \<subseteq> insert key (dom (ls_cache ls))"
proof (cases rec)
  case (Some p)
  then obtain r where r: "rec_ok ls p" "\<And>k. ls_records ls k = Some p \<Longrightarrow> k = key" "ls_heap ls p = Some r"
    using assms(2) by (auto simp: pending_ok_def rec_ok_def)
  let ?r = "if want then (push_history now r)\<lparr>Granted := Granted lease, ValidSeconds := ValidSeconds lease\<rparr>
            else push_history now r"
  let ?ls = "(assign p ?r ls)\<lparr>ls_cache := (if want then (ls_cache ls)(key \<mapsto> vs) else ls_cache ls)\<rparr>"
  have "ls_store now key want rec lease vs ls = Inr ?ls"
    using Some r by (simp add: ls_store_def deref_def Let_def)
  moreover have "safe_step ls ?ls" by (rule safe_step_reply [OF assms(1) r]) auto
  ultimately show thesis by (rule that) (use Some in auto)
next
  case None
  let ?f = "fresh_record key now ls" and ?p = "ls_next ls"
  let ?init = "\<lparr>Granted = False, ValidSeconds = LeaseSeconds, history = [now]\<rparr>"
  let ?r = "if want then ?init\<lparr>Granted := Granted lease, ValidSeconds := ValidSeconds lease\<rparr> else ?init"
  let ?ls = "(assign ?p ?r ?f)\<lparr>ls_cache := (if want then (ls_cache ?f)(key \<mapsto> vs) else ls_cache ?f)\<rparr>"
  note fresh = safe_step_fresh [OF assms(1), of key now]
  have push: "push_history now \<lparr>Granted = False, ValidSeconds = LeaseSeconds, history = []\<rparr> = ?init"
    by (simp add: push_history_def)
  have "ls_store now key want rec lease vs ls = Inr ?ls"
    using None push by (cases want) (simp_all add: ls_store_def Let_def fresh_record_def assign_def deref_def)
  moreover have "safe_step ?f ?ls"
  proof (rule safe_step_reply)
    show "shared_inv ?f" using fresh by (simp add: safe_step_def)
    show "rec_ok ?f ?p" "ls_heap ?f ?p = Some ?init" by (simp_all add: rec_ok_def fresh_record_def)
    show "k = key" if "ls_records ?f k = Some ?p" for k
      using that shared_record [OF assms(1), of k ?p] by (auto simp: fresh_record_def split: if_splits)
  qed auto
  then have "safe_step ls ?ls" using fresh safe_step_trans by blast
  ultimately show thesis by (rule that) (use None in \<open>auto simp: fresh_record_def split: if_splits\<close>)
qed

lemma replies_safe:
  assumes "shared_inv ls" and "pending_ok ls (key, want, rec)"
  shows "\<exists>r ls'. ls_Get_reply now key want rec reply ls = Inr (r, ls')"
    and "\<exists>r ls'. ls_GetList_reply now key want rec reply' ls = Inr (r, ls')"
    and "ls_Get_reply now key want rec reply ls = Inr (r, ls') \<Longrightarrow> ls' = ls \<or>
      (\<exists>lease vs. ls_store now key want rec lease vs ls = Inr ls')"
    and "ls_GetList_reply now key want rec reply' ls = Inr (rl, ls') \<Longrightarrow> ls' = ls \<or>
      (\<exists>lease vs. ls_store now key want rec lease vs ls = Inr ls')"
proof -
  have st: "\<exists>ls'. ls_store now key want rec lease vs ls = Inr ls'" for lease vs
    by (rule store_safe [OF assms]) blast
  show "\<exists>r ls'. ls_Get_reply now key want rec reply ls = Inr (r, ls')"
    "\<exists>r ls'. ls_GetList_reply now key want rec reply' ls = Inr (r, ls')"
    using st [of "gr_Lease reply" "[gr_Value reply]"] st [of "glr_Lease reply'" "glr_Value reply'"]
    by (auto simp: ls_Get_reply_def ls_GetList_reply_def)
  show "ls' = ls \<or> (\<exists>lease vs. ls_store now key want rec lease vs ls = Inr ls')"
    if "ls_Get_reply now key want rec reply ls = Inr (r, ls')"
    using that st [of "gr_Lease reply" "[gr_Value reply]"] by (auto simp: ls_Get_reply_def split: if_splits)
  show "ls' = ls \<or> (\<exists>lease vs. ls_store now key want rec lease vs ls = Inr ls')"
    if "ls_GetList_reply now key want rec reply' ls = Inr (rl, ls')"
    using that st [of "glr_Lease reply'" "glr_Value reply'"] by (auto simp: ls_GetList_reply_def split: if_splits)
qed

text \<open>Callbacks and the recycler.\<close>

lemma recycle_safe:
  assumes "shared_inv ls"
  obtains ls' where "recycle_key now key ls = Inr ls'" and "safe_step ls ls'"
proof (cases "ls_records ls key")
  case None
  then show thesis by (intro that [of ls]) (simp_all add: recycle_key_def safe_step_refl assms)
next
  case (Some p)
  obtain r where r: "ls_heap ls p = Some r" "history r \<noteq> []" by (rule shared_record [OF assms Some])
  let ?ls = "ls\<lparr>ls_cache := (ls_cache ls)(key := None), ls_records := (ls_records ls)(key := None)\<rparr>"
  have gr: "granted ?ls k \<longleftrightarrow> k \<noteq> key \<and> granted ls k" for k
    by (cases "ls_records ls k") (simp_all add: granted_def lrec_def)
  have "safe_step ls ?ls"
    by (rule safe_step_frame [OF assms]) (use shared_granted [OF assms] in \<open>auto simp only: gr, auto split: if_splits\<close>)
  moreover have "recycle_key now key ls = Inr ?ls \<or> recycle_key now key ls = Inr ls"
    using Some r by (simp add: recycle_key_def deref_def last_history)
  ultimately show thesis using that [of ?ls] that [of ls] safe_step_refl [OF assms] by fastforce
qed

text \<open>A callback fails only for a cached key without a record.\<close>

lemma revoke_safe:
  assumes "shared_inv ls" and "ls_cache ls (ra_Key args) \<noteq> None \<Longrightarrow> ls_records ls (ra_Key args) \<noteq> None"
  obtains st ls' where "ls_RevokeLease args ls = Inr (st, ls')" and "safe_step ls ls'"
    and "ls_records ls' = ls_records ls" and "ls_cache ls' = (ls_cache ls)(ra_Key args := None)"
proof (cases "ls_cache ls (ra_Key args)")
  case None
  then show thesis
    by (intro that [of "\<lparr>rr_Status = KeyNotFound\<rparr>" ls]) (auto simp: ls_RevokeLease_def safe_step_refl assms(1))
next
  case (Some vs)
  let ?k = "ra_Key args"
  obtain p where p: "ls_records ls ?k = Some p" using Some assms(2) by auto
  obtain r where r: "ls_heap ls p = Some r" "history r \<noteq> []" "p < ls_next ls"
    by (rule shared_record [OF assms(1) p])
  let ?a = "assign p (r\<lparr>Granted := False\<rparr>) ls"
  let ?ls = "?a\<lparr>ls_cache := (ls_cache ls)(?k := None)\<rparr>"
  have a: "safe_step ls ?a" by (rule safe_step_assign [OF assms(1)]) (use r in \<open>auto simp: rec_ok_def\<close>)
  then have inv_a: "shared_inv ?a" by (simp add: safe_step_def)
  have ng: "\<not> granted ?a ?k" using p by (simp add: granted_assign_shared [OF assms(1)])
  have "safe_step ?a ?ls"
    by (rule safe_step_frame [OF inv_a]) (use ng shared_granted [OF inv_a] in auto)
  with a have "safe_step ls ?ls" by (rule safe_step_trans)
  moreover have "ls_RevokeLease args ls = Inr (\<lparr>rr_Status = OK\<rparr>, ?ls)"
    using Some p r(1) by (simp add: ls_RevokeLease_def deref_def assign_def Let_def)
  ultimately show thesis by (intro that [of "\<lparr>rr_Status = OK\<rparr>" ?ls]) auto
qed

section \<open>Runs\<close>

lemma conf_inv_keep:
  assumes "conf_inv (ls, th)" and "safe_step ls ls'" and "\<And>i t. th' i = Some t \<Longrightarrow> th i = Some t \<or> pending_ok ls t"
  shows "conf_inv (ls', th')"
  unfolding conf_inv_def fst_conv snd_conv
proof (intro conjI allI impI)
  show "shared_inv ls'" using assms(2) by (simp add: safe_step_def)
  fix i t assume "th' i = Some t"
  from assms(3) [OF this] have "pending_ok ls t" using assms(1) unfolding conf_inv_def fst_conv snd_conv by blast
  then show "pending_ok ls' t" by (rule pending_kept) (use assms(2) in \<open>simp add: safe_step_def\<close>)
qed

lemma found_pending_ok:
  assumes "shared_inv ls"
  shows "pending_ok ls (key, want, ls_records ls key)"
  using assms shared_own [OF assms] unfolding pending_ok_def shared_inv_def by auto

lemma getStorageServer_frame:
  "getStorageServer dials key ls = Inr (addr, ls') \<Longrightarrow> \<exists>c. ls' = ls\<lparr>ls_conns := c\<rparr>"
  unfolding getStorageServer_def Let_def
  by (cases "ls_searchHashRing (ls_ring ls) key") (auto split: option.splits if_splits intro: exI [of _ "ls_conns ls"])

lemma RevokeLease_no_crash:
  "ls_RevokeLease args ls = Inr x \<Longrightarrow> ls_cache ls (ra_Key args) \<noteq> None \<Longrightarrow> ls_records ls (ra_Key args) \<noteq> None"
  by (auto simp: ls_RevokeLease_def Let_def split: option.splits)

lemma ls_step_inv:
  assumes "ls_step recycler c c'" and "conf_inv c"
  shows "conf_inv c'"
  using assms(1)
proof cases
  case (hit now key ls vs ls' th)
  then have inv: "shared_inv ls" using assms(2) by (simp add: conf_inv_def)
  have "safe_step ls ls'" by (rule lookup_safe [OF inv, of now key]) (use hit in auto)
  then show ?thesis unfolding hit(2) by (intro conf_inv_keep [OF assms(2) [unfolded hit(1)]]) auto
next
  case (miss now key ls want rec ls' th i)
  then have inv: "shared_inv ls" using assms(2) by (simp add: conf_inv_def)
  have "safe_step ls ls' \<and> rec = ls_records ls key" by (rule lookup_safe [OF inv, of now key]) (use miss in auto)
  with found_pending_ok [OF inv] show ?thesis unfolding miss(2)
    by (intro conf_inv_keep [OF assms(2) [unfolded miss(1)]]) (auto split: if_splits)
next
  case (route dials key ls addr ls' th)
  then obtain d where d: "ls' = ls\<lparr>ls_conns := d\<rparr>" using getStorageServer_frame by blast
  have "shared_inv ls" using route assms(2) by (simp add: conf_inv_def)
  then have "safe_step ls ls'" by (rule safe_step_frame) (use shared_granted [OF \<open>shared_inv ls\<close>] d in auto)
  then show ?thesis unfolding route(2) by (intro conf_inv_keep [OF assms(2) [unfolded route(1)]]) auto
next
  case (get_reply th i key want rec t reply ls r ls')
  then have inv: "shared_inv ls" "pending_ok ls (key, want, rec)" using assms(2) by (auto simp: conf_inv_def)
  have "safe_step ls ls'" using replies_safe(3) [OF inv get_reply(4)] store_safe [OF inv] safe_step_refl [OF inv(1)]
    by (metis sum.inject(2))
  then show ?thesis unfolding get_reply(2)
    by (intro conf_inv_keep [OF assms(2) [unfolded get_reply(1)]]) (auto split: if_splits)
next
  case (get_list_reply th i key want rec t reply ls r ls')
  then have inv: "shared_inv ls" "pending_ok ls (key, want, rec)" using assms(2) by (auto simp: conf_inv_def)
  have "safe_step ls ls'" using replies_safe(4) [OF inv get_list_reply(4)] store_safe [OF inv] safe_step_refl [OF inv(1)]
    by (metis sum.inject(2))
  then show ?thesis unfolding get_list_reply(2)
    by (intro conf_inv_keep [OF assms(2) [unfolded get_list_reply(1)]]) (auto split: if_splits)
next
  case (call_failed ls th i)
  then have "safe_step ls ls" using assms(2) by (simp add: conf_inv_def safe_step_refl)
  then show ?thesis unfolding call_failed(2)
    by (intro conf_inv_keep [OF assms(2) [unfolded call_failed(1)]]) (auto split: if_splits)
next
  case (revoke args ls st ls' th)
  then have inv: "shared_inv ls" using assms(2) by (simp add: conf_inv_def)
  have "safe_step ls ls'"
    by (rule revoke_safe [OF inv RevokeLease_no_crash [OF revoke(3)]]) (use revoke in auto)
  then show ?thesis unfolding revoke(2) by (intro conf_inv_keep [OF assms(2) [unfolded revoke(1)]]) auto
next
  case (recycle now key ls ls' th)
  then have inv: "shared_inv ls" using assms(2) by (simp add: conf_inv_def)
  have "safe_step ls ls'" by (rule recycle_safe [OF inv, of now key]) (use recycle in auto)
  then show ?thesis unfolding recycle(2) by (intro conf_inv_keep [OF assms(2) [unfolded recycle(1)]]) auto
qed

lemma ls_reachable_inv: "ls_reachable recycler c c' \<Longrightarrow> conf_inv c \<Longrightarrow> conf_inv c'"
  by (induction rule: ls_reachable.induct) (auto intro: ls_step_inv)

text \<open>While the recycler does not run, records are never dropped: every cached key has one.\<close>

definition bound_inv :: "ls_conf \<Rightarrow> bool" where
  "bound_inv c \<longleftrightarrow> dom (ls_cache (fst c)) \<subseteq> dom (ls_records (fst c)) \<and>
     (\<forall>i key want p. snd c i = Some (key, want, Some p) \<longrightarrow> key \<in> dom (ls_records (fst c)))"

lemma bound_inv_keep:
  assumes "bound_inv (ls, th)" and "dom (ls_records ls) \<subseteq> dom (ls_records ls')"
    and "dom (ls_cache ls') \<subseteq> dom (ls_cache ls) \<union> dom (ls_records ls')"
    and "\<And>i key want p. th' i = Some (key, want, Some p) \<Longrightarrow> th i = Some (key, want, Some p) \<or> key \<in> dom (ls_records ls)"
  shows "bound_inv (ls', th')"
  unfolding bound_inv_def fst_conv snd_conv
proof (intro conjI allI impI)
  show "dom (ls_cache ls') \<subseteq> dom (ls_records ls')" using assms(1-3) unfolding bound_inv_def fst_conv by blast
  fix i key want p assume "th' i = Some (key, want, Some p)"
  from assms(4) [OF this] have "key \<in> dom (ls_records ls)"
    using assms(1) unfolding bound_inv_def fst_conv snd_conv by blast
  then show "key \<in> dom (ls_records ls')" using assms(2) by blast
qed

lemma store_bound:
  assumes "bound_inv (ls, th)" and "conf_inv (ls, th)" and "th i = Some (key, want, rec)"
    and "ls' = ls \<or> (\<exists>lease vs. ls_store now key want rec lease vs ls = Inr ls')"
  shows "bound_inv (ls', th(i := None))"
proof -
  have "dom (ls_records ls) \<subseteq> dom (ls_records ls') \<and> dom (ls_cache ls') \<subseteq> dom (ls_cache ls) \<union> dom (ls_records ls')"
    using assms(4)
  proof (elim disjE exE)
    fix lease vs assume st: "ls_store now key want rec lease vs ls = Inr ls'"
    have ok: "shared_inv ls" "pending_ok ls (key, want, rec)" using assms(2,3) by (auto simp: conf_inv_def)
    have key: "rec = None \<or> key \<in> dom (ls_records ls)"
      using assms(1,3) unfolding bound_inv_def fst_conv snd_conv by (metis option.exhaust)
    have "dom (ls_records ls') = dom (ls_records ls) \<union> (if rec = None then {key} else {}) \<and>
        dom (ls_cache ls') \<subseteq> insert key (dom (ls_cache ls))"
      by (rule store_safe [OF ok, of now lease vs]) (use st in auto)
    with key show ?thesis by auto
  qed auto
  then show ?thesis by (intro bound_inv_keep [OF assms(1)]) (auto split: if_splits)
qed

lemma ls_step_bound:
  assumes "ls_step False c c'" and "conf_inv c" and "bound_inv c"
  shows "bound_inv c'"
  using assms(1)
proof cases
  case (hit now key ls vs ls' th)
  then have inv: "shared_inv ls" using assms(2) by (simp add: conf_inv_def)
  have "ls_records ls' = ls_records ls \<and> ls_cache ls' = ls_cache ls"
    by (rule lookup_safe [OF inv, of now key]) (use hit in auto)
  then show ?thesis unfolding hit(2) by (intro bound_inv_keep [OF assms(3) [unfolded hit(1)]]) auto
next
  case (miss now key ls want rec ls' th i)
  then have inv: "shared_inv ls" using assms(2) by (simp add: conf_inv_def)
  have "ls_records ls' = ls_records ls \<and> ls_cache ls' = ls_cache ls \<and> rec = ls_records ls key"
    by (rule lookup_safe [OF inv, of now key]) (use miss in auto)
  then show ?thesis unfolding miss(2)
    by (intro bound_inv_keep [OF assms(3) [unfolded miss(1)]]) (auto split: if_splits)
next
  case (route dials key ls addr ls' th)
  then obtain d where "ls' = ls\<lparr>ls_conns := d\<rparr>" using getStorageServer_frame by blast
  then show ?thesis unfolding route(2) by (intro bound_inv_keep [OF assms(3) [unfolded route(1)]]) auto
next
  case (get_reply th i key want rec t reply ls r ls')
  then have "shared_inv ls" "pending_ok ls (key, want, rec)" using assms(2) by (auto simp: conf_inv_def)
  from replies_safe(3) [OF this get_reply(4)] show ?thesis
    unfolding get_reply(2) by (rule store_bound [OF assms(3,2) [unfolded get_reply(1)] get_reply(3)])
next
  case (get_list_reply th i key want rec t reply ls r ls')
  then have "shared_inv ls" "pending_ok ls (key, want, rec)" using assms(2) by (auto simp: conf_inv_def)
  from replies_safe(4) [OF this get_list_reply(4)] show ?thesis
    unfolding get_list_reply(2) by (rule store_bound [OF assms(3,2) [unfolded get_list_reply(1)] get_list_reply(3)])
next
  case (call_failed ls th i)
  then show ?thesis unfolding call_failed(2)
    by (intro bound_inv_keep [OF assms(3) [unfolded call_failed(1)]]) (auto split: if_splits)
next
  case (revoke args ls st ls' th)
  then have inv: "shared_inv ls" using assms(2) by (simp add: conf_inv_def)
  have "ls_records ls' = ls_records ls \<and> ls_cache ls' = (ls_cache ls)(ra_Key args := None)"
    by (rule revoke_safe [OF inv RevokeLease_no_crash [OF revoke(3)]]) (use revoke in auto)
  then show ?thesis unfolding revoke(2) by (intro bound_inv_keep [OF assms(3) [unfolded revoke(1)]]) auto
qed simp

lemma ls_reachable_bound: "ls_reachable False c c' \<Longrightarrow> conf_inv c \<Longrightarrow> bound_inv c \<Longrightarrow> bound_inv c'"
  by (induction rule: ls_reachable.induct) (auto intro: ls_step_bound ls_reachable_inv)

lemma new_conf_inv:
  assumes "ls_records ls = Map.empty" and "ls_cache ls = Map.empty"
  shows "conf_inv (ls, Map.empty)" and "bound_inv (ls, Map.empty)"
  using assms by (auto simp: conf_inv_def shared_inv_def bound_inv_def granted_def lrec_def)

lemma ls_add_servers_frame:
  "ls_add_servers servers ls = Inr ls' \<Longrightarrow> ls_records ls' = ls_records ls \<and> ls_cache ls' = ls_cache ls"
  by (induction servers arbitrary: ls) (auto simp: Let_def go_bind_eq_Inr)

lemma await_servers_frame:
  "await_servers call re ls = Inr (Inr ls') \<Longrightarrow> ls_records ls' = ls_records ls \<and> ls_cache ls' = ls_cache ls"
proof (induction call re ls rule: await_servers.induct)
  case (1 call re ls)
  from "1.prems" show ?case
    by (subst (asm) await_servers.simps)
      (auto simp: go_bind_eq_Inr split: if_splits sum.splits dest: ls_add_servers_frame "1.IH")
qed

lemma NewLibstore_frame:
  assumes "NewLibstore dialErr call registerErr h mode = Inr (Inr ls)"
  shows "ls_records ls = Map.empty \<and> ls_cache ls = Map.empty"
proof -
  from assms obtain r where r: "await_servers call 0 (new_libstore h mode) = Inr r"
      "(case r of Inl err \<Rightarrow> Inr (Inl err) | Inr ls \<Rightarrow>
         if mode \<noteq> Never \<and> h \<noteq> [] then (case registerErr of Some err \<Rightarrow> Inr (Inl err) | None \<Rightarrow> Inr (Inr ls))
         else Inr (Inr ls)) = (Inr (Inr ls) :: (go_error + libstore) go)"
    unfolding NewLibstore_def Let_def by (cases dialErr) (auto simp: go_bind_eq_Inr)
  then have "r = Inr ls" by (cases r) (auto split: if_split_asm option.split_asm)
  with r(1) show ?thesis by (auto dest!: await_servers_frame simp: new_libstore_def)
qed

text \<open>C7: in every state that a new libstore reaches under any interleaving of lookups, replies, failed calls,
  callbacks and the recycler, the lookup of every key returns, and when it hits, with the cached values: the
  fatal ``Cache inconsistent'' and the read of an empty history cannot happen.  Every goroutine that waits for an
  RPC can take its reply in, whatever became of the record that it found, and the recycler can treat every key.
  As long as the recycler has not run, every callback returns too.\<close>

theorem libstore_interleavings_safe:
  assumes "NewLibstore dialErr call registerErr h mode = Inr (Inr ls)" and "ls_reachable recycler (ls, Map.empty) (ls', th)"
  shows "(\<exists>lk ls''. ls_lookup now key ls' = Inr (lk, ls'') \<and> (\<forall>vs. lk = Hit vs \<longrightarrow> ls_cache ls' key = Some vs)) \<and>
    (th i = Some (key, want, rec) \<longrightarrow>
      (\<exists>r ls''. ls_Get_reply t key want rec reply ls' = Inr (r, ls'')) \<and>
      (\<exists>r ls''. ls_GetList_reply t key want rec reply' ls' = Inr (r, ls''))) \<and>
    (\<exists>ls''. recycle_key t key ls' = Inr ls'') \<and>
    (\<not> recycler \<longrightarrow> (\<exists>st ls''. ls_RevokeLease \<lparr>ra_Key = key\<rparr> ls' = Inr (st, ls'')))"
proof -
  from NewLibstore_frame [OF assms(1)] have start: "conf_inv (ls, Map.empty)" "bound_inv (ls, Map.empty)"
    using new_conf_inv by blast+
  have conf: "conf_inv (ls', th)" by (rule ls_reachable_inv [OF assms(2) start(1)])
  then have inv: "shared_inv ls'" by (simp add: conf_inv_def)
  have pend: "pending_ok ls' (key, want, rec)" if "th i = Some (key, want, rec)"
    using conf that by (auto simp: conf_inv_def)
  have bound: "bound_inv (ls', th)" if "\<not> recycler" using ls_reachable_bound assms(2) start that by auto
  show ?thesis
  proof (intro conjI impI)
    show "\<exists>lk ls''. ls_lookup now key ls' = Inr (lk, ls'') \<and> (\<forall>vs. lk = Hit vs \<longrightarrow> ls_cache ls' key = Some vs)"
      by (rule lookup_safe [OF inv, of now key]) blast
    show "\<exists>ls''. recycle_key t key ls' = Inr ls''" by (rule recycle_safe [OF inv]) blast
    assume "\<not> recycler"
    with bound have "ls_cache ls' key \<noteq> None \<Longrightarrow> ls_records ls' key \<noteq> None" by (auto simp: bound_inv_def)
    then show "\<exists>st ls''. ls_RevokeLease \<lparr>ra_Key = key\<rparr> ls' = Inr (st, ls'')"
      using revoke_safe [OF inv, of "\<lparr>ra_Key = key\<rparr>"] by (metis RevokeLeaseArgs.select_convs(1))
  qed (rule replies_safe(1,2) [OF inv pend], assumption)+
qed

definition one_node_lib :: libstore where
  "one_node_lib = (new_libstore ''a:1'' Normal)\<lparr>ls_ring := [5], ls_nodes := [5 \<mapsto> ''s:1'']\<rparr>"

theorem libstore_interleavings_safe_witness:
  "ls_reachable True (one_node_lib, Map.empty) (one_node_lib, [1 \<mapsto> (''k'', False, None)]) \<and>
   (\<exists>r ls'. ls_Get_reply 7 ''k'' False None \<lparr>gr_Status = OK, gr_Value = ''v'', gr_Lease = \<lparr>Granted = False, ValidSeconds = 0\<rparr>\<rparr>
      one_node_lib = Inr (r, ls'))"
proof -
  let ?call = "\<lambda>_. Inr \<lparr>gs_Status = OK, gs_Servers = [\<lparr>HostPort = ''s:1'', NodeID = 5\<rparr>]\<rparr>"
  have new: "NewLibstore None ?call None ''a:1'' Normal = Inr (Inr one_node_lib)"
    by (simp add: NewLibstore_def await_servers.simps new_libstore_def one_node_lib_def ls_uint32_search.search_rank
        go_insert_def go_copy_def go_store_def)
  have "ls_lookup (\<lambda>_. 7) ''k'' one_node_lib = Inr (Miss False None, one_node_lib)"
    by (simp add: ls_lookup_def one_node_lib_def new_libstore_def)
  then have "ls_step True (one_node_lib, Map.empty) (one_node_lib, [1 \<mapsto> (''k'', False, None)])"
    by (rule ls_step.miss) simp
  then have run: "ls_reachable True (one_node_lib, Map.empty) (one_node_lib, [1 \<mapsto> (''k'', False, None)])"
    by (rule ls_reachable.step [OF ls_reachable.start])
  with libstore_interleavings_safe [OF new run, where i = 1 and key = "''k''" and want = False and rec = None]
  show ?thesis by auto
qed

end
