(* ===== verification/Cluster.thy ===== *)
theory Cluster
  imports Libstore Storage_Server
begin

section \<open>The libstore methods over a cluster of storage servers\<close>

text \<open>
  \<open>libstore/libstore_impl.go\<close>, the exported methods.  A cluster is the storage servers by
  address and the libstores by callback address; one call of a method runs its critical sections,
  the RPC to the storage server that owns the key and the callbacks the storage server makes in
  turn.  A dead process answers no call: the caller gets a transport error.  The environment of a
  call is what the clocks of the two processes read.
\<close>

record cluster =
  cl_servers :: "string \<rightharpoonup> storageServer"
  cl_libs :: "string \<rightharpoonup> libstore"

record cl_env =
  lib_clk :: "nat \<Rightarrow> int"
  srv_clk :: "nat \<Rightarrow> int"

subsection \<open>Remote calls\<close>

text \<open>A libstore is registered for callbacks unless its mode is \<open>Never\<close> or it has no address.
  A callback that takes its process down, or finds none, is an error the storage server ignores.\<close>

definition registered :: "libstore \<Rightarrow> bool" where
  "registered ls \<longleftrightarrow> ls_mode ls \<noteq> Never \<and> ls_hostPort ls \<noteq> []"

definition deliver :: "revocation \<Rightarrow> cluster \<Rightarrow> cluster" where
  "deliver call cl =
     (case cl_libs cl (fst call) of
        None \<Rightarrow> cl
      | Some ls \<Rightarrow>
          if registered ls then
            (case ls_RevokeLease \<lparr>ra_Key = snd call\<rparr> ls of
               Inl c \<Rightarrow> cl\<lparr>cl_libs := (cl_libs cl)(fst call := None)\<rparr>
             | Inr (reply, ls) \<Rightarrow> cl\<lparr>cl_libs := (cl_libs cl)(fst call \<mapsto> ls)\<rparr>)
          else cl)"

definition cl_call ::
  "(storageServer \<Rightarrow> ('r \<times> revocation list \<times> storageServer) go) \<Rightarrow> string \<Rightarrow> cluster
     \<Rightarrow> (go_error + 'r) \<times> cluster" where
  "cl_call handler addr cl =
     (case cl_servers cl addr of
        None \<Rightarrow> (Inl (Err ''connection is shut down''), cl)
      | Some ss \<Rightarrow>
          (case handler ss of
             Inl c \<Rightarrow>
               (Inl (Err ''unexpected EOF''), cl\<lparr>cl_servers := (cl_servers cl)(addr := None)\<rparr>)
           | Inr (reply, calls, ss) \<Rightarrow>
               (Inr reply, fold deliver calls (cl\<lparr>cl_servers := (cl_servers cl)(addr \<mapsto> ss)\<rparr>))))"

text \<open>The environment the storage server runs in: it reaches the app servers that are up.\<close>

definition server_env :: "cl_env \<Rightarrow> cluster \<Rightarrow> env" where
  "server_env e cl = \<lparr>clk = srv_clk e, dial = (\<lambda>h. cl_libs cl h \<noteq> None)\<rparr>"

definition no_calls :: "('r \<times> storageServer) go \<Rightarrow> ('r \<times> revocation list \<times> storageServer) go" where
  "no_calls m = go_bind m (\<lambda>(r, ss). Inr (r, [], ss))"

subsection \<open>The process that calls\<close>

definition own_lib :: "string \<Rightarrow> cluster \<Rightarrow> libstore go" where
  "own_lib h cl = (case cl_libs cl h of None \<Rightarrow> Inl NilDereference | Some ls \<Rightarrow> Inr ls)"

definition set_lib :: "string \<Rightarrow> libstore \<Rightarrow> cluster \<Rightarrow> cluster" where
  "set_lib h ls cl = cl\<lparr>cl_libs := (cl_libs cl)(h \<mapsto> ls)\<rparr>"

text \<open>\<open>cli := ls.getStorageServer(key)\<close> followed by \<open>cli.Call\<close>.\<close>

definition route_call ::
  "string \<Rightarrow> string \<Rightarrow> (storageServer \<Rightarrow> ('r \<times> revocation list \<times> storageServer) go) \<Rightarrow> cluster
     \<Rightarrow> ((go_error + 'r) \<times> cluster) go" where
  "route_call h key handler cl =
     go_bind (own_lib h cl) (\<lambda>ls.
     go_bind (getStorageServer (\<lambda>a. cl_servers cl a \<noteq> None) key ls) (\<lambda>(addr, ls).
       Inr (cl_call handler addr (set_lib h ls cl))))"

subsection \<open>The methods\<close>

definition ls_Get :: "cl_env \<Rightarrow> string \<Rightarrow> string \<Rightarrow> cluster \<Rightarrow> ((go_error + string) \<times> cluster) go" where
  "ls_Get e h key cl =
     go_bind (own_lib h cl) (\<lambda>ls.
     go_bind (ls_lookup (lib_clk e) key ls) (\<lambda>(lk, ls).
       let cl = set_lib h ls cl in
       case lk of
         Hit result \<Rightarrow> go_bind (go_index result 0) (\<lambda>v. Inr (Inr v, cl))
       | Miss wantLease rec \<Rightarrow>
           let args = \<lparr>ga_Key = key, ga_WantLease = wantLease, ga_HostPort = ls_hostPort ls\<rparr> in
           go_bind (route_call h key (\<lambda>ss. no_calls (ss_Get (server_env e cl) args ss)) cl) (\<lambda>(reply, cl).
             case reply of
               Inl err \<Rightarrow> Inr (Inl err, cl)
             | Inr reply \<Rightarrow>
                 go_bind (own_lib h cl) (\<lambda>ls.
                 go_bind (ls_Get_reply (lib_clk e 2) key wantLease rec reply ls) (\<lambda>(r, ls).
                   Inr (r, set_lib h ls cl))))))"

definition ls_GetList :: "cl_env \<Rightarrow> string \<Rightarrow> string \<Rightarrow> cluster \<Rightarrow> ((go_error + string list) \<times> cluster) go" where
  "ls_GetList e h key cl =
     go_bind (own_lib h cl) (\<lambda>ls.
     go_bind (ls_lookup (lib_clk e) key ls) (\<lambda>(lk, ls).
       let cl = set_lib h ls cl in
       case lk of
         Hit result \<Rightarrow> Inr (Inr result, cl)
       | Miss wantLease rec \<Rightarrow>
           let args = \<lparr>ga_Key = key, ga_WantLease = wantLease, ga_HostPort = ls_hostPort ls\<rparr> in
           go_bind (route_call h key (\<lambda>ss. no_calls (ss_GetList (server_env e cl) args ss)) cl) (\<lambda>(reply, cl).
             case reply of
               Inl err \<Rightarrow> Inr (Inl err, cl)
             | Inr reply \<Rightarrow>
                 go_bind (own_lib h cl) (\<lambda>ls.
                 go_bind (ls_GetList_reply (lib_clk e 2) key wantLease rec reply ls) (\<lambda>(r, ls).
                   Inr (r, set_lib h ls cl))))))"

text \<open>The four methods that write: the error of the transport, or the one the status stands for.\<close>

definition write_call ::
  "string \<Rightarrow> string \<Rightarrow> (storageServer \<Rightarrow> ('r \<times> revocation list \<times> storageServer) go)
     \<Rightarrow> ('r \<Rightarrow> go_error option) \<Rightarrow> cluster \<Rightarrow> (go_error option \<times> cluster) go" where
  "write_call h key handler outcome cl =
     go_bind (route_call h key handler cl) (\<lambda>(reply, cl).
       case reply of Inl err \<Rightarrow> Inr (Some err, cl) | Inr reply \<Rightarrow> Inr (outcome reply, cl))"

definition ls_Put :: "cl_env \<Rightarrow> string \<Rightarrow> string \<Rightarrow> string \<Rightarrow> cluster \<Rightarrow> (go_error option \<times> cluster) go" where
  "ls_Put e h key value cl =
     write_call h key (ss_Put (server_env e cl) \<lparr>pa_Key = key, pa_Value = value\<rparr>) ls_Put_reply cl"

definition ls_Delete :: "cl_env \<Rightarrow> string \<Rightarrow> string \<Rightarrow> cluster \<Rightarrow> (go_error option \<times> cluster) go" where
  "ls_Delete e h key cl =
     write_call h key (ss_Delete (server_env e cl) \<lparr>da_Key = key\<rparr>) (ls_Delete_reply key) cl"

definition ls_RemoveFromList ::
  "cl_env \<Rightarrow> string \<Rightarrow> string \<Rightarrow> string \<Rightarrow> cluster \<Rightarrow> (go_error option \<times> cluster) go" where
  "ls_RemoveFromList e h key removeItem cl =
     write_call h key (ss_RemoveFromList (server_env e cl) \<lparr>pa_Key = key, pa_Value = removeItem\<rparr>)
       (ls_Remove_reply key removeItem) cl"

definition ls_AppendToList ::
  "cl_env \<Rightarrow> string \<Rightarrow> string \<Rightarrow> string \<Rightarrow> cluster \<Rightarrow> (go_error option \<times> cluster) go" where
  "ls_AppendToList e h key newItem cl =
     write_call h key (ss_AppendToList (server_env e cl) \<lparr>pa_Key = key, pa_Value = newItem\<rparr>)
       (ls_Append_reply key newItem) cl"

text \<open>One round of \<open>cacheRecycler\<close> of the libstore at \<open>h\<close>.\<close>

definition ls_recycle :: "(nat \<Rightarrow> int) \<Rightarrow> string \<Rightarrow> string list \<Rightarrow> cluster \<Rightarrow> cluster go" where
  "ls_recycle now h keys cl =
     go_bind (own_lib h cl) (\<lambda>ls. go_bind (recycle_round now 0 keys ls) (\<lambda>ls. Inr (set_lib h ls cl)))"

end
