(* ===== verification/Coherence.thy ===== *)
theory Coherence
  imports Cluster Libstore_Correct Storage_Correct
begin

text \<open>
  What the libstore methods do over a cluster whose members agree on the ring: the value each call
  returns and the data it leaves, and the coherence of the caches.
\<close>

section \<open>Clusters that agree on the ring\<close>

text \<open>\<open>R\<close> is the ring and \<open>N\<close> gives the address of each node on it.\<close>

type_synonym addresses = "u32 \<rightharpoonup> string"

text \<open>A libstore that has no address for callbacks is one in mode \<open>Never\<close>, which asks for no lease.\<close>

definition lib_ok :: "u32 list \<Rightarrow> addresses \<Rightarrow> string \<Rightarrow> libstore \<Rightarrow> bool" where
  "lib_ok R N h ls \<longleftrightarrow>
     ls_hostPort ls = h \<and> (h = [] \<longrightarrow> ls_mode ls = Never) \<and> CHR ''~'' \<notin> set h \<and> ls_ring ls = R \<and> ls_nodes ls = N \<and>
     lib_conns_wf ls \<and> lib_inv ls"

definition server_ok :: "u32 list \<Rightarrow> u32 \<Rightarrow> storageServer \<Rightarrow> bool" where
  "server_ok R nid ss \<longleftrightarrow> ss_nodeID ss = nid \<and> ss_ring ss = R \<and> ss_inv ss"

definition owner :: "u32 list \<Rightarrow> string \<Rightarrow> u32" where
  "owner R key = ring_owner (set R) (StoreHash key)"

definition server_for :: "u32 list \<Rightarrow> addresses \<Rightarrow> cluster \<Rightarrow> string \<Rightarrow> storageServer option" where
  "server_for R N cl key =
     (case N (owner R key) of None \<Rightarrow> None | Some a \<Rightarrow> cl_servers cl a)"

definition cl_data :: "u32 list \<Rightarrow> addresses \<Rightarrow> cluster \<Rightarrow> string \<Rightarrow> string list option" where
  "cl_data R N cl key = (case server_for R N cl key of None \<Rightarrow> None | Some ss \<Rightarrow> ss_storage ss key)"

definition cl_tenants :: "u32 list \<Rightarrow> addresses \<Rightarrow> cluster \<Rightarrow> string \<Rightarrow> string list" where
  "cl_tenants R N cl key = (case server_for R N cl key of None \<Rightarrow> [] | Some ss \<Rightarrow> tenants_of ss key)"

definition servers_wf :: "u32 list \<Rightarrow> addresses \<Rightarrow> (string \<rightharpoonup> storageServer) \<Rightarrow> bool" where
  "servers_wf R N S \<longleftrightarrow> (\<forall>nid\<in>set R. \<exists>a ss. N nid = Some a \<and> S a = Some ss \<and> server_ok R nid ss)"

definition libs_wf :: "u32 list \<Rightarrow> addresses \<Rightarrow> cluster \<Rightarrow> bool" where
  "libs_wf R N cl \<longleftrightarrow> (\<forall>h ls. cl_libs cl h = Some ls \<longrightarrow> lib_ok R N h ls)"

definition cl_wf :: "u32 list \<Rightarrow> addresses \<Rightarrow> cluster \<Rightarrow> bool" where
  "cl_wf R N cl \<longleftrightarrow> ssorted R \<and> R \<noteq> [] \<and> servers_wf R N (cl_servers cl) \<and>
     libs_wf R N cl \<and>
     (\<forall>k. \<forall>r\<in>set (cl_tenants R N cl k). cl_libs cl (lease_host r) \<noteq> None)"

lemma cl_wf_lib: "cl_wf R N cl \<Longrightarrow> cl_libs cl h = Some ls \<Longrightarrow> lib_ok R N h ls"
  by (simp add: cl_wf_def libs_wf_def)

lemma owner_in_ring: "cl_wf R N cl \<Longrightarrow> owner R key \<in> set R"
  by (simp add: cl_wf_def owner_def ring_owner_member)

lemma cl_wf_owner:
  assumes "cl_wf R N cl"
  obtains a ss where "N (owner R key) = Some a" and "cl_servers cl a = Some ss"
    and "server_ok R (owner R key) ss" and "server_for R N cl key = Some ss"
proof -
  obtain a ss where "N (owner R key) = Some a" "cl_servers cl a = Some ss" "server_ok R (owner R key) ss"
    using assms owner_in_ring [OF assms, of key] unfolding cl_wf_def servers_wf_def by blast
  then show thesis by (intro that) (auto simp: server_for_def)
qed

lemma cl_wf_serving:
  assumes "cl_wf R N cl" and "server_for R N cl key = Some ss" and "dial e = (\<lambda>h. cl_libs cl h \<noteq> None)"
  shows "serving e ss key"
proof -
  obtain ss' where "server_for R N cl key = Some ss'" "server_ok R (owner R key) ss'"
    by (rule cl_wf_owner [OF assms(1)])
  with assms(2) have ok: "server_ok R (owner R key) ss" by simp
  have "\<forall>r\<in>set (tenants_of ss key). cl_libs cl (lease_host r) \<noteq> None"
    using assms(1,2) unfolding cl_wf_def cl_tenants_def by (metis option.simps(5))
  with ok assms show ?thesis
    by (auto simp: serving_def server_ok_def owns_def owner_def reachable_holders_def holders_def cl_wf_def)
qed

text \<open>A call that replaces the server that owns a key by one that differs at that key only.\<close>

definition key_update ::
  "string \<Rightarrow> string list option \<Rightarrow> string list \<Rightarrow> storageServer \<Rightarrow> storageServer \<Rightarrow> bool" where
  "key_update key v ts ss ss' \<longleftrightarrow>
     ss_nodeID ss' = ss_nodeID ss \<and> ss_ring ss' = ss_ring ss \<and> ss_inv ss' \<and>
     ss_storage ss' = (ss_storage ss)(key := v) \<and>
     (\<forall>k. tenants_of ss' k = (if k = key then ts else tenants_of ss k))"

lemma server_upd:
  assumes "cl_wf R N cl" and "N (owner R key) = Some a" and "cl_servers cl a = Some ss"
    and "key_update key v ts ss ss'" and "cl_servers cl' = (cl_servers cl)(a \<mapsto> ss')"
  shows "servers_wf R N (cl_servers cl')"
    and "cl_data R N cl' = (cl_data R N cl)(key := v)"
    and "cl_tenants R N cl' = (cl_tenants R N cl)(key := ts)"
proof -
  have sf: "server_for R N cl' k = (if N (owner R k) = Some a then Some ss' else server_for R N cl k)" for k
    using assms(5) by (auto simp: server_for_def split: option.splits)
  have same: "N (owner R k) = Some a \<Longrightarrow> server_for R N cl k = Some ss" for k
    using assms(3) by (simp add: server_for_def)
  show "cl_data R N cl' = (cl_data R N cl)(key := v)"
    using assms(2,4) same by (auto simp: cl_data_def sf key_update_def fun_eq_iff)
  show "cl_tenants R N cl' = (cl_tenants R N cl)(key := ts)"
    using assms(2,4) same by (auto simp: cl_tenants_def sf key_update_def fun_eq_iff)
  show "servers_wf R N (cl_servers cl')"
    unfolding servers_wf_def
  proof
    fix nid assume "nid \<in> set R"
    then obtain b s where b: "N nid = Some b" "cl_servers cl b = Some s" "server_ok R nid s"
      using assms(1) unfolding cl_wf_def servers_wf_def by blast
    show "\<exists>b s. N nid = Some b \<and> cl_servers cl' b = Some s \<and> server_ok R nid s"
      using b assms(3-5) by (cases "b = a") (auto simp: server_ok_def key_update_def)
  qed
qed

lemma key_update_wrote:
  assumes "ss_inv ss" and "wrote e ss key v calls ss'" and "\<And>vs. v = Some vs \<Longrightarrow> ssorted vs"
  shows "key_update key v [] ss ss'"
  using ss_inv_wrote [OF assms] assms(2) by (auto simp: key_update_def wrote_def tenants_of_def)

lemma key_update_store:
  assumes "ss_inv ss" and "ssorted vs"
  shows "key_update key (Some vs) (tenants_of ss key) ss (ss\<lparr>ss_storage := (ss_storage ss)(key \<mapsto> vs)\<rparr>)"
  using ss_inv_store [OF assms] by (simp add: key_update_def tenants_of_def)

lemma key_update_same: "ss_inv ss \<Longrightarrow> key_update key (ss_storage ss key) (tenants_of ss key) ss ss"
  by (auto simp: key_update_def)

section \<open>Calls that only take leases away\<close>

definition conn_down :: "libstore \<Rightarrow> libstore \<Rightarrow> bool" where
  "conn_down ls ls' \<longleftrightarrow> lib_down ls ls' \<and> (lib_conns_wf ls \<longrightarrow> lib_conns_wf ls')"

definition libs_down :: "cluster \<Rightarrow> cluster \<Rightarrow> bool" where
  "libs_down cl cl' \<longleftrightarrow> (\<forall>h. rel_option conn_down (cl_libs cl h) (cl_libs cl' h))"

lemma conn_down_trans: "conn_down a b \<Longrightarrow> conn_down b c \<Longrightarrow> conn_down a c"
  by (auto simp: conn_down_def intro: lib_down_trans)

lemma rel_option_trans:
  "(\<And>a b c. Q a b \<Longrightarrow> Q b c \<Longrightarrow> Q a c) \<Longrightarrow> rel_option Q x y \<Longrightarrow> rel_option Q y z \<Longrightarrow> rel_option Q x z"
  by (cases x; cases y; cases z) auto

lemma libs_down_trans: "libs_down a b \<Longrightarrow> libs_down b c \<Longrightarrow> libs_down a c"
  unfolding libs_down_def using rel_option_trans [of conn_down] conn_down_trans by meson

lemma rel_libs_refl: "libs_wf R N cl \<Longrightarrow> rel_option conn_down (cl_libs cl h) (cl_libs cl h)"
  by (cases "cl_libs cl h") (auto simp: libs_wf_def lib_ok_def conn_down_def lib_down_refl)

lemma libs_downD:
  assumes "libs_down cl cl'" and "cl_libs cl' h = Some ls'"
  obtains ls where "cl_libs cl h = Some ls" and "lib_down ls ls'" and "conn_down ls ls'"
  using assms(1) [unfolded libs_down_def, rule_format, of h] assms(2) that
  by (cases "cl_libs cl h") (auto simp: conn_down_def)

lemma libs_down_alive: "libs_down cl cl' \<Longrightarrow> cl_libs cl' h = None \<longleftrightarrow> cl_libs cl h = None"
  unfolding libs_down_def by (cases "cl_libs cl h"; cases "cl_libs cl' h") (metis option.rel_distinct)+

lemma lib_ok_down: "lib_ok R N h ls \<Longrightarrow> conn_down ls ls' \<Longrightarrow> lib_ok R N h ls'"
  by (auto simp: lib_ok_def conn_down_def lib_down_def lib_frame_def)

lemma libs_wf_down: "libs_wf R N cl \<Longrightarrow> libs_down cl cl' \<Longrightarrow> libs_wf R N cl'"
  unfolding libs_wf_def using libs_downD lib_ok_down by metis

lemma libs_down_refl: "libs_wf R N cl \<Longrightarrow> cl_libs cl' = cl_libs cl \<Longrightarrow> libs_down cl cl'"
  by (simp add: libs_down_def rel_libs_refl)

lemma libs_down_upd:
  "libs_wf R N cl \<Longrightarrow> cl_libs cl h = Some ls \<Longrightarrow> conn_down ls ls' \<Longrightarrow>
   cl_libs cl' = (cl_libs cl)(h \<mapsto> ls') \<Longrightarrow> libs_down cl cl'"
  by (simp add: libs_down_def rel_libs_refl)

lemma cl_wf_down:
  assumes "cl_wf R N cl" and "libs_down cl cl'" and "servers_wf R N (cl_servers cl')"
    and "\<And>k r. r \<in> set (cl_tenants R N cl' k) \<Longrightarrow> cl_libs cl (lease_host r) \<noteq> None"
  shows "cl_wf R N cl'"
  using assms libs_wf_down [OF _ assms(2)] libs_down_alive [OF assms(2)] by (simp add: cl_wf_def)

lemma set_lib_sel [simp]:
  "cl_servers (set_lib h ls cl) = cl_servers cl" "cl_libs (set_lib h ls cl) = (cl_libs cl)(h \<mapsto> ls)"
  "server_for R N (set_lib h ls cl) = server_for R N cl"
  "cl_data R N (set_lib h ls cl) = cl_data R N cl" "cl_tenants R N (set_lib h ls cl) = cl_tenants R N cl"
  by (auto simp: set_lib_def server_for_def cl_data_def cl_tenants_def fun_eq_iff split: option.splits)

lemma cl_wf_set_lib:
  assumes "cl_wf R N cl" and "lib_ok R N h ls"
  shows "cl_wf R N (set_lib h ls cl)"
  using assms unfolding cl_wf_def libs_wf_def by auto

text \<open>A callback takes the lease of its key away from the libstore it reaches.\<close>

lemma deliver_result:
  assumes "libs_wf R N cl"
  shows "cl_servers (deliver (h, key) cl) = cl_servers cl"
    and "libs_down cl (deliver (h, key) cl)" and "libs_wf R N (deliver (h, key) cl)"
    and "cl_libs (deliver (h, key) cl) h = Some ls' \<Longrightarrow> \<not> granted ls' key"
proof -
  have all: "cl_servers (deliver (h, key) cl) = cl_servers cl \<and> libs_down cl (deliver (h, key) cl) \<and>
      (\<forall>ls'. cl_libs (deliver (h, key) cl) h = Some ls' \<longrightarrow> \<not> granted ls' key)"
  proof (cases "\<exists>ls. cl_libs cl h = Some ls \<and> registered ls")
    case True
    then obtain ls where ls: "cl_libs cl h = Some ls" "registered ls" by blast
    have inv: "lib_inv ls" using assms ls(1) by (simp add: libs_wf_def lib_ok_def)
    obtain st ls1 where 1: "ls_RevokeLease \<lparr>ra_Key = key\<rparr> ls = Inr (\<lparr>rr_Status = st\<rparr>, ls1)"
      "lib_down ls ls1" "\<not> granted ls1 key" "ls_conns ls1 = ls_conns ls"
      by (rule ls_RevokeLease_result [OF inv])
    have "conn_down ls ls1"
      using 1(2,4) by (simp add: conn_down_def lib_conns_wf_def lib_down_def lib_frame_def)
    from libs_down_upd [OF assms ls(1) this] 1 ls show ?thesis by (simp add: deliver_def)
  next
    case False
    then have "deliver (h, key) cl = cl" by (auto simp: deliver_def split: option.splits)
    moreover have "\<not> granted ls key" if "cl_libs cl h = Some ls" for ls
    proof -
      have "lib_ok R N h ls" using assms that by (simp add: libs_wf_def)
      then have "ls_mode ls = Never" "lib_inv ls" using False that by (auto simp: registered_def lib_ok_def)
      then show ?thesis unfolding lib_inv_def by blast
    qed
    ultimately show ?thesis using libs_down_refl [OF assms] by simp
  qed
  then show "cl_servers (deliver (h, key) cl) = cl_servers cl" "libs_down cl (deliver (h, key) cl)"
    "cl_libs (deliver (h, key) cl) h = Some ls' \<Longrightarrow> \<not> granted ls' key" by blast+
  show "libs_wf R N (deliver (h, key) cl)" using all assms libs_wf_down by blast
qed

lemma deliver_all_result:
  assumes "libs_wf R N cl" and "\<forall>c\<in>set calls. snd c = key"
  shows "cl_servers (fold deliver calls cl) = cl_servers cl \<and> libs_down cl (fold deliver calls cl) \<and>
     (\<forall>h ls'. (h, key) \<in> set calls \<and> cl_libs (fold deliver calls cl) h = Some ls' \<longrightarrow> \<not> granted ls' key)"
  using assms
proof (induction calls arbitrary: cl)
  case Nil
  then show ?case using libs_down_refl by auto
next
  case (Cons c calls)
  obtain h where c: "c = (h, key)" using Cons.prems(2) by (cases c) auto
  note 1 = deliver_result [OF Cons.prems(1), of h key, folded c]
  have 2: "cl_servers (fold deliver calls (deliver c cl)) = cl_servers (deliver c cl)"
    "libs_down (deliver c cl) (fold deliver calls (deliver c cl))"
    "\<And>h ls'. (h, key) \<in> set calls \<Longrightarrow> cl_libs (fold deliver calls (deliver c cl)) h = Some ls' \<Longrightarrow>
       \<not> granted ls' key"
    using Cons.IH [OF 1(3)] Cons.prems(2) by auto
  have "\<not> granted ls' key" if l: "cl_libs (fold deliver calls (deliver c cl)) h = Some ls'" for ls'
    using libs_downD [OF 2(2) l] 1(4) lib_downD(3) by metis
  with 2(3) have "\<forall>g ls'. (g, key) \<in> set (c # calls) \<and>
      cl_libs (fold deliver (c # calls) cl) g = Some ls' \<longrightarrow> \<not> granted ls' key"
    by (auto simp: c)
  with 2(1,2) 1(1,2) show ?case by (auto intro: libs_down_trans)
qed

section \<open>A call to the owner of a key\<close>

text \<open>The outcome of a call that updates the owner of its key, in terms of the data, the lease
  records and the caches of the whole cluster.\<close>

definition called ::
  "u32 list \<Rightarrow> addresses \<Rightarrow> string \<Rightarrow> string list option \<Rightarrow> string list \<Rightarrow> revocation list
     \<Rightarrow> cluster \<Rightarrow> cluster \<Rightarrow> bool" where
  "called R N key v ts calls cl cl' \<longleftrightarrow>
     cl_wf R N cl' \<and> libs_down cl cl' \<and> cl_data R N cl' = (cl_data R N cl)(key := v) \<and>
     cl_tenants R N cl' = (cl_tenants R N cl)(key := ts) \<and>
     (\<forall>h ls'. (h, key) \<in> set calls \<and> cl_libs cl' h = Some ls' \<longrightarrow> \<not> granted ls' key) \<and>
     (calls = [] \<longrightarrow> (\<forall>h ls ls'. cl_libs cl h = Some ls \<and> cl_libs cl' h = Some ls' \<longrightarrow>
        ls_records ls' = ls_records ls))"

lemma cl_wf_route:
  assumes "cl_wf R N cl" and "cl_libs cl h = Some ls" and "N (owner R key) = Some a"
    and "cl_servers cl a = Some ss"
  obtains ls' where "getStorageServer (\<lambda>a. cl_servers cl a \<noteq> None) key ls = Inr (a, ls')"
    and "conn_down ls ls'" and "ls_records ls' = ls_records ls"
proof -
  have ok: "lib_ok R N h ls" using cl_wf_lib [OF assms(1,2)] .
  have ring: "ls_ring ls = R" "ls_nodes ls = N" "lib_inv ls" "lib_conns_wf ls" "ssorted R" "R \<noteq> []"
    using ok assms(1) by (simp_all add: lib_ok_def cl_wf_def)
  obtain ls' where "getStorageServer (\<lambda>a. cl_servers cl a \<noteq> None) key ls = Inr (a, ls')"
    "lib_down ls ls'" "lib_conns_wf ls'" "ls_records ls' = ls_records ls"
    by (rule getStorageServer_result [of ls key a "\<lambda>a. cl_servers cl a \<noteq> None"])
      (use ring assms(3,4) in \<open>simp_all add: owner_def\<close>)
  then show thesis by (intro that [of ls']) (auto simp: conn_down_def)
qed

lemma route_call_result:
  assumes "cl_wf R N cl" and "cl_libs cl h \<noteq> None" and "server_for R N cl key = Some ss"
    and "handler ss = Inr (reply, calls, ss')" and "key_update key v ts ss ss'"
    and "\<forall>c\<in>set calls. snd c = key"
    and "\<forall>r\<in>set ts. r \<in> set (tenants_of ss key) \<or> lease_host r = h"
  obtains cl' where "route_call h key handler cl = Inr (Inr reply, cl')" and "called R N key v ts calls cl cl'"
proof -
  obtain ls where ls: "cl_libs cl h = Some ls" using assms(2) by blast
  obtain a where a: "N (owner R key) = Some a" "cl_servers cl a = Some ss"
    using cl_wf_owner [OF assms(1)] assms(3) by (metis option.inject)
  obtain ls1 where ls1: "getStorageServer (\<lambda>a. cl_servers cl a \<noteq> None) key ls = Inr (a, ls1)"
    "conn_down ls ls1" "ls_records ls1 = ls_records ls"
    by (rule cl_wf_route [OF assms(1) ls a])
  let ?c = "(set_lib h ls1 cl)\<lparr>cl_servers := (cl_servers cl)(a \<mapsto> ss')\<rparr>"
  let ?d = "fold deliver calls ?c"
  have lw: "libs_wf R N cl" using assms(1) by (simp add: cl_wf_def)
  have c_down: "libs_down cl ?c" by (rule libs_down_upd [OF lw ls ls1(2)]) simp
  have d: "cl_servers ?d = (cl_servers cl)(a \<mapsto> ss')" "libs_down ?c ?d"
    "\<forall>h ls'. (h, key) \<in> set calls \<and> cl_libs ?d h = Some ls' \<longrightarrow> \<not> granted ls' key"
    using deliver_all_result [OF libs_wf_down [OF lw c_down] assms(6)] by auto
  note upd = server_upd [OF assms(1) a assms(5) d(1)]
  have down: "libs_down cl ?d" using c_down d(2) by (rule libs_down_trans)
  have host: "cl_libs cl (lease_host r) \<noteq> None" if "r \<in> set (cl_tenants R N ?d k)" for k r
  proof (cases "k = key \<and> r \<notin> set (tenants_of ss key)")
    case True
    with that assms(2,7) show ?thesis by (auto simp: upd(3))
  next
    case False
    then have "r \<in> set (cl_tenants R N cl k)"
      using that assms(3) by (auto simp: upd(3) cl_tenants_def split: if_splits)
    then show ?thesis using assms(1) unfolding cl_wf_def by blast
  qed
  have eq: "route_call h key handler cl = Inr (Inr reply, ?d)"
    using ls ls1(1) a(2) assms(4) by (simp add: route_call_def own_lib_def cl_call_def)
  have rec: "\<forall>g l l'. cl_libs cl g = Some l \<and> cl_libs ?d g = Some l' \<longrightarrow> ls_records l' = ls_records l"
    if "calls = []"
    using that ls ls1(3) by auto
  have wf: "cl_wf R N ?d" by (rule cl_wf_down [OF assms(1) down upd(1) host])
  show thesis
    by (rule that [OF eq]) (use wf down upd(2,3) d(3) rec in \<open>unfold called_def, blast\<close>)
qed

section \<open>Coherence of the caches\<close>

text \<open>A libstore that holds the lease of a key is recorded as a holder by the server that owns the
  key, and its cache has the value the server stores.\<close>

definition coherent :: "u32 list \<Rightarrow> addresses \<Rightarrow> cluster \<Rightarrow> bool" where
  "coherent R N cl \<longleftrightarrow>
     (\<forall>h ls k. cl_libs cl h = Some ls \<and> granted ls k \<longrightarrow>
        h \<in> lease_host ` set (cl_tenants R N cl k) \<and> ls_cache ls k = cl_data R N cl k)"

lemma coherentD:
  "coherent R N cl \<Longrightarrow> cl_libs cl h = Some ls \<Longrightarrow> granted ls k \<Longrightarrow>
   h \<in> lease_host ` set (cl_tenants R N cl k) \<and> ls_cache ls k = cl_data R N cl k"
  by (simp add: coherent_def)

text \<open>A write meets its lease records in time when none of them has run out while the server
  goes through them.\<close>

definition timely :: "u32 list \<Rightarrow> addresses \<Rightarrow> cl_env \<Rightarrow> cluster \<Rightarrow> string \<Rightarrow> bool" where
  "timely R N e cl key \<longleftrightarrow>
     (\<forall>n<length (cl_tenants R N cl key).
        srv_clk e n \<le> lease_time (cl_tenants R N cl key ! n) + LeaseSeconds + LeaseGuardSeconds)"

lemma lease_calls_timely:
  assumes "timely R N e cl key" and "server_for R N cl key = Some ss" and "clk e' = srv_clk e"
    and "h \<in> lease_host ` set (cl_tenants R N cl key)"
  shows "(h, key) \<in> set (lease_calls e' ss key)"
proof -
  have t: "cl_tenants R N cl key = tenants_of ss key" using assms(2) by (simp add: cl_tenants_def)
  obtain n where n: "n < length (tenants_of ss key)" "h = lease_host (tenants_of ss key ! n)"
    using assms(4) by (auto simp: t in_set_conv_nth)
  then have "(n, tenants_of ss key ! n) \<in> set (enumerate 0 (tenants_of ss key))"
    by (auto simp: in_set_enumerate_eq)
  moreover have "clk e' n \<le> lease_time (tenants_of ss key ! n) + LeaseSeconds + LeaseGuardSeconds"
    using assms(1,3) n(1) by (simp add: timely_def t)
  ultimately show ?thesis using n(2) unfolding lease_calls_def by force
qed

text \<open>A call keeps the caches coherent when nobody holds the lease of the key afterwards, or when
  the value and the holders of the key are as before.\<close>

lemma coherent_called:
  assumes "coherent R N cl" and "called R N key v ts calls cl cl'"
    and "(\<forall>h ls'. cl_libs cl' h = Some ls' \<longrightarrow> \<not> granted ls' key) \<or>
         (v = cl_data R N cl key \<and> lease_host ` set (cl_tenants R N cl key) \<subseteq> lease_host ` set ts)"
  shows "coherent R N cl'"
  unfolding coherent_def
proof (intro allI impI, elim conjE)
  fix h ls' k assume l: "cl_libs cl' h = Some ls'" and g: "granted ls' k"
  have down: "libs_down cl cl'" using assms(2) by (simp add: called_def)
  obtain ls where ls: "cl_libs cl h = Some ls" "lib_down ls ls'" using libs_downD [OF down l] by blast
  have "granted ls k" "ls_cache ls' k = ls_cache ls k" using lib_downD(3,4) [OF ls(2) g] by auto
  with coherentD [OF assms(1) ls(1)] have
    "h \<in> lease_host ` set (cl_tenants R N cl k)" "ls_cache ls' k = cl_data R N cl k" by auto
  then show "h \<in> lease_host ` set (cl_tenants R N cl' k) \<and> ls_cache ls' k = cl_data R N cl' k"
    using assms(2,3) l g by (auto simp: called_def)
qed

section \<open>The methods\<close>

text \<open>Nobody holds the lease of a key.\<close>

definition unleased :: "cluster \<Rightarrow> string \<Rightarrow> bool" where
  "unleased cl key \<longleftrightarrow> (\<forall>h ls. cl_libs cl h = Some ls \<longrightarrow> \<not> granted ls key)"

lemma unleased_down: "libs_down cl cl' \<Longrightarrow> unleased cl key \<Longrightarrow> unleased cl' key"
  unfolding unleased_def using libs_downD lib_downD(3) by metis


text \<open>The outcome of a method on a key: a well-formed and coherent cluster with the given data, the
  same libstores, no lease on a key that had none but the one of the call, and no new lease record
  but one of the time of the call.\<close>

definition new_record :: "cl_env \<Rightarrow> string \<Rightarrow> bool" where
  "new_record e r \<longleftrightarrow> (\<exists>h. CHR ''~'' \<notin> set h \<and> r = FormatLeaseRecord h (srv_clk e 0))"

definition moved ::
  "u32 list \<Rightarrow> addresses \<Rightarrow> cl_env \<Rightarrow> string \<Rightarrow> (string \<rightharpoonup> string list) \<Rightarrow> cluster
     \<Rightarrow> cluster \<Rightarrow> bool" where
  "moved R N e key d cl cl' \<longleftrightarrow> cl_wf R N cl' \<and> coherent R N cl' \<and> cl_data R N cl' = d \<and>
     dom (cl_libs cl') = dom (cl_libs cl) \<and>
     (\<forall>k. k \<noteq> key \<and> unleased cl k \<longrightarrow> unleased cl' k) \<and>
     (\<forall>k. \<forall>r\<in>set (cl_tenants R N cl' k). r \<in> set (cl_tenants R N cl k) \<or> new_record e r)"

lemma libs_down_dom: "libs_down cl cl' \<Longrightarrow> dom (cl_libs cl') = dom (cl_libs cl)"
  using libs_down_alive unfolding dom_def by auto

lemma moved_called:
  assumes "coherent R N cl" and "called R N key v ts calls cl cl'"
    and "(\<forall>h ls'. cl_libs cl' h = Some ls' \<longrightarrow> \<not> granted ls' key) \<or>
         (v = cl_data R N cl key \<and> lease_host ` set (cl_tenants R N cl key) \<subseteq> lease_host ` set ts)"
    and "\<forall>r\<in>set ts. r \<in> set (cl_tenants R N cl key) \<or> new_record e r"
  shows "moved R N e key ((cl_data R N cl)(key := v)) cl cl'"
  using coherent_called [OF assms(1-3)] assms(2,4) libs_down_dom unleased_down
  by (auto simp: moved_def called_def)

text \<open>A write that revokes: afterwards nobody holds the lease of the key.\<close>

lemma write_result:
  assumes "cl_wf R N cl" and "coherent R N cl" and "timely R N e cl key" and "cl_libs cl h \<noteq> None"
    and "server_for R N cl key = Some ss" and "handler ss = Inr (reply, calls, ss')"
    and "wrote (server_env e cl) ss key v calls ss'" and "\<And>vs. v = Some vs \<Longrightarrow> ssorted vs"
  obtains cl' where "write_call h key handler outcome cl = Inr (outcome reply, cl')"
    and "called R N key v [] calls cl cl'" and "moved R N e key ((cl_data R N cl)(key := v)) cl cl'"
proof -
  have "serving (server_env e cl) ss key"
    by (rule cl_wf_serving [OF assms(1,5)]) (simp add: server_env_def)
  then have upd: "key_update key v [] ss ss'"
    using key_update_wrote [OF serving_inv assms(7,8)] by blast
  have calls: "calls = lease_calls (server_env e cl) ss key" using assms(7) by (simp add: wrote_def)
  then have keys: "\<forall>c\<in>set calls. snd c = key" by (auto simp: lease_calls_def)
  obtain cl' where cl': "route_call h key handler cl = Inr (Inr reply, cl')"
    "called R N key v [] calls cl cl'"
    by (rule route_call_result [where handler = handler, OF assms(1,4,5,6) upd keys]) simp_all
  have "\<not> granted ls' key" if l: "cl_libs cl' g = Some ls'" for g ls'
  proof
    assume g: "granted ls' key"
    have "libs_down cl cl'" using cl'(2) by (simp add: called_def)
    from libs_downD [OF this l] obtain ls where "cl_libs cl g = Some ls" "granted ls key"
      using lib_downD(3) g by metis
    then have "g \<in> lease_host ` set (cl_tenants R N cl key)" using coherentD [OF assms(2)] by blast
    then have "(g, key) \<in> set calls"
      using lease_calls_timely [OF assms(3,5)] calls by (simp add: server_env_def)
    with cl'(2) l g show False by (auto simp: called_def)
  qed
  then show thesis
    using that [OF _ cl'(2)] moved_called [OF assms(2) cl'(2)] cl'(1) by (simp add: write_call_def)
qed

text \<open>A write that fails leaves everything as it is.\<close>

lemma reject_result:
  assumes "cl_wf R N cl" and "coherent R N cl" and "cl_libs cl h \<noteq> None"
    and "server_for R N cl key = Some ss" and "handler ss = Inr (reply, [], ss)"
  obtains cl' where "write_call h key handler outcome cl = Inr (outcome reply, cl')"
    and "moved R N e key (cl_data R N cl) cl cl'"
proof -
  have "serving (server_env undefined cl) ss key"
    by (rule cl_wf_serving [OF assms(1,4)]) (simp add: server_env_def)
  note upd = key_update_same [OF serving_inv [OF this], of key]
  obtain cl' where cl': "route_call h key handler cl = Inr (Inr reply, cl')"
    "called R N key (ss_storage ss key) (tenants_of ss key) [] cl cl'"
    by (rule route_call_result [where handler = handler, OF assms(1,3,4,5) upd]) simp_all
  have same: "cl_data R N cl key = ss_storage ss key" "cl_tenants R N cl key = tenants_of ss key"
    using assms(4) by (simp_all add: cl_data_def cl_tenants_def)
  have "moved R N e key (cl_data R N cl) cl cl'"
    using moved_called [OF assms(2) cl'(2)] same by (simp add: fun_upd_idem)
  then show thesis using that cl'(1) by (simp add: write_call_def)
qed

subsection \<open>Writes\<close>

text \<open>A cluster ready for a call of the libstore at \<open>h\<close>.\<close>

definition ready :: "u32 list \<Rightarrow> addresses \<Rightarrow> string \<Rightarrow> cluster \<Rightarrow> bool" where
  "ready R N h cl \<longleftrightarrow> cl_wf R N cl \<and> coherent R N cl \<and> cl_libs cl h \<noteq> None"

lemma ready_owner:
  assumes "ready R N h cl"
  obtains ss where "server_for R N cl key = Some ss" and "serving (server_env e cl) ss key"
    and "ss_storage ss key = cl_data R N cl key"
proof -
  have wf: "cl_wf R N cl" using assms by (simp add: ready_def)
  obtain ss where ss: "server_for R N cl key = Some ss" by (rule cl_wf_owner [OF wf])
  have "serving (server_env e cl) ss key" by (rule cl_wf_serving [OF wf ss]) (simp add: server_env_def)
  with ss show thesis by (intro that) (auto simp: cl_data_def)
qed

lemma ls_Put_result:
  assumes "ready R N h cl" and "timely R N e cl key"
  obtains cl' where "ls_Put e h key v cl = Inr (None, cl')"
    and "moved R N e key ((cl_data R N cl)(key \<mapsto> [v])) cl cl'"
proof -
  have r: "cl_wf R N cl" "coherent R N cl" "cl_libs cl h \<noteq> None" using assms(1) by (auto simp: ready_def)
  obtain ss where ss: "server_for R N cl key = Some ss" "serving (server_env e cl) ss key"
    by (rule ready_owner [OF assms(1)])
  let ?h = "ss_Put (server_env e cl) \<lparr>pa_Key = key, pa_Value = v\<rparr>"
  obtain calls ss' where put: "?h ss = Inr (\<lparr>pr_Status = OK\<rparr>, calls, ss')"
    "wrote (server_env e cl) ss key (Some [v]) calls ss'"
    by (rule ss_Put_serving [OF ss(2)])
  obtain cl' where "write_call h key ?h ls_Put_reply cl = Inr (ls_Put_reply \<lparr>pr_Status = OK\<rparr>, cl')"
    "moved R N e key ((cl_data R N cl)(key \<mapsto> [v])) cl cl'"
    by (rule write_result [where handler = ?h, OF r(1,2) assms(2) r(3) ss(1) put]) auto
  then show thesis by (intro that) (simp_all add: ls_Put_def ls_Put_reply_def)
qed

lemma ls_Delete_result:
  assumes "ready R N h cl" and "timely R N e cl key"
  obtains cl' where
    "ls_Delete e h key cl = Inr (if cl_data R N cl key = None then Some (not_found key) else None, cl')"
    and "moved R N e key ((cl_data R N cl)(key := None)) cl cl'"
proof -
  have r: "cl_wf R N cl" "coherent R N cl" "cl_libs cl h \<noteq> None" using assms(1) by (auto simp: ready_def)
  obtain ss where ss: "server_for R N cl key = Some ss" "serving (server_env e cl) ss key"
    "ss_storage ss key = cl_data R N cl key"
    by (rule ready_owner [OF assms(1)])
  let ?h = "ss_Delete (server_env e cl) \<lparr>da_Key = key\<rparr>"
  show thesis
  proof (cases "cl_data R N cl key")
    case None
    obtain cl' where "write_call h key ?h (ls_Delete_reply key) cl =
        Inr (ls_Delete_reply key \<lparr>dr_Status = KeyNotFound\<rparr>, cl')" "moved R N e key (cl_data R N cl) cl cl'"
      by (rule reject_result [where handler = ?h, OF r ss(1)])
        (use ss_Delete_absent [OF ss(2)] ss(3) None in simp_all)
    with None show thesis
      by (intro that [of cl']) (simp_all add: ls_Delete_def ls_Delete_reply_def fun_upd_idem)
  next
    case (Some vs)
    obtain calls ss' where del: "?h ss = Inr (\<lparr>dr_Status = OK\<rparr>, calls, ss')"
      "wrote (server_env e cl) ss key None calls ss'"
      by (rule ss_Delete_serving [OF ss(2)]) (use ss(3) Some in simp_all)
    obtain cl' where "write_call h key ?h (ls_Delete_reply key) cl =
        Inr (ls_Delete_reply key \<lparr>dr_Status = OK\<rparr>, cl')"
      "moved R N e key ((cl_data R N cl)(key := None)) cl cl'"
      by (rule write_result [where handler = ?h, OF r(1,2) assms(2) r(3) ss(1) del]) simp_all
    with Some show thesis by (intro that [of cl']) (simp_all add: ls_Delete_def ls_Delete_reply_def)
  qed
qed

lemma ls_Remove_result:
  assumes "ready R N h cl" and "timely R N e cl key"
  obtains (present) vs ws cl' where "cl_data R N cl key = Some vs" and "v \<in> set vs"
      and "ls_RemoveFromList e h key v cl = Inr (None, cl')"
      and "moved R N e key ((cl_data R N cl)(key \<mapsto> ws)) cl cl'" and "ssorted ws" and "set ws = set vs - {v}"
  | (absent) cl' where "\<forall>vs. cl_data R N cl key = Some vs \<longrightarrow> v \<notin> set vs"
      and "ls_RemoveFromList e h key v cl = Inr (Some (Err (''Item '' @ v @ '' not found under key '' @ key)), cl')" and "moved R N e key (cl_data R N cl) cl cl'"
proof -
  have r: "cl_wf R N cl" "coherent R N cl" "cl_libs cl h \<noteq> None" using assms(1) by (auto simp: ready_def)
  obtain ss where ss: "server_for R N cl key = Some ss" "serving (server_env e cl) ss key"
    "ss_storage ss key = cl_data R N cl key"
    by (rule ready_owner [OF assms(1)])
  let ?h = "ss_RemoveFromList (server_env e cl) \<lparr>pa_Key = key, pa_Value = v\<rparr>"
  show thesis
  proof (cases "\<exists>vs. cl_data R N cl key = Some vs \<and> v \<in> set vs")
    case True
    then obtain vs where vs: "cl_data R N cl key = Some vs" "v \<in> set vs" by blast
    obtain calls ss' ws where rem: "?h ss = Inr (\<lparr>pr_Status = OK\<rparr>, calls, ss')"
      "wrote (server_env e cl) ss key (Some ws) calls ss'" and ws: "ssorted ws" "set ws = set vs - {v}"
      by (rule ss_Remove_serving [OF ss(2) _ vs(2)]) (use ss(3) vs in simp_all)
    obtain cl' where "write_call h key ?h (ls_Remove_reply key v) cl =
        Inr (ls_Remove_reply key v \<lparr>pr_Status = OK\<rparr>, cl')"
      "moved R N e key ((cl_data R N cl)(key \<mapsto> ws)) cl cl'"
      by (rule write_result [where handler = ?h, OF r(1,2) assms(2) r(3) ss(1) rem]) (use ws in simp_all)
    with vs ws show thesis
      by (intro present [of vs cl' ws]) (simp_all add: ls_RemoveFromList_def ls_Remove_reply_def)
  next
    case False
    have "?h ss = Inr (\<lparr>pr_Status = ItemNotFound\<rparr>, [], ss)"
      by (rule ss_Remove_absent [OF ss(2)]) (use ss(3) False in simp)
    then obtain cl' where "write_call h key ?h (ls_Remove_reply key v) cl =
        Inr (ls_Remove_reply key v \<lparr>pr_Status = ItemNotFound\<rparr>, cl')" "moved R N e key (cl_data R N cl) cl cl'"
      using reject_result [where handler = ?h, OF r ss(1)] by blast
    with False show thesis
      by (intro absent) (auto simp: ls_RemoveFromList_def ls_Remove_reply_def)
  qed
qed

text \<open>An append to an absent or empty list calls nobody; it keeps the caches coherent only
  when nobody holds the lease of the key.  Nobody can hold the lease of an absent key.\<close>

lemma absent_unleased:
  assumes "ready R N h cl" and "cl_data R N cl key = None"
  shows "unleased cl key"
  unfolding unleased_def
proof (intro allI impI notI)
  fix g ls assume l: "cl_libs cl g = Some ls" and gr: "granted ls key"
  have "lib_inv ls" using cl_wf_lib [OF _ l] assms(1) by (auto simp: ready_def lib_ok_def)
  then obtain vs where "ls_cache ls key = Some vs" using lib_inv_granted gr by blast
  moreover have "ls_cache ls key = cl_data R N cl key"
    using coherentD [OF _ l gr] assms(1) by (auto simp: ready_def)
  ultimately show False using assms(2) by simp
qed

lemma ls_Append_result:
  assumes "ready R N h cl" and "timely R N e cl key"
    and "cl_data R N cl key = Some [] \<Longrightarrow> unleased cl key"
  obtains (fresh) vs ws cl' where "vs = (case cl_data R N cl key of None \<Rightarrow> [] | Some vs \<Rightarrow> vs)"
      and "v \<notin> set vs" and "ls_AppendToList e h key v cl = Inr (None, cl')"
      and "moved R N e key ((cl_data R N cl)(key \<mapsto> ws)) cl cl'" and "ssorted ws" and "set ws = insert v (set vs)"
  | (present) vs cl' where "cl_data R N cl key = Some vs" and "v \<in> set vs"
      and "ls_AppendToList e h key v cl = Inr (Some (Err (''Item '' @ v @ '' exists under key '' @ key)), cl')" and "moved R N e key (cl_data R N cl) cl cl'"
proof -
  have r: "cl_wf R N cl" "coherent R N cl" "cl_libs cl h \<noteq> None" using assms(1) by (auto simp: ready_def)
  obtain ss where ss: "server_for R N cl key = Some ss" "serving (server_env e cl) ss key"
    "ss_storage ss key = cl_data R N cl key"
    by (rule ready_owner [OF assms(1)])
  let ?h = "ss_AppendToList (server_env e cl) \<lparr>pa_Key = key, pa_Value = v\<rparr>"
  note defs = ls_AppendToList_def ls_Append_reply_def
  consider (empty) "cl_data R N cl key = None \<or> cl_data R N cl key = Some []"
    | (old) vs where "cl_data R N cl key = Some vs" "v \<in> set vs"
    | (new) vs where "cl_data R N cl key = Some vs" "vs \<noteq> []" "v \<notin> set vs"
    by (cases "cl_data R N cl key") auto
  then show thesis
  proof cases
    case empty
    then have hd: "?h ss = Inr (\<lparr>pr_Status = OK\<rparr>, [], ss\<lparr>ss_storage := (ss_storage ss)(key \<mapsto> [v])\<rparr>)"
      using ss_Append_unleased [OF ss(2)] ss(3) by simp
    have upd: "key_update key (Some [v]) (tenants_of ss key) ss
        (ss\<lparr>ss_storage := (ss_storage ss)(key \<mapsto> [v])\<rparr>)"
      by (rule key_update_store [OF serving_inv [OF ss(2)]]) simp
    obtain cl' where cl': "route_call h key ?h cl = Inr (Inr \<lparr>pr_Status = OK\<rparr>, cl')"
      "called R N key (Some [v]) (tenants_of ss key) [] cl cl'"
      by (rule route_call_result [where handler = ?h, OF r(1,3) ss(1) hd upd]) simp_all
    have "unleased cl key" using empty absent_unleased [OF assms(1)] assms(3) by blast
    then have "unleased cl' key" using unleased_down cl'(2) by (auto simp: called_def)
    then have "moved R N e key ((cl_data R N cl)(key \<mapsto> [v])) cl cl'"
      using moved_called [OF r(2) cl'(2), of e] ss(1) by (simp add: unleased_def cl_tenants_def)
    then show thesis
      by (intro fresh [of "[]" cl' "[v]"]) (use empty cl'(1) in \<open>auto simp: defs write_call_def\<close>)
  next
    case (old vs)
    have "?h ss = Inr (\<lparr>pr_Status = ItemExists\<rparr>, [], ss)"
      by (rule ss_Append_present [OF ss(2) _ old(2)]) (use ss(3) old in simp)
    then obtain cl' where "write_call h key ?h (ls_Append_reply key v) cl =
        Inr (ls_Append_reply key v \<lparr>pr_Status = ItemExists\<rparr>, cl')" "moved R N e key (cl_data R N cl) cl cl'"
      using reject_result [where handler = ?h, OF r ss(1)] by blast
    with old show thesis by (intro present) (auto simp: defs)
  next
    case (new vs)
    obtain calls ss' where app: "?h ss = Inr (\<lparr>pr_Status = OK\<rparr>, calls, ss')"
      "wrote (server_env e cl) ss key (Some (ins_at_rank vs v)) calls ss'"
      by (rule ss_Append_serving [OF ss(2) _ new(2,3)]) (use ss(3) new in simp_all)
    have ws: "ssorted (ins_at_rank vs v)"
      by (rule ssorted_ins_at_rank [OF serving_sorted [OF ss(2)] new(3)]) (use ss(3) new in simp)
    obtain cl' where "write_call h key ?h (ls_Append_reply key v) cl =
        Inr (ls_Append_reply key v \<lparr>pr_Status = OK\<rparr>, cl')"
      "moved R N e key ((cl_data R N cl)(key \<mapsto> ins_at_rank vs v)) cl cl'"
      by (rule write_result [where handler = ?h, OF r(1,2) assms(2) r(3) ss(1) app]) (use ws in simp_all)
    with new ws show thesis by (intro fresh [of vs cl' "ins_at_rank vs v"]) (auto simp: defs)
  qed
qed

subsection \<open>Reads\<close>

lemma moved_refl: "ready R N h cl \<Longrightarrow> moved R N e key (cl_data R N cl) cl cl"
  by (simp add: moved_def ready_def)

lemma moved_trans:
  assumes "moved R N e key d a b" and "moved R N e key d' b c"
  shows "moved R N e key d' a c"
proof -
  have "r \<in> set (cl_tenants R N a k) \<or> new_record e r" if "r \<in> set (cl_tenants R N c k)" for k r
    using assms that unfolding moved_def by blast
  moreover have "unleased c k" if "k \<noteq> key" "unleased a k" for k
    using assms that unfolding moved_def by blast
  ultimately show ?thesis using assms unfolding moved_def by simp
qed

lemma moved_ready: "ready R N h cl \<Longrightarrow> moved R N e key d cl cl' \<Longrightarrow> ready R N h cl'"
  unfolding moved_def ready_def by blast

lemma moved_data: "moved R N e key d cl cl' \<Longrightarrow> cl_data R N cl' = d"
  by (simp add: moved_def)

text \<open>The libstore of the caller gives leases up.\<close>

lemma moved_down:
  assumes "ready R N h cl" and "cl_libs cl h = Some ls" and "conn_down ls ls'"
  shows "moved R N e key (cl_data R N cl) cl (set_lib h ls' cl)"
proof -
  have r: "cl_wf R N cl" "coherent R N cl" using assms(1) by (auto simp: ready_def)
  have "lib_ok R N h ls'" using lib_ok_down [OF cl_wf_lib [OF r(1) assms(2)] assms(3)] .
  then have wf: "cl_wf R N (set_lib h ls' cl)" using cl_wf_set_lib r(1) by blast
  have down: "lib_down ls ls'" using assms(3) by (simp add: conn_down_def)
  have "h \<in> lease_host ` set (cl_tenants R N cl k) \<and> ls_cache ls' k = cl_data R N cl k"
    if "granted ls' k" for k
    using coherentD [OF r(2) assms(2)] lib_downD(3,4) [OF down that] by simp
  then have "coherent R N (set_lib h ls' cl)"
    using r(2) unfolding coherent_def by auto
  moreover have "unleased (set_lib h ls' cl) k" if "unleased cl k" for k
    using that assms(2) lib_downD(3) [OF down] by (auto simp: unleased_def)
  ultimately show ?thesis using wf assms(2) by (auto simp: moved_def)
qed

text \<open>It takes a value with a lease in.\<close>

lemma moved_stored:
  assumes "ready R N h cl" and "cl_libs cl h = Some ls" and "stored key want g vs ls ls'"
    and "want \<longrightarrow> cl_data R N cl key = Some vs \<and> h \<in> lease_host ` set (cl_tenants R N cl key)"
  shows "moved R N e key (cl_data R N cl) cl (set_lib h ls' cl)"
proof -
  have r: "cl_wf R N cl" "coherent R N cl" using assms(1) by (auto simp: ready_def)
  have "lib_ok R N h ls'"
    using cl_wf_lib [OF r(1) assms(2)] assms(3) by (auto simp: lib_ok_def stored_def lib_frame_def lib_conns_wf_def)
  then have wf: "cl_wf R N (set_lib h ls' cl)" using cl_wf_set_lib r(1) by blast
  have "h \<in> lease_host ` set (cl_tenants R N cl k) \<and> ls_cache ls' k = cl_data R N cl k"
    if "granted ls' k" for k
    using that assms(3,4) coherentD [OF r(2) assms(2), of k]
    by (cases "k = key \<and> want") (auto simp: stored_def)
  then have "coherent R N (set_lib h ls' cl)"
    using r(2) unfolding coherent_def by auto
  moreover have "unleased (set_lib h ls' cl) k" if "unleased cl k" "k \<noteq> key" for k
    using that assms(2,3) by (auto simp: unleased_def stored_def)
  ultimately show ?thesis using wf assms(2) by (auto simp: moved_def)
qed

lemma key_update_leased:
  assumes "ss_inv ss" and "leased now ss args ss'"
  shows "key_update (ga_Key args) (ss_storage ss (ga_Key args)) (tenants_of ss' (ga_Key args)) ss ss'"
  using ss_inv_leased [OF assms] assms(2)
  by (elim leasedE) (auto simp: key_update_def tenants_of_def)

lemma leased_tenants:
  assumes "leased now ss args ss'"
  shows "set (tenants_of ss (ga_Key args)) \<subseteq> set (tenants_of ss' (ga_Key args))"
    and "set (tenants_of ss' (ga_Key args)) \<subseteq>
      insert (FormatLeaseRecord (ga_HostPort args) now) (set (tenants_of ss (ga_Key args)))"
proof -
  have "set (tenants_of ss (ga_Key args)) \<subseteq> set (tenants_of ss' (ga_Key args)) \<and>
    set (tenants_of ss' (ga_Key args)) \<subseteq>
      insert (FormatLeaseRecord (ga_HostPort args) now) (set (tenants_of ss (ga_Key args)))"
  proof (cases "ga_WantLease args \<and> ss_storage ss (ga_Key args) \<noteq> None")
    case True
    have upd: "tenants_of (ss\<lparr>ss_tenants := t(k \<mapsto> ts)\<rparr>) k = ts" for t k ts by (simp add: tenants_of_def)
    from assms obtain ts where
      "ss' = ss\<lparr>ss_tenants := (ss_tenants ss)(ga_Key args \<mapsto> ts)\<rparr>"
      "set ts = (if ga_HostPort args \<in> holders ss (ga_Key args) then set (tenants_of ss (ga_Key args))
                 else insert (FormatLeaseRecord (ga_HostPort args) now) (set (tenants_of ss (ga_Key args))))"
      unfolding leased_def if_P [OF True] by blast
    then show ?thesis by (auto simp: upd)
  next
    case False
    then have "ss' = ss" using assms by (simp add: leased_def)
    then show ?thesis by auto
  qed
  then show "set (tenants_of ss (ga_Key args)) \<subseteq> set (tenants_of ss' (ga_Key args))"
    "set (tenants_of ss' (ga_Key args)) \<subseteq>
      insert (FormatLeaseRecord (ga_HostPort args) now) (set (tenants_of ss (ga_Key args)))" by auto
qed

text \<open>The RPC of a read.\<close>

lemma read_call:
  assumes "ready R N h cl" and "cl_libs cl h = Some ls" and "server_for R N cl key = Some ss"
    and "handler ss = Inr (reply, [], ss')"
    and "leased (srv_clk e 0) ss \<lparr>ga_Key = key, ga_WantLease = want, ga_HostPort = h\<rparr> ss'"
  obtains cl' ls' where "route_call h key handler cl = Inr (Inr reply, cl')"
    and "moved R N e key (cl_data R N cl) cl cl'" and "cl_libs cl' h = Some ls'"
    and "ls_records ls' = ls_records ls" and "lib_inv ls'" and "ls_mode ls' = ls_mode ls"
    and "want \<and> cl_data R N cl key \<noteq> None \<Longrightarrow> h \<in> lease_host ` set (cl_tenants R N cl' key)"
proof -
  let ?args = "\<lparr>ga_Key = key, ga_WantLease = want, ga_HostPort = h\<rparr>"
  have r: "cl_wf R N cl" "coherent R N cl" "cl_libs cl h \<noteq> None" using assms(1) by (auto simp: ready_def)
  have tilde: "CHR ''~'' \<notin> set h" using cl_wf_lib [OF r(1) assms(2)] by (simp add: lib_ok_def)
  have "serving (server_env undefined cl) ss key"
    by (rule cl_wf_serving [OF r(1) assms(3)]) (simp add: server_env_def)
  from key_update_leased [OF serving_inv [OF this] assms(5)] have
    upd: "key_update key (ss_storage ss key) (tenants_of ss' key) ss ss'" by simp
  have ts: "set (tenants_of ss key) \<subseteq> set (tenants_of ss' key)"
    "set (tenants_of ss' key) \<subseteq> insert (FormatLeaseRecord h (srv_clk e 0)) (set (tenants_of ss key))"
    using leased_tenants [OF assms(5)] by simp_all
  then have src: "\<forall>r\<in>set (tenants_of ss' key). r \<in> set (tenants_of ss key) \<or> lease_host r = h"
    using tilde by auto
  obtain cl' where cl': "route_call h key handler cl = Inr (Inr reply, cl')"
    "called R N key (ss_storage ss key) (tenants_of ss' key) [] cl cl'"
    by (rule route_call_result [where handler = handler, OF r(1,3) assms(3,4) upd _ src]) simp_all
  have same: "cl_data R N cl key = ss_storage ss key" "cl_tenants R N cl key = tenants_of ss key"
    using assms(3) by (simp_all add: cl_data_def cl_tenants_def)
  have new: "\<forall>r\<in>set (tenants_of ss' key). r \<in> set (tenants_of ss key) \<or> new_record e r"
    using ts(2) tilde by (auto simp: new_record_def)
  have m: "moved R N e key (cl_data R N cl) cl cl'"
    using moved_called [OF r(2) cl'(2), of e] same new ts(1) by (simp add: fun_upd_idem image_mono)
  then obtain ls' where ls': "cl_libs cl' h = Some ls'" 
    using assms(2) unfolding moved_def by (metis domD domI)
  have down: "libs_down cl cl'" using cl'(2) by (simp add: called_def)
  have "lib_down ls ls'" using libs_downD [OF down ls'] assms(2) by (metis option.inject)
  then have inv: "lib_inv ls'" "ls_mode ls' = ls_mode ls"
    by (auto simp: lib_down_def lib_frame_def)
  have rec: "ls_records ls' = ls_records ls" using cl'(2) assms(2) ls' by (auto simp: called_def)
  show thesis
  proof (rule that [OF cl'(1) m ls' rec inv])
    assume w: "want \<and> cl_data R N cl key \<noteq> None"
    then have "holders ss' key = insert h (holders ss key)"
      using leased_holders [OF assms(5)] same by simp
    then show "h \<in> lease_host ` set (cl_tenants R N cl' key)"
      using cl'(2) by (simp add: called_def holders_def)
  qed
qed

lemma lib_ok_host: "ready R N h cl \<Longrightarrow> cl_libs cl h = Some ls \<Longrightarrow> lib_ok R N h ls"
  using cl_wf_lib by (auto simp: ready_def)

lemma moved_host: "ready R N h cl \<Longrightarrow> moved R N e key d cl cl' \<Longrightarrow> \<exists>ls. cl_libs cl' h = Some ls"
  unfolding moved_def ready_def by (metis domD domI option.exhaust)

text \<open>The first critical section of a read.\<close>

lemma lookup_call:
  assumes "ready R N h cl" and "cl_libs cl h = Some ls"
  obtains (hit) vs ls' where "ls_lookup (lib_clk e) key ls = Inr (Hit vs, ls')"
      and "moved R N e key (cl_data R N cl) cl (set_lib h ls' cl)" and "cl_data R N cl key = Some vs"
  | (miss) want ls' where "ls_lookup (lib_clk e) key ls = Inr (Miss want (ls_records ls' key), ls')"
      and "moved R N e key (cl_data R N cl) cl (set_lib h ls' cl)" and "want \<longrightarrow> ls_mode ls' \<noteq> Never"
      and "ls_hostPort ls' = h"
proof -
  have ok: "lib_ok R N h ls" using lib_ok_host [OF assms] .
  then have inv: "lib_inv ls" by (simp add: lib_ok_def)
  obtain lk ls' where l: "ls_lookup (lib_clk e) key ls = Inr (lk, ls')" "lookup_ok (lib_clk e 0) key ls lk"
    "lib_down ls ls'" "ls_records ls' = ls_records ls" "ls_conns ls' = ls_conns ls"
    by (rule ls_lookup_result [OF inv])
  have frame: "ls_hostPort ls' = ls_hostPort ls" "ls_mode ls' = ls_mode ls" "ls_nodes ls' = ls_nodes ls"
    using l(3) by (auto simp: lib_down_def lib_frame_def)
  have m: "moved R N e key (cl_data R N cl) cl (set_lib h ls' cl)"
    by (rule moved_down [OF assms]) (use l(3,5) frame in \<open>simp add: conn_down_def lib_conns_wf_def\<close>)
  show thesis
  proof (cases lk)
    case (Hit vs)
    then have "granted ls key" "ls_cache ls key = Some vs" using l(2) by (auto simp: lookup_ok_def)
    then have "cl_data R N cl key = Some vs"
      using coherentD [of R N cl h ls key] assms by (simp add: ready_def)
    with Hit l(1) m show thesis by (intro hit) auto
  next
    case (Miss want rec)
    with l m frame ok show thesis by (intro miss) (auto simp: lookup_ok_def lib_ok_def)
  qed
qed

text \<open>The second one.\<close>

lemma store_call:
  assumes "ready R N h cl" and "cl_libs cl h = Some ls" and "lib_inv ls" and "want \<longrightarrow> ls_mode ls \<noteq> Never"
    and "want \<longrightarrow> cl_data R N cl key = Some vs \<and> h \<in> lease_host ` set (cl_tenants R N cl key)"
  obtains ls' where "ls_store now key want (ls_records ls key) lease vs ls = Inr ls'"
    and "moved R N e key (cl_data R N cl) cl (set_lib h ls' cl)"
  using ls_store_result [OF assms(3,4)] moved_stored [OF assms(1,2) _ assms(5)] by metis

text \<open>The reply of the owner, by the data of the key.\<close>

definition get_reply :: "bool \<Rightarrow> string list option \<Rightarrow> GetReply" where
  "get_reply want d =
     (case d of
        None \<Rightarrow> zero_GetReply\<lparr>gr_Status := KeyNotFound\<rparr>
      | Some vs \<Rightarrow> \<lparr>gr_Status = OK, gr_Value = (if vs = [] then [] else vs ! 0),
                    gr_Lease = (if want then granted_lease else zero_Lease)\<rparr>)"

definition get_list_reply :: "bool \<Rightarrow> string list option \<Rightarrow> GetListReply" where
  "get_list_reply want d =
     (case d of
        None \<Rightarrow> zero_GetListReply\<lparr>glr_Status := KeyNotFound\<rparr>
      | Some vs \<Rightarrow> \<lparr>glr_Status = OK, glr_Value = vs,
                    glr_Lease = (if want then granted_lease else zero_Lease)\<rparr>)"

lemma owner_get_reply:
  fixes want :: bool
  assumes "serving e' ss key" and "CHR ''~'' \<notin> set h"
  defines "args \<equiv> \<lparr>ga_Key = key, ga_WantLease = want, ga_HostPort = h\<rparr>"
  shows "\<exists>ss'. no_calls (ss_Get e' args ss) = Inr (get_reply want (ss_storage ss key), [], ss') \<and>
      leased (clk e' 0) ss args ss'"
proof -
  obtain ss' where "ss_Get e' args ss =
      Inr (\<lparr>gr_Status = fst (kv_get key (abs_kv (ss_storage ss))),
           gr_Value = snd (kv_get key (abs_kv (ss_storage ss))), gr_Lease = lease_of ss args\<rparr>, ss')"
    "leased (clk e' 0) ss args ss'"
    using ss_Get_serving [of e' ss args] assms(1,2) by (auto simp: args_def)
  then show ?thesis
    using ssorted_hd_Min [OF serving_sorted [OF assms(1)]]
    by (cases "ss_storage ss key")
      (auto simp: no_calls_def get_reply_def kv_get_def abs_kv_absent abs_kv_Some lease_of_def args_def)
qed

lemma owner_get_list_reply:
  fixes want :: bool
  assumes "serving e' ss key" and "CHR ''~'' \<notin> set h"
  defines "args \<equiv> \<lparr>ga_Key = key, ga_WantLease = want, ga_HostPort = h\<rparr>"
  shows "\<exists>ss'. no_calls (ss_GetList e' args ss) = Inr (get_list_reply want (ss_storage ss key), [], ss') \<and>
      leased (clk e' 0) ss args ss'"
proof -
  obtain ss' where "ss_GetList e' args ss =
      Inr (\<lparr>glr_Status = fst (kv_get_list key (abs_kv (ss_storage ss))),
           glr_Value = snd (kv_get_list key (abs_kv (ss_storage ss))), glr_Lease = lease_of ss args\<rparr>, ss')"
    "leased (clk e' 0) ss args ss'"
    using ss_GetList_serving [of e' ss args] assms(1,2) by (auto simp: args_def)
  then show ?thesis
    using ssorted_list_of_set [OF serving_sorted [OF assms(1)]]
    by (cases "ss_storage ss key")
      (auto simp: no_calls_def get_list_reply_def kv_get_list_def abs_kv_absent abs_kv_Some lease_of_def args_def)
qed

text \<open>A miss, up to the second critical section.\<close>

lemma read_miss:
  assumes "ready R N h cl" and "cl_libs cl h = Some ls" and "want \<longrightarrow> ls_mode ls \<noteq> Never"
    and "\<And>ss. serving (server_env e cl) ss key \<Longrightarrow> \<exists>ss'. handler ss = Inr (reply (ss_storage ss key), [], ss') \<and>
       leased (srv_clk e 0) ss \<lparr>ga_Key = key, ga_WantLease = want, ga_HostPort = h\<rparr> ss'"
  obtains cl' ls' where "route_call h key handler cl = Inr (Inr (reply (cl_data R N cl key)), cl')"
    and "moved R N e key (cl_data R N cl) cl cl'" and "cl_libs cl' h = Some ls'" and "ls_records ls' = ls_records ls"
    and "\<And>vs lease. cl_data R N cl key = Some vs \<Longrightarrow>
       \<exists>ls''. ls_store (lib_clk e 2) key want (ls_records ls' key) lease vs ls' = Inr ls'' \<and>
          moved R N e key (cl_data R N cl) cl (set_lib h ls'' cl')"
proof -
  obtain ss where ss: "server_for R N cl key = Some ss" "serving (server_env e cl) ss key"
    "ss_storage ss key = cl_data R N cl key"
    by (rule ready_owner [OF assms(1)])
  obtain ss' where hd: "handler ss = Inr (reply (ss_storage ss key), [], ss')"
    "leased (srv_clk e 0) ss \<lparr>ga_Key = key, ga_WantLease = want, ga_HostPort = h\<rparr> ss'"
    using assms(4) [OF ss(2)] by blast
  obtain cl1 ls1 where c1: "route_call h key handler cl = Inr (Inr (reply (ss_storage ss key)), cl1)"
    "moved R N e key (cl_data R N cl) cl cl1" "cl_libs cl1 h = Some ls1" "ls_records ls1 = ls_records ls"
    "lib_inv ls1" "ls_mode ls1 = ls_mode ls"
    and held: "want \<and> cl_data R N cl key \<noteq> None \<Longrightarrow> h \<in> lease_host ` set (cl_tenants R N cl1 key)"
    by (rule read_call [where handler = handler, OF assms(1,2) ss(1) hd]) (rule that)
  note rd1 = moved_ready [OF assms(1) c1(2)] and data = moved_data [OF c1(2)]
  have "\<exists>ls2. ls_store (lib_clk e 2) key want (ls_records ls1 key) lease vs ls1 = Inr ls2 \<and>
      moved R N e key (cl_data R N cl) cl (set_lib h ls2 cl1)" if "cl_data R N cl key = Some vs" for vs lease
  proof -
    have "want \<longrightarrow> ls_mode ls1 \<noteq> Never"
      "want \<longrightarrow> cl_data R N cl1 key = Some vs \<and> h \<in> lease_host ` set (cl_tenants R N cl1 key)"
      using that data held assms(3) c1(6) by auto
    from store_call [OF rd1 c1(3,5) this] data moved_trans [OF c1(2)] show ?thesis by metis
  qed
  then show thesis using that c1(1-4) ss(3) by metis
qed

lemma clk_server_env [simp]: "clk (server_env e cl) = srv_clk e"
  by (simp add: server_env_def)

lemma set_lib_same: "cl_libs cl h = Some ls \<Longrightarrow> set_lib h ls cl = cl"
  by (simp add: set_lib_def fun_upd_idem)

lemma ls_GetList_result:
  assumes "ready R N h cl"
  obtains (found) vs cl' where "cl_data R N cl key = Some vs" and "ls_GetList e h key cl = Inr (Inr vs, cl')"
      and "moved R N e key (cl_data R N cl) cl cl'"
  | (absent) cl' where "cl_data R N cl key = None" and "ls_GetList e h key cl = Inr (Inl (not_found key), cl')"
      and "moved R N e key (cl_data R N cl) cl cl'"
proof -
  obtain ls where ls: "cl_libs cl h = Some ls" using assms by (auto simp: ready_def)
  from assms ls show thesis
  proof (cases rule: lookup_call [where e = e and key = key])
    case (hit vs ls')
    with ls found show thesis by (simp add: ls_GetList_def own_lib_def)
  next
    case (miss want ls')
    let ?cl = "set_lib h ls' cl"
    let ?h = "\<lambda>ss. no_calls (ss_GetList (server_env e ?cl)
        \<lparr>ga_Key = key, ga_WantLease = want, ga_HostPort = h\<rparr> ss)"
    have rd: "ready R N h ?cl" and lb: "cl_libs ?cl h = Some ls'"
      using moved_ready [OF assms miss(2)] by auto
    have host: "CHR ''~'' \<notin> set h" using lib_ok_host [OF rd lb] by (simp add: lib_ok_def)
    note hd = owner_get_list_reply [OF _ host, where e' = "server_env e ?cl" and key = key and want = want,
        unfolded clk_server_env]
    obtain cl1 ls1 where c1: "route_call h key ?h ?cl = Inr (Inr (get_list_reply want (cl_data R N ?cl key)), cl1)"
      "moved R N e key (cl_data R N ?cl) ?cl cl1" "cl_libs cl1 h = Some ls1" "ls_records ls1 = ls_records ls'"
      and st: "\<And>vs lease. cl_data R N ?cl key = Some vs \<Longrightarrow>
       \<exists>ls2. ls_store (lib_clk e 2) key want (ls_records ls1 key) lease vs ls1 = Inr ls2 \<and>
          moved R N e key (cl_data R N ?cl) ?cl (set_lib h ls2 cl1)"
      by (rule read_miss [where handler = ?h and reply = "get_list_reply want", OF rd lb miss(3) hd]) (assumption, rule that)
    have eq: "ls_GetList e h key cl =
        go_bind (ls_GetList_reply (lib_clk e 2) key want (ls_records ls1 key)
          (get_list_reply want (cl_data R N cl key)) ls1) (\<lambda>(r, ls). Inr (r, set_lib h ls cl1))"
      using ls miss(1,4) c1 by (simp add: ls_GetList_def own_lib_def Let_def)
    show thesis
    proof (cases "cl_data R N cl key")
      case None
      with eq show thesis
        using moved_trans [OF miss(2) c1(2)] c1(3)
        by (intro absent) (auto simp: ls_GetList_reply_def get_list_reply_def set_lib_same)
    next
      case (Some vs)
      with st [of vs "if want then granted_lease else zero_Lease"] obtain ls2 where
        "ls_store (lib_clk e 2) key want (ls_records ls1 key) (if want then granted_lease else zero_Lease) vs ls1 = Inr ls2"
        "moved R N e key (cl_data R N ?cl) ?cl (set_lib h ls2 cl1)" by auto
      with eq Some show thesis
        using moved_trans [OF miss(2)]
        by (intro found) (auto simp: ls_GetList_reply_def get_list_reply_def)
    qed
  qed
qed

text \<open>\<open>Get\<close> caches its single value: it agrees with the data only for keys that hold one.\<close>

lemma ls_Get_result:
  assumes "ready R N h cl" and "\<And>vs. cl_data R N cl key = Some vs \<Longrightarrow> length vs = 1"
  obtains (found) v cl' where "cl_data R N cl key = Some [v]" and "ls_Get e h key cl = Inr (Inr v, cl')"
      and "moved R N e key (cl_data R N cl) cl cl'"
  | (absent) cl' where "cl_data R N cl key = None" and "ls_Get e h key cl = Inr (Inl (not_found key), cl')"
      and "moved R N e key (cl_data R N cl) cl cl'"
proof -
  obtain ls where ls: "cl_libs cl h = Some ls" using assms by (auto simp: ready_def)
  have single: "\<exists>v. vs = [v]" if "cl_data R N cl key = Some vs" for vs
    using assms(2) [OF that] by (cases vs) auto
  from assms(1) ls show thesis
  proof (cases rule: lookup_call [where e = e and key = key])
    case (hit vs ls')
    with single obtain v where "vs = [v]" by blast
    with hit ls show thesis by (intro found [of v "set_lib h ls' cl"]) (simp_all add: ls_Get_def own_lib_def go_index_def)
  next
    case (miss want ls')
    let ?cl = "set_lib h ls' cl"
    let ?h = "\<lambda>ss. no_calls (ss_Get (server_env e ?cl)
        \<lparr>ga_Key = key, ga_WantLease = want, ga_HostPort = h\<rparr> ss)"
    have rd: "ready R N h ?cl" and lb: "cl_libs ?cl h = Some ls'"
      using moved_ready [OF assms(1) miss(2)] by auto
    have host: "CHR ''~'' \<notin> set h" using lib_ok_host [OF rd lb] by (simp add: lib_ok_def)
    note hd = owner_get_reply [OF _ host, where e' = "server_env e ?cl" and key = key and want = want,
        unfolded clk_server_env]
    obtain cl1 ls1 where c1: "route_call h key ?h ?cl = Inr (Inr (get_reply want (cl_data R N ?cl key)), cl1)"
      "moved R N e key (cl_data R N ?cl) ?cl cl1" "cl_libs cl1 h = Some ls1" "ls_records ls1 = ls_records ls'"
      and st: "\<And>vs lease. cl_data R N ?cl key = Some vs \<Longrightarrow>
       \<exists>ls2. ls_store (lib_clk e 2) key want (ls_records ls1 key) lease vs ls1 = Inr ls2 \<and>
          moved R N e key (cl_data R N ?cl) ?cl (set_lib h ls2 cl1)"
      by (rule read_miss [where handler = ?h and reply = "get_reply want", OF rd lb miss(3) hd]) (assumption, rule that)
    have eq: "ls_Get e h key cl =
        go_bind (ls_Get_reply (lib_clk e 2) key want (ls_records ls1 key)
          (get_reply want (cl_data R N cl key)) ls1) (\<lambda>(r, ls). Inr (r, set_lib h ls cl1))"
      using ls miss(1,4) c1 by (simp add: ls_Get_def own_lib_def Let_def)
    show thesis
    proof (cases "cl_data R N cl key")
      case None
      with eq show thesis
        using moved_trans [OF miss(2) c1(2)] c1(3)
        by (intro absent) (auto simp: ls_Get_reply_def get_reply_def set_lib_same)
    next
      case (Some vs)
      with single obtain v where v: "vs = [v]" by blast
      with st [of vs "if want then granted_lease else zero_Lease"] Some obtain ls2 where
        "ls_store (lib_clk e 2) key want (ls_records ls1 key) (if want then granted_lease else zero_Lease) [v] ls1 = Inr ls2"
        "moved R N e key (cl_data R N ?cl) ?cl (set_lib h ls2 cl1)" by auto
      with eq Some v show thesis
        using moved_trans [OF miss(2)]
        by (intro found) (auto simp: ls_Get_reply_def get_reply_def)
    qed
  qed
qed

end
