(* ===== verification/Cluster_Run.thy ===== *)
theory Cluster_Run
  imports Coherence
begin

text \<open>
  Runs of a cluster: sequences of calls made by any of its libstores, interleaved with rounds of
  their recyclers, against a plain map from keys to sets.
\<close>

section \<open>Calls and their outcomes\<close>

datatype lib_op =
    OGet string
  | OGetList string
  | OPut string string
  | ODelete string
  | OAppend string string
  | ORemove string string
  | ORecycle "string list"

text \<open>What the caller gets: an error, whose text does not matter here, or a result.\<close>

datatype outcome = Failed | Done | Value string | Values "string list"

definition of_write :: "go_error option \<Rightarrow> outcome" where
  "of_write err = (case err of None \<Rightarrow> Done | Some _ \<Rightarrow> Failed)"

definition of_read :: "('a \<Rightarrow> outcome) \<Rightarrow> go_error + 'a \<Rightarrow> outcome" where
  "of_read f r = (case r of Inl _ \<Rightarrow> Failed | Inr x \<Rightarrow> f x)"

fun cl_exec :: "cl_env \<Rightarrow> string \<Rightarrow> lib_op \<Rightarrow> cluster \<Rightarrow> (outcome \<times> cluster) go" where
  "cl_exec e h (OGet k) cl = go_bind (ls_Get e h k cl) (\<lambda>(r, cl). Inr (of_read Value r, cl))"
| "cl_exec e h (OGetList k) cl = go_bind (ls_GetList e h k cl) (\<lambda>(r, cl). Inr (of_read Values r, cl))"
| "cl_exec e h (OPut k v) cl = go_bind (ls_Put e h k v cl) (\<lambda>(r, cl). Inr (of_write r, cl))"
| "cl_exec e h (ODelete k) cl = go_bind (ls_Delete e h k cl) (\<lambda>(r, cl). Inr (of_write r, cl))"
| "cl_exec e h (OAppend k v) cl = go_bind (ls_AppendToList e h k v cl) (\<lambda>(r, cl). Inr (of_write r, cl))"
| "cl_exec e h (ORemove k v) cl = go_bind (ls_RemoveFromList e h k v cl) (\<lambda>(r, cl). Inr (of_write r, cl))"
| "cl_exec e h (ORecycle keys) cl = go_bind (ls_recycle (lib_clk e) h keys cl) (\<lambda>cl. Inr (Done, cl))"

text \<open>The same call on a map.\<close>

definition kv_outcome :: "Status \<times> kv \<Rightarrow> outcome \<times> kv" where
  "kv_outcome r = (if fst r = OK then Done else Failed, snd r)"

fun kv_exec :: "lib_op \<Rightarrow> kv \<Rightarrow> outcome \<times> kv" where
  "kv_exec (OGet k) m = (case kv_get k m of (st, v) \<Rightarrow> (if st = OK then Value v else Failed, m))"
| "kv_exec (OGetList k) m = (case kv_get_list k m of (st, vs) \<Rightarrow> (if st = OK then Values vs else Failed, m))"
| "kv_exec (OPut k v) m = kv_outcome (kv_put k v m)"
| "kv_exec (ODelete k) m = kv_outcome (kv_delete k m)"
| "kv_exec (OAppend k v) m = kv_outcome (kv_append k v m)"
| "kv_exec (ORemove k v) m = kv_outcome (kv_remove k v m)"
| "kv_exec (ORecycle keys) m = (Done, m)"

text \<open>When a call is covered: the caller is up; a write finds no lease record of its key run out;
  an append to an empty list finds no lease record; \<open>Get\<close> is used on keys with one value.\<close>

fun admitted :: "u32 list \<Rightarrow> addresses \<Rightarrow> cl_env \<Rightarrow> lib_op \<Rightarrow> cluster \<Rightarrow> bool" where
  "admitted R N e (OGet k) cl \<longleftrightarrow> (case cl_data R N cl k of None \<Rightarrow> True | Some vs \<Rightarrow> length vs = 1)"
| "admitted R N e (OGetList k) cl \<longleftrightarrow> True"
| "admitted R N e (OPut k v) cl \<longleftrightarrow> timely R N e cl k"
| "admitted R N e (ODelete k) cl \<longleftrightarrow> timely R N e cl k"
| "admitted R N e (OAppend k v) cl \<longleftrightarrow>
     timely R N e cl k \<and> (cl_data R N cl k = Some [] \<longrightarrow> cl_tenants R N cl k = [])"
| "admitted R N e (ORemove k v) cl \<longleftrightarrow> timely R N e cl k"
| "admitted R N e (ORecycle keys) cl \<longleftrightarrow> True"

section \<open>One call\<close>

definition exec_ok :: "u32 list \<Rightarrow> addresses \<Rightarrow> lib_op \<Rightarrow> cluster \<Rightarrow> (outcome \<times> cluster) go \<Rightarrow> bool" where
  "exec_ok R N op cl out \<longleftrightarrow>
     (\<exists>r cl'. out = Inr (r, cl') \<and> cl_wf R N cl' \<and> coherent R N cl' \<and>
        dom (cl_libs cl') = dom (cl_libs cl) \<and>
        (r, abs_kv (cl_data R N cl')) = kv_exec op (abs_kv (cl_data R N cl)))"

lemma exec_okI:
  assumes "out = Inr (r, cl')" and "moved R N e key d cl cl'"
    and "(r, abs_kv d) = kv_exec op (abs_kv (cl_data R N cl))"
  shows "exec_ok R N op cl out"
  using assms by (auto simp: exec_ok_def moved_def)

lemma ready_data_sorted:
  assumes "ready R N h cl" and "cl_data R N cl k = Some vs"
  shows "ssorted vs"
proof -
  obtain ss where "serving (server_env undefined cl) ss k" "ss_storage ss k = cl_data R N cl k"
    by (rule ready_owner [OF assms(1)])
  with assms(2) show ?thesis using serving_sorted by metis
qed

lemma exec_Get:
  assumes "ready R N h cl" and "admitted R N e (OGet k) cl"
  shows "exec_ok R N (OGet k) cl (cl_exec e h (OGet k) cl)"
proof (rule ls_Get_result [OF assms(1), of k e])
  fix vs assume "cl_data R N cl k = Some vs"
  then show "length vs = 1" using assms(2) by simp
next
  fix v cl' assume "cl_data R N cl k = Some [v]" "ls_Get e h k cl = Inr (Inr v, cl')"
    and m: "moved R N e k (cl_data R N cl) cl cl'"
  then show ?thesis by (intro exec_okI [OF _ m]) (simp_all add: of_read_def kv_get_def abs_kv_Some)
next
  fix cl' assume "cl_data R N cl k = None" "ls_Get e h k cl = Inr (Inl (not_found k), cl')"
    and m: "moved R N e k (cl_data R N cl) cl cl'"
  then show ?thesis by (intro exec_okI [OF _ m]) (simp_all add: of_read_def kv_get_def abs_kv_absent)
qed

lemma exec_GetList:
  assumes "ready R N h cl"
  shows "exec_ok R N (OGetList k) cl (cl_exec e h (OGetList k) cl)"
proof (rule ls_GetList_result [OF assms(1), of k e])
  fix vs cl' assume d: "cl_data R N cl k = Some vs" and "ls_GetList e h k cl = Inr (Inr vs, cl')"
    and m: "moved R N e k (cl_data R N cl) cl cl'"
  then show ?thesis
    using ssorted_list_of_set [OF ready_data_sorted [OF assms d]]
    by (intro exec_okI [OF _ m]) (simp_all add: of_read_def kv_get_list_def abs_kv_Some)
next
  fix cl' assume "cl_data R N cl k = None" "ls_GetList e h k cl = Inr (Inl (not_found k), cl')"
    and m: "moved R N e k (cl_data R N cl) cl cl'"
  then show ?thesis by (intro exec_okI [OF _ m]) (simp_all add: of_read_def kv_get_list_def abs_kv_absent)
qed

lemma abs_kv_upd_option: "abs_kv (m(k := v)) = (abs_kv m)(k := map_option set v)"
  by (auto simp: abs_kv_def)

lemma exec_Put_Delete:
  assumes "ready R N h cl" and "timely R N e cl k"
  shows "exec_ok R N (OPut k v) cl (cl_exec e h (OPut k v) cl)"
    and "exec_ok R N (ODelete k) cl (cl_exec e h (ODelete k) cl)"
proof -
  obtain cl' where "ls_Put e h k v cl = Inr (None, cl')"
    and m: "moved R N e k ((cl_data R N cl)(k \<mapsto> [v])) cl cl'"
    by (rule ls_Put_result [OF assms])
  then show "exec_ok R N (OPut k v) cl (cl_exec e h (OPut k v) cl)"
    by (intro exec_okI [OF _ m]) (simp_all add: of_write_def kv_outcome_def kv_put_def abs_kv_upd_option)
  obtain cl1 where "ls_Delete e h k cl = Inr (if cl_data R N cl k = None then Some (not_found k) else None, cl1)"
    and m1: "moved R N e k ((cl_data R N cl)(k := None)) cl cl1"
    by (rule ls_Delete_result [OF assms])
  then show "exec_ok R N (ODelete k) cl (cl_exec e h (ODelete k) cl)"
    by (cases "cl_data R N cl k"; intro exec_okI [OF _ m1])
      (simp_all add: of_write_def kv_outcome_def kv_delete_def abs_kv_upd_option abs_kv_Some abs_kv_absent fun_upd_idem)
qed

lemma no_record_unleased:
  "coherent R N cl \<Longrightarrow> cl_tenants R N cl k = [] \<Longrightarrow> unleased cl k"
  using coherentD by (fastforce simp: unleased_def)

lemma exec_Append:
  assumes "ready R N h cl" and "admitted R N e (OAppend k v) cl"
  shows "exec_ok R N (OAppend k v) cl (cl_exec e h (OAppend k v) cl)"
proof (rule ls_Append_result [OF assms(1), of e k v])
  fix vs ws cl'
  assume "vs = (case cl_data R N cl k of None \<Rightarrow> [] | Some vs \<Rightarrow> vs)" "v \<notin> set vs"
    "ls_AppendToList e h k v cl = Inr (None, cl')" "set ws = insert v (set vs)"
    and m: "moved R N e k ((cl_data R N cl)(k \<mapsto> ws)) cl cl'"
  then show ?thesis
    by (cases "cl_data R N cl k"; intro exec_okI [OF _ m])
      (simp_all add: of_write_def kv_outcome_def kv_append_def abs_kv_upd_option abs_kv_Some abs_kv_absent)
next
  fix vs err cl'
  assume "cl_data R N cl k = Some vs" "v \<in> set vs" "ls_AppendToList e h k v cl = Inr (Some err, cl')"
    and m: "moved R N e k (cl_data R N cl) cl cl'"
  then show ?thesis
    by (intro exec_okI [OF _ m]) (simp_all add: of_write_def kv_outcome_def kv_append_def abs_kv_Some)
qed (use assms no_record_unleased in \<open>auto simp: ready_def\<close>)

lemma exec_Remove:
  assumes "ready R N h cl" and "timely R N e cl k"
  shows "exec_ok R N (ORemove k v) cl (cl_exec e h (ORemove k v) cl)"
proof (rule ls_Remove_result [OF assms, of v])
  fix vs ws cl'
  assume "cl_data R N cl k = Some vs" "v \<in> set vs" "ls_RemoveFromList e h k v cl = Inr (None, cl')"
    "set ws = set vs - {v}" and m: "moved R N e k ((cl_data R N cl)(k \<mapsto> ws)) cl cl'"
  then show ?thesis
    by (intro exec_okI [OF _ m])
      (simp_all add: of_write_def kv_outcome_def kv_remove_def abs_kv_upd_option abs_kv_Some)
next
  fix err cl'
  assume "\<forall>vs. cl_data R N cl k = Some vs \<longrightarrow> v \<notin> set vs"
    "ls_RemoveFromList e h k v cl = Inr (Some err, cl')" and m: "moved R N e k (cl_data R N cl) cl cl'"
  then show ?thesis
    by (cases "cl_data R N cl k"; intro exec_okI [OF _ m])
      (simp_all add: of_write_def kv_outcome_def kv_remove_def abs_kv_Some abs_kv_absent)
qed

lemma exec_Recycle:
  assumes "ready R N h cl"
  shows "exec_ok R N (ORecycle keys) cl (cl_exec e h (ORecycle keys) cl)"
proof -
  obtain ls where ls: "cl_libs cl h = Some ls" using assms by (auto simp: ready_def)
  have ok: "lib_ok R N h ls" using lib_ok_host [OF assms ls] .
  then have inv: "lib_inv ls" by (simp add: lib_ok_def)
  obtain ls' where l: "recycle_round (lib_clk e) 0 keys ls = Inr ls'" "lib_down ls ls'"
    "ls_conns ls' = ls_conns ls"
    using recycle_round_result [OF inv] by blast
  have "conn_down ls ls'" using l(2,3) by (simp add: conn_down_def lib_conns_wf_def lib_down_def lib_frame_def)
  from moved_down [OF assms ls this, of e k] l(1) ls show ?thesis
    by (intro exec_okI) (auto simp: ls_recycle_def own_lib_def)
qed

lemma exec_admitted:
  assumes "ready R N h cl" and "admitted R N e op cl"
  shows "exec_ok R N op cl (cl_exec e h op cl)"
  using assms exec_Get exec_GetList exec_Put_Delete exec_Append exec_Remove exec_Recycle
  by (cases op) (auto simp del: cl_exec.simps kv_exec.simps)

section \<open>Runs\<close>

type_synonym call = "cl_env \<times> string \<times> lib_op"

fun cl_run :: "call list \<Rightarrow> cluster \<Rightarrow> (outcome list \<times> cluster) go" where
  "cl_run [] cl = Inr ([], cl)"
| "cl_run ((e, h, op) # calls) cl =
     go_bind (cl_exec e h op cl) (\<lambda>(r, cl). go_bind (cl_run calls cl) (\<lambda>(rs, cl). Inr (r # rs, cl)))"

fun kv_run :: "call list \<Rightarrow> kv \<Rightarrow> outcome list \<times> kv" where
  "kv_run [] m = ([], m)"
| "kv_run ((e, h, op) # calls) m =
     (case kv_exec op m of (r, m) \<Rightarrow> case kv_run calls m of (rs, m) \<Rightarrow> (r # rs, m))"

fun admitted_run :: "u32 list \<Rightarrow> addresses \<Rightarrow> call list \<Rightarrow> cluster \<Rightarrow> bool" where
  "admitted_run R N [] cl \<longleftrightarrow> True"
| "admitted_run R N ((e, h, op) # calls) cl \<longleftrightarrow>
     cl_libs cl h \<noteq> None \<and> admitted R N e op cl \<and>
     (case cl_exec e h op cl of Inl _ \<Rightarrow> True | Inr (_, cl') \<Rightarrow> admitted_run R N calls cl')"

lemma cl_run_refines:
  assumes "cl_wf R N cl" and "coherent R N cl" and "admitted_run R N calls cl"
  shows "\<exists>rs cl'. cl_run calls cl = Inr (rs, cl') \<and> cl_wf R N cl' \<and> coherent R N cl' \<and>
    (rs, abs_kv (cl_data R N cl')) = kv_run calls (abs_kv (cl_data R N cl))"
  using assms
proof (induction calls arbitrary: cl)
  case Nil
  then show ?case by simp
next
  case (Cons c calls)
  obtain e h op where c: "c = (e, h, op)" by (cases c)
  have "ready R N h cl" "admitted R N e op cl" using Cons.prems by (auto simp: c ready_def)
  from exec_admitted [OF this] obtain r cl1 where
    1: "cl_exec e h op cl = Inr (r, cl1)" "cl_wf R N cl1" "coherent R N cl1"
    "kv_exec op (abs_kv (cl_data R N cl)) = (r, abs_kv (cl_data R N cl1))"
    unfolding exec_ok_def by metis
  have "admitted_run R N calls cl1" using Cons.prems(3) 1(1) by (simp add: c)
  from Cons.IH [OF 1(2,3) this] obtain rs cl' where
    "cl_run calls cl1 = Inr (rs, cl')" "cl_wf R N cl'" "coherent R N cl'"
    "kv_run calls (abs_kv (cl_data R N cl1)) = (rs, abs_kv (cl_data R N cl'))" by metis
  with 1 show ?case by (simp add: c)
qed

end
