(* ===== verification/Cluster_Props.thy ===== *)
theory Cluster_Props
  imports Cluster_Run
begin

text \<open>
  The properties of the libstore: alone (its lookups, its invariant, what goes wrong between its two
  critical sections) and over a cluster of storage servers.
\<close>

section \<open>A small cluster\<close>

text \<open>One storage server, the libstores of two app servers, and calls at a fixed time.\<close>

definition demo_node :: storageServer where
  "demo_node = \<lparr>ss_nodeID = 5, ss_ring = [5], ss_nodes = [(5, ''s:1'')], ss_conns = Map.empty,
     ss_numNodes = 1, ss_storage = Map.empty, ss_tenants = Map.empty\<rparr>"

definition demo_lib :: "string \<Rightarrow> libstore" where
  "demo_lib h = (new_libstore h Normal)\<lparr>ls_ring := [5], ls_nodes := [5 \<mapsto> ''s:1'']\<rparr>"

definition demo_cluster :: cluster where
  "demo_cluster = \<lparr>cl_servers = [''s:1'' \<mapsto> demo_node],
     cl_libs = [''a:1'' \<mapsto> demo_lib ''a:1'', ''b:2'' \<mapsto> demo_lib ''b:2'']\<rparr>"

definition at_time :: "int \<Rightarrow> cl_env" where
  "at_time t = \<lparr>lib_clk = (\<lambda>_. t), srv_clk = (\<lambda>_. t)\<rparr>"

abbreviation demo_ring :: "u32 list" where "demo_ring \<equiv> [5]"

abbreviation demo_addresses :: addresses where "demo_addresses \<equiv> [5 \<mapsto> ''s:1'']"

lemma new_libstore_inv: "lib_inv (new_libstore h m)"
  by (simp add: lib_inv_def new_libstore_def granted_def lrec_def)

lemma demo_lib_inv [simp]: "lib_inv (demo_lib h)" "\<not> granted (demo_lib h) k"
  by (simp_all add: demo_lib_def lib_inv_def new_libstore_def granted_def lrec_def)

lemma demo_owner [simp]: "owner demo_ring k = 5"
  by (simp add: owner_def ring_owner_single)

lemma demo_server_for [simp]: "server_for demo_ring demo_addresses demo_cluster k = Some demo_node"
  by (simp add: server_for_def demo_cluster_def)

lemma demo_no_keys [simp]:
  "cl_data demo_ring demo_addresses demo_cluster k = None"
  "cl_tenants demo_ring demo_addresses demo_cluster k = []"
  by (simp_all add: cl_data_def cl_tenants_def demo_node_def tenants_of_def)

lemma demo_libs: "cl_libs demo_cluster h = Some ls \<Longrightarrow> ls = demo_lib h \<and> h \<in> {''a:1'', ''b:2''}"
  by (auto simp: demo_cluster_def split: if_splits)

lemma demo_wf: "cl_wf demo_ring demo_addresses demo_cluster"
proof -
  have "ss_inv demo_node"
    by (simp add: ss_inv_defs demo_node_def)
  then have "servers_wf demo_ring demo_addresses (cl_servers demo_cluster)"
    by (simp add: servers_wf_def server_ok_def demo_cluster_def demo_node_def)
  moreover have "lib_ok demo_ring demo_addresses h (demo_lib h)" if "h \<in> {''a:1'', ''b:2''}" for h
  proof -
    have "lib_inv (demo_lib h)" by simp
    with that show ?thesis
      by (auto simp: lib_ok_def demo_lib_def new_libstore_def lib_conns_wf_def)
  qed
  then have "libs_wf demo_ring demo_addresses demo_cluster"
    using demo_libs unfolding libs_wf_def by blast
  ultimately show ?thesis by (simp add: cl_wf_def)
qed

lemma demo_coherent: "coherent demo_ring demo_addresses demo_cluster"
  unfolding coherent_def using demo_libs demo_lib_inv(2) by blast

section \<open>Calls over a cluster\<close>

text \<open>C4: on a well-formed cluster with coherent caches, any sequence of calls of any of its
  libstores, interleaved with recycler rounds, returns without a crash, answers every call as a
  plain map from keys to sets answers it (so every cached read returns the stored data), leaves the
  data of that map, and keeps the cluster well formed and its caches coherent.  The calls are
  admitted when each write meets its lease records before they run out, an append to an empty list
  finds no lease record, and \<open>Get\<close> is used on keys that hold one value.\<close>

theorem libstore_calls_refine_map:
  assumes "cl_wf R N cl" and "coherent R N cl" and "admitted_run R N calls cl"
  shows "\<exists>rs cl'. cl_run calls cl = Inr (rs, cl') \<and>
    (rs, abs_kv (cl_data R N cl')) = kv_run calls (abs_kv (cl_data R N cl)) \<and>
    cl_wf R N cl' \<and> coherent R N cl'"
  using cl_run_refines [OF assms] by blast

text \<open>App server \<open>b\<close> reads a key until it holds its lease, app server \<open>a\<close> writes it, \<open>b\<close> reads the new
  value.\<close>

definition demo_calls :: "call list" where
  "demo_calls =
     (let e = at_time 100; k = ''u:usrid''; read = (e, ''b:2'', OGet k) in
      [(e, ''a:1'', OPut k ''1''), read, read, read, read, read, (e, ''a:1'', OPut k ''2''), read])"

lemma demo_calls_admitted: "admitted_run demo_ring demo_addresses demo_calls demo_cluster"
  by code_simp

lemma demo_calls_kv:
  "fst (kv_run demo_calls Map.empty) =
     [Done, Value ''1'', Value ''1'', Value ''1'', Value ''1'', Value ''1'', Done, Value ''2'']"
  by (simp add: demo_calls_def Let_def kv_outcome_def kv_put_def kv_get_def)

lemma demo_no_data: "abs_kv (cl_data demo_ring demo_addresses demo_cluster) = Map.empty"
  by (simp add: abs_kv_def fun_eq_iff)

theorem libstore_calls_refine_map_witness:
  "\<exists>cl'. cl_run demo_calls demo_cluster =
     Inr ([Done, Value ''1'', Value ''1'', Value ''1'', Value ''1'', Value ''1'', Done, Value ''2''], cl') \<and>
     coherent demo_ring demo_addresses cl'"
  using libstore_calls_refine_map [OF demo_wf demo_coherent demo_calls_admitted] demo_calls_kv
  unfolding demo_no_data by (metis fst_conv)

section \<open>Where the caches go wrong\<close>

text \<open>An append to a list that is present but empty does not revoke the leases on it, so that an app
  server which has cached the empty list goes on reading it: the last read below returns no element
  although the append before it succeeded at the same instant.\<close>

lemma stale_read_after_append_to_empty_list:
  "\<exists>cl'. cl_run
       (let e = at_time 100; k = ''u:sublist''; read = (e, ''b:2'', OGetList k) in
        [(e, ''a:1'', OAppend k ''x''), (e, ''a:1'', ORemove k ''x''), read, read, read, read,
         (e, ''a:1'', OAppend k ''y''), read])
       demo_cluster =
     Inr ([Done, Done, Values [], Values [], Values [], Values [], Done, Values []], cl') \<and>
     cl_data demo_ring demo_addresses cl' ''u:sublist'' = Some [''y'']"
proof -
  let ?calls = "let e = at_time 100; k = ''u:sublist''; read = (e, ''b:2'', OGetList k) in
        [(e, ''a:1'', OAppend k ''x''), (e, ''a:1'', ORemove k ''x''), read, read, read, read,
         (e, ''a:1'', OAppend k ''y''), read]"
  have "map_sum id (\<lambda>(rs, cl). (rs, cl_data demo_ring demo_addresses cl ''u:sublist''))
      (cl_run ?calls demo_cluster) =
    Inr ([Done, Done, Values [], Values [], Values [], Values [], Done, Values []], Some [''y''])"
    by code_simp
  then show ?thesis by (cases "cl_run ?calls demo_cluster") auto
qed

text \<open>Every hit extends the validity of a lease on the client, but not the record on the server.
  A reader that queries a key every ten seconds still reads the old value when a write is accepted
  thirteen seconds after the lease was granted, since the server takes the lease for expired and
  calls nobody.\<close>

lemma stale_read_after_extended_lease:
  "\<exists>cl'. cl_run
       (let k = ''u:usrid''; read = (\<lambda>t. (at_time t, ''b:2'', OGet k)) in
        [(at_time 100, ''a:1'', OPut k ''old''), read 100, read 100, read 100, read 100, read 110,
         (at_time 113, ''a:1'', OPut k ''new''), read 113, read 120])
       demo_cluster =
     Inr ([Done, Value ''old'', Value ''old'', Value ''old'', Value ''old'', Value ''old'', Done,
           Value ''old'', Value ''old''], cl') \<and>
     cl_data demo_ring demo_addresses cl' ''u:usrid'' = Some [''new'']"
proof -
  let ?calls = "let k = ''u:usrid''; read = (\<lambda>t. (at_time t, ''b:2'', OGet k)) in
        [(at_time 100, ''a:1'', OPut k ''old''), read 100, read 100, read 100, read 100, read 110,
         (at_time 113, ''a:1'', OPut k ''new''), read 113, read 120]"
  have "map_sum id (\<lambda>(rs, cl). (rs, cl_data demo_ring demo_addresses cl ''u:usrid''))
      (cl_run ?calls demo_cluster) =
    Inr ([Done, Value ''old'', Value ''old'', Value ''old'', Value ''old'', Value ''old'', Done,
          Value ''old'', Value ''old''], Some [''new''])"
    by code_simp
  then show ?thesis by (cases "cl_run ?calls demo_cluster") auto
qed












text \<open>C34: \<open>Get\<close> takes the first of the cached values without looking at their number.  On a key whose empty
  list is cached under a valid lease, the call panics and takes the app server down.\<close>

theorem get_of_cached_empty_list_panics:
  assumes "cl_libs cl h = Some ls" and "lib_inv ls" and "ls_mode ls = Normal" and "ls_cache ls key = Some []"
    and "lrec ls key = Some r" and "Granted r" and "lib_clk e 0 - ValidSeconds r \<le> last (history r)"
  shows "ls_Get e h key cl = Inl IndexOutOfRange"
proof -
  obtain p where p: "ls_records ls key = Some p" using lib_inv_cached [OF assms(2,4)] by blast
  then have r: "ls_heap ls p = Some r" using assms(5) by (simp add: lrec_def)
  then have "history r \<noteq> []" using lib_inv_record [OF assms(2) p] by (metis option.inject)
  then have "ls_lookup (lib_clk e) key ls = Inr (Hit [], assign p (push_history (lib_clk e 1) r) ls)"
    using assms p r by (simp add: ls_lookup_def deref_def last_history Let_def)
  then show ?thesis using assms(1) by (simp add: ls_Get_def own_lib_def go_index_def)
qed

definition empty_list_lib :: libstore where
  "empty_list_lib = (demo_lib ''b:2'')
     \<lparr>ls_cache := [''u:sublist'' \<mapsto> []], ls_records := [''u:sublist'' \<mapsto> 0], ls_next := 1,
      ls_heap := [0 \<mapsto> \<lparr>Granted = True, ValidSeconds = 10, history = [98, 99, 100]\<rparr>]\<rparr>"

theorem get_of_cached_empty_list_panics_witness:
  "ls_Get (at_time 105) ''b:2'' ''u:sublist'' (set_lib ''b:2'' empty_list_lib demo_cluster) = Inl IndexOutOfRange"
  by (rule get_of_cached_empty_list_panics
      [where ls = empty_list_lib and r = "\<lparr>Granted = True, ValidSeconds = 10, history = [98, 99, 100]\<rparr>"])
    (simp_all add: empty_list_lib_def demo_lib_def new_libstore_def lib_inv_def granted_def lrec_def at_time_def)

end
