(* ===== verification/Stw_Rpc.thy ===== *)
theory Stw_Rpc
  imports Go_Prelude
begin

section \<open>The application RPC protocol\<close>

text \<open>
  The constants, argument and reply types of \<open>rpc/stwrpc/proto.go\<close>.  The names carry a prefix
  where \<open>rpc/storagerpc\<close> has the same name; the status of a zero reply is \<open>StwUnset\<close>.
\<close>

datatype StwStatus =
    StwUnset
  | StwOK
  | NoSuchUser
  | NoSuchPost
  | NoSuchTargetUser
  | Exists
  | StwNotReady

record StwNode =
  stw_HostPort :: string

record StwRegisterArgs =
  stw_ServerInfo :: StwNode

record StwRegisterReply =
  sreg_Status :: StwStatus
  sreg_Servers :: "StwNode list"

record StwGetServersReply =
  sgs_Status :: StwStatus
  sgs_Servers :: "StwNode list"

record Post =
  po_UserID :: string
  po_Posted :: string
  po_Contents :: string

record CreateUserArgs =
  cu_UserID :: string

record CreateUserReply =
  cur_Status :: StwStatus

record SubscriptionArgs =
  su_UserID :: string
  su_TargetUserID :: string

record SubscriptionReply =
  sur_Status :: StwStatus

record PostArgs =
  pt_UserID :: string
  pt_Contents :: string

record PostReply =
  ptr_PostKey :: string
  ptr_Status :: StwStatus

record DeletePostArgs =
  dp_UserID :: string
  dp_PostKey :: string

record DeletePostReply =
  dpr_Status :: StwStatus

record TimelineArgs =
  tl_UserID :: string

record TimelineReply =
  tlr_Status :: StwStatus
  tlr_Posts :: "Post list"

definition zero_PostReply :: PostReply where
  "zero_PostReply = \<lparr>ptr_PostKey = [], ptr_Status = StwUnset\<rparr>"

definition zero_TimelineReply :: TimelineReply where
  "zero_TimelineReply = \<lparr>tlr_Status = StwUnset, tlr_Posts = []\<rparr>"

lemmas stw_zero_defs [simp] = zero_PostReply_def zero_TimelineReply_def

end
