(* ===== verification/Libstore_Api.thy ===== *)
theory Libstore_Api
  imports Storage_Correct
begin

section \<open>The libstore as its clients see it\<close>

text \<open>
  \<open>libstore/libstore_api.go\<close>: the Go interface \<open>Libstore\<close> is a record of operations on a world
  \<open>'w\<close>, which stands for everything behind the interface.  The locale states what an application
  server relies on; the theory \<open>Cluster_Store\<close> interprets it on the libstore over a cluster of
  storage servers.
\<close>

record 'w Libstore =
  lib_Get :: "string \<Rightarrow> 'w \<Rightarrow> ((go_error + string) \<times> 'w) go"
  lib_Put :: "string \<Rightarrow> string \<Rightarrow> 'w \<Rightarrow> (go_error option \<times> 'w) go"
  lib_Delete :: "string \<Rightarrow> 'w \<Rightarrow> (go_error option \<times> 'w) go"
  lib_GetList :: "string \<Rightarrow> 'w \<Rightarrow> ((go_error + string list) \<times> 'w) go"
  lib_AppendToList :: "string \<Rightarrow> string \<Rightarrow> 'w \<Rightarrow> (go_error option \<times> 'w) go"
  lib_RemoveFromList :: "string \<Rightarrow> string \<Rightarrow> 'w \<Rightarrow> (go_error option \<times> 'w) go"

text \<open>The world after an operation on a key: the invariant holds, the data is \<open>d\<close>, and a key
  other than the one of the operation that nobody had leased is still not leased.\<close>

definition lib_step ::
  "('w \<Rightarrow> bool) \<Rightarrow> ('w \<Rightarrow> kv) \<Rightarrow> ('w \<Rightarrow> string \<Rightarrow> bool) \<Rightarrow> string \<Rightarrow> kv \<Rightarrow> 'w \<Rightarrow> 'w \<Rightarrow> bool" where
  "lib_step winv data idle k d w w' \<longleftrightarrow>
     winv w' \<and> data w' = d \<and> (\<forall>k'. k' \<noteq> k \<and> idle w k' \<longrightarrow> idle w' k')"

lemma lib_stepD:
  "lib_step winv data idle k d w w' \<Longrightarrow> winv w'" "lib_step winv data idle k d w w' \<Longrightarrow> data w' = d"
  "lib_step winv data idle k d w w' \<Longrightarrow> k' \<noteq> k \<Longrightarrow> idle w k' \<Longrightarrow> idle w' k'"
  by (simp_all add: lib_step_def)

text \<open>An application uses a key either for one value, with \<open>Get\<close> and \<open>Put\<close>, or for a set.  An
  append to a set that is present but empty is only promised to work when nobody has leased it.\<close>

locale libstore_contract =
  fixes L :: "'w Libstore" and winv :: "'w \<Rightarrow> bool" and data :: "'w \<Rightarrow> kv"
    and idle :: "'w \<Rightarrow> string \<Rightarrow> bool"
  assumes finite_data: "winv w \<Longrightarrow> data w k = Some S \<Longrightarrow> finite S"
    and get_value: "winv w \<Longrightarrow> data w k = Some {v} \<Longrightarrow>
      \<exists>w'. lib_Get L k w = Inr (Inr v, w') \<and> lib_step winv data idle k (data w) w w'"
    and get_absent: "winv w \<Longrightarrow> data w k = None \<Longrightarrow>
      \<exists>err w'. lib_Get L k w = Inr (Inl err, w') \<and> lib_step winv data idle k (data w) w w'"
    and get_list: "winv w \<Longrightarrow> data w k = Some S \<Longrightarrow>
      \<exists>w'. lib_GetList L k w = Inr (Inr (sorted_list_of_set S), w') \<and> lib_step winv data idle k (data w) w w'"
    and get_list_absent: "winv w \<Longrightarrow> data w k = None \<Longrightarrow>
      \<exists>err w'. lib_GetList L k w = Inr (Inl err, w') \<and> lib_step winv data idle k (data w) w w'"
    and put: "winv w \<Longrightarrow>
      \<exists>w'. lib_Put L k v w = Inr (None, w') \<and> lib_step winv data idle k ((data w)(k \<mapsto> {v})) w w'"
    and delete: "winv w \<Longrightarrow> data w k = Some S \<Longrightarrow>
      \<exists>w'. lib_Delete L k w = Inr (None, w') \<and> lib_step winv data idle k ((data w)(k := None)) w w'"
    and append: "winv w \<Longrightarrow> data w k = Some {} \<longrightarrow> idle w k \<Longrightarrow>
      \<exists>err w'. lib_AppendToList L k v w = Inr (err, w') \<and>
        (err = None \<longleftrightarrow> fst (kv_append k v (data w)) = OK) \<and>
        lib_step winv data idle k (snd (kv_append k v (data w))) w w'"
    and remove: "winv w \<Longrightarrow>
      \<exists>err w'. lib_RemoveFromList L k v w = Inr (err, w') \<and>
        (err = None \<longleftrightarrow> fst (kv_remove k v (data w)) = OK) \<and>
        lib_step winv data idle k (snd (kv_remove k v (data w))) w w'"

end
