(* ===== verification/Stw_Server.thy ===== *)
theory Stw_Server
  imports Stw_Rpc Key_Formatter Libstore_Api Storage_Server
begin

section \<open>The application server\<close>

text \<open>
  \<open>stwserver/stwserver_impl.go\<close>.  The struct keeps the addresses of the app servers and a
  \<open>Libstore\<close>; a handler passes the world behind the libstore along and returns its reply.  A
  handler that returns an error of its own, which only the two timelines do, has a sum as result.
  The standard library's sort is an argument, since \<open>sort.Sort\<close> does not promise an order among
  equal elements: the locale \<open>go_sort\<close> has what it does promise.
\<close>

record 'w stwServer =
  ts_nodes :: "string list"
  ts_numNodes :: int
  ts_storage :: "'w Libstore"

subsection \<open>Membership\<close>

definition stw_servers :: "string list \<Rightarrow> StwNode list" where
  "stw_servers nodes = map (\<lambda>h. \<lparr>stw_HostPort = h\<rparr>) nodes"

definition stw_RegisterServer ::
  "StwRegisterArgs \<Rightarrow> 'w stwServer \<Rightarrow> (StwRegisterReply \<times> 'w stwServer) go" where
  "stw_RegisterServer args ts =
     (let addr = stw_HostPort (stw_ServerInfo args) in
      go_bind (BinarySearchString (ts_nodes ts) addr) (\<lambda>i.
      go_bind
        (if int (length (ts_nodes ts)) \<le> i then Inr True
         else go_bind (go_index (ts_nodes ts) i) (\<lambda>x. Inr (x \<noteq> addr)))
        (\<lambda>new.
      go_bind
        (if new then
           go_bind (go_insert [] (ts_nodes ts) i addr) (\<lambda>temp. Inr (ts\<lparr>ts_nodes := temp\<rparr>))
         else Inr ts)
        (\<lambda>ts.
          if ts_numNodes ts \<le> int (length (ts_nodes ts)) then
            Inr (\<lparr>sreg_Status = StwOK, sreg_Servers = stw_servers (ts_nodes ts)\<rparr>, ts)
          else Inr (\<lparr>sreg_Status = StwNotReady, sreg_Servers = []\<rparr>, ts)))))"

definition stw_GetServers :: "'w stwServer \<Rightarrow> StwGetServersReply" where
  "stw_GetServers ts =
     (if ts_numNodes ts \<le> int (length (ts_nodes ts)) then
        \<lparr>sgs_Status = StwOK, sgs_Servers = stw_servers (ts_nodes ts)\<rparr>
      else \<lparr>sgs_Status = StwNotReady, sgs_Servers = []\<rparr>)"

subsection \<open>Users and subscriptions\<close>

definition CreateUser ::
  "'w stwServer \<Rightarrow> CreateUserArgs \<Rightarrow> 'w \<Rightarrow> (CreateUserReply \<times> 'w) go" where
  "CreateUser ts args w =
     (let key = FormatUserKey (cu_UserID args) in
      go_bind (lib_Get (ts_storage ts) key w) (\<lambda>(r, w).
        case r of
          Inr _ \<Rightarrow> Inr (\<lparr>cur_Status = Exists\<rparr>, w)
        | Inl _ \<Rightarrow>
            go_bind (lib_Put (ts_storage ts) key [] w) (\<lambda>(_, w).
              Inr (\<lparr>cur_Status = StwOK\<rparr>, w))))"

definition Subscribe ::
  "'w stwServer \<Rightarrow> SubscriptionArgs \<Rightarrow> 'w \<Rightarrow> (SubscriptionReply \<times> 'w) go" where
  "Subscribe ts args w =
     (let sKey = FormatUserKey (su_UserID args);
          tKey = FormatUserKey (su_TargetUserID args);
          slistKey = FormatSubListKey (su_UserID args) in
      go_bind (lib_Get (ts_storage ts) sKey w) (\<lambda>(r, w).
        case r of
          Inl _ \<Rightarrow> Inr (\<lparr>sur_Status = NoSuchUser\<rparr>, w)
        | Inr _ \<Rightarrow>
            go_bind (lib_Get (ts_storage ts) tKey w) (\<lambda>(r, w).
              case r of
                Inl _ \<Rightarrow> Inr (\<lparr>sur_Status = NoSuchTargetUser\<rparr>, w)
              | Inr _ \<Rightarrow>
                  go_bind (lib_AppendToList (ts_storage ts) slistKey (su_TargetUserID args) w) (\<lambda>(err, w).
                    if err \<noteq> None then Inr (\<lparr>sur_Status = Exists\<rparr>, w)
                    else Inr (\<lparr>sur_Status = StwOK\<rparr>, w)))))"

definition Unsubscribe ::
  "'w stwServer \<Rightarrow> SubscriptionArgs \<Rightarrow> 'w \<Rightarrow> (SubscriptionReply \<times> 'w) go" where
  "Unsubscribe ts args w =
     (let sKey = FormatUserKey (su_UserID args);
          tKey = FormatUserKey (su_TargetUserID args);
          slistKey = FormatSubListKey (su_UserID args) in
      go_bind (lib_Get (ts_storage ts) sKey w) (\<lambda>(r, w).
        case r of
          Inl _ \<Rightarrow> Inr (\<lparr>sur_Status = NoSuchUser\<rparr>, w)
        | Inr _ \<Rightarrow>
            go_bind (lib_Get (ts_storage ts) tKey w) (\<lambda>(r, w).
              case r of
                Inl _ \<Rightarrow> Inr (\<lparr>sur_Status = NoSuchTargetUser\<rparr>, w)
              | Inr _ \<Rightarrow>
                  go_bind (lib_RemoveFromList (ts_storage ts) slistKey (su_TargetUserID args) w) (\<lambda>(err, w).
                    if err \<noteq> None then Inr (\<lparr>sur_Status = NoSuchTargetUser\<rparr>, w)
                    else Inr (\<lparr>sur_Status = StwOK\<rparr>, w)))))"

subsection \<open>Posts\<close>

text \<open>\<open>now\<close> is the reading of \<open>time.Now().UnixNano()\<close>.\<close>

definition Post :: "int \<Rightarrow> 'w stwServer \<Rightarrow> PostArgs \<Rightarrow> 'w \<Rightarrow> (PostReply \<times> 'w) go" where
  "Post now ts args w =
     (let key = FormatUserKey (pt_UserID args) in
      go_bind (lib_Get (ts_storage ts) key w) (\<lambda>(r, w).
        case r of
          Inl _ \<Rightarrow> Inr (zero_PostReply\<lparr>ptr_Status := NoSuchUser\<rparr>, w)
        | Inr _ \<Rightarrow>
            let userPostListKey = FormatPostListKey (pt_UserID args);
                postkey = FormatPostKey (pt_UserID args) now in
            go_bind (lib_Put (ts_storage ts) postkey (pt_Contents args) w) (\<lambda>(_, w).
            go_bind (lib_AppendToList (ts_storage ts) userPostListKey postkey w) (\<lambda>(_, w).
              Inr (\<lparr>ptr_PostKey = postkey, ptr_Status = StwOK\<rparr>, w)))))"

definition DeletePost ::
  "'w stwServer \<Rightarrow> DeletePostArgs \<Rightarrow> 'w \<Rightarrow> (DeletePostReply \<times> 'w) go" where
  "DeletePost ts args w =
     (let key = FormatUserKey (dp_UserID args) in
      go_bind (lib_Get (ts_storage ts) key w) (\<lambda>(r, w).
        case r of
          Inl _ \<Rightarrow> Inr (\<lparr>dpr_Status = NoSuchUser\<rparr>, w)
        | Inr _ \<Rightarrow>
            go_bind (ParsePostKey (dp_PostKey args)) (\<lambda>(post_uid, _, err).
              if err \<noteq> None \<or> post_uid \<noteq> dp_UserID args then Inr (\<lparr>dpr_Status = NoSuchPost\<rparr>, w)
              else
                let userPostListKey = FormatPostListKey (dp_UserID args) in
                go_bind (lib_RemoveFromList (ts_storage ts) userPostListKey (dp_PostKey args) w) (\<lambda>(err1, w).
                  if err1 \<noteq> None then Inr (\<lparr>dpr_Status = NoSuchPost\<rparr>, w)
                  else
                    go_bind (lib_Delete (ts_storage ts) (dp_PostKey args) w) (\<lambda>(err2, w).
                      if err2 \<noteq> None then Inr (\<lparr>dpr_Status = NoSuchPost\<rparr>, w)
                      else Inr (\<lparr>dpr_Status = StwOK\<rparr>, w))))))"

subsection \<open>Timelines\<close>

text \<open>The method \<open>Less\<close> of \<open>ByRevChronological\<close>, on the two elements.\<close>

definition ByRevChronological_Less :: "string \<Rightarrow> string \<Rightarrow> bool" where
  "ByRevChronological_Less a b =
     (case (ParsePostKey a, ParsePostKey b) of
        (Inr (_, t1, _), Inr (_, t2, _)) \<Rightarrow> t1 > t2
      | _ \<Rightarrow> False)"

type_synonym sort_fun = "(string \<Rightarrow> string \<Rightarrow> bool) \<Rightarrow> string list \<Rightarrow> string list"

text \<open>The loop of \<open>Timeline\<close> over the sorted keys.\<close>

fun timeline_loop ::
  "'w stwServer \<Rightarrow> int \<Rightarrow> string list \<Rightarrow> Post list \<Rightarrow> 'w \<Rightarrow> ((go_error + Post list) \<times> 'w) go" where
  "timeline_loop ts limit [] posts w = Inr (Inr posts, w)"
| "timeline_loop ts limit (pKey # rest) posts w =
     (if limit \<le> 0 then Inr (Inr posts, w)
      else
        go_bind (lib_Get (ts_storage ts) pKey w) (\<lambda>(r, w).
          case r of
            Inl err \<Rightarrow> Inr (Inl err, w)
          | Inr post \<Rightarrow>
              go_bind (ParsePostKey pKey) (\<lambda>(userID, unixTime, _).
                timeline_loop ts (limit - 1) rest
                  (posts @ [\<lparr>po_UserID = userID, po_Posted = FormatInt16 unixTime, po_Contents = post\<rparr>]) w)))"

definition Timeline ::
  "sort_fun \<Rightarrow> 'w stwServer \<Rightarrow> TimelineArgs \<Rightarrow> 'w \<Rightarrow> ((go_error + TimelineReply) \<times> 'w) go" where
  "Timeline srt ts args w =
     (let key = FormatUserKey (tl_UserID args) in
      go_bind (lib_Get (ts_storage ts) key w) (\<lambda>(r, w).
        case r of
          Inl _ \<Rightarrow> Inr (Inr (zero_TimelineReply\<lparr>tlr_Status := NoSuchUser\<rparr>), w)
        | Inr _ \<Rightarrow>
            go_bind (lib_GetList (ts_storage ts) (FormatPostListKey (tl_UserID args)) w) (\<lambda>(r, w).
              case r of
                Inl _ \<Rightarrow> Inr (Inr (zero_TimelineReply\<lparr>tlr_Status := StwOK\<rparr>), w)
              | Inr postlist \<Rightarrow>
                  go_bind (timeline_loop ts 100 (srt ByRevChronological_Less postlist) [] w) (\<lambda>(r, w).
                    case r of
                      Inl err \<Rightarrow> Inr (Inl err, w)
                    | Inr posts \<Rightarrow> Inr (Inr \<lparr>tlr_Status = StwOK, tlr_Posts = posts\<rparr>, w)))))"

text \<open>\<open>HomeTimeline\<close>: the newest posts of each subscription are gathered, then the newest of those.\<close>

fun gather_posts ::
  "sort_fun \<Rightarrow> 'w stwServer \<Rightarrow> string list \<Rightarrow> string list \<Rightarrow> 'w \<Rightarrow> (string list \<times> 'w) go" where
  "gather_posts srt ts [] pKeys w = Inr (pKeys, w)"
| "gather_posts srt ts (t # slist) pKeys w =
     go_bind (lib_GetList (ts_storage ts) (FormatPostListKey t) w) (\<lambda>(r, w).
       case r of
         Inl _ \<Rightarrow> gather_posts srt ts slist pKeys w
       | Inr postlist \<Rightarrow>
           let limit = (if length postlist < 100 then length postlist else 100);
               postlist = srt ByRevChronological_Less postlist in
           gather_posts srt ts slist (pKeys @ take limit postlist) w)"

fun home_loop ::
  "'w stwServer \<Rightarrow> int \<Rightarrow> string list \<Rightarrow> Post list \<Rightarrow> 'w \<Rightarrow> ((go_error + Post list) \<times> 'w) go" where
  "home_loop ts limit [] posts w = Inr (Inr posts, w)"
| "home_loop ts limit (pKey # rest) posts w =
     (if limit \<le> 0 then Inr (Inr posts, w)
      else
        go_bind (ParsePostKey pKey) (\<lambda>(userID, unixTime, _).
        go_bind (lib_Get (ts_storage ts) pKey w) (\<lambda>(r, w).
          case r of
            Inl err \<Rightarrow> Inr (Inl err, w)
          | Inr post \<Rightarrow>
              home_loop ts (limit - 1) rest
                (posts @ [\<lparr>po_UserID = userID, po_Posted = FormatInt16 unixTime, po_Contents = post\<rparr>]) w)))"

definition HomeTimeline ::
  "sort_fun \<Rightarrow> 'w stwServer \<Rightarrow> TimelineArgs \<Rightarrow> 'w \<Rightarrow> ((go_error + TimelineReply) \<times> 'w) go" where
  "HomeTimeline srt ts args w =
     (let key = FormatUserKey (tl_UserID args) in
      go_bind (lib_Get (ts_storage ts) key w) (\<lambda>(r, w).
        case r of
          Inl _ \<Rightarrow> Inr (Inr (zero_TimelineReply\<lparr>tlr_Status := NoSuchUser\<rparr>), w)
        | Inr _ \<Rightarrow>
            go_bind (lib_GetList (ts_storage ts) (FormatSubListKey (tl_UserID args)) w) (\<lambda>(r, w).
              let slist = (case r of Inl _ \<Rightarrow> [] | Inr slist \<Rightarrow> slist) in
              go_bind (gather_posts srt ts slist [] w) (\<lambda>(pKeys, w).
              go_bind (home_loop ts 100 (srt ByRevChronological_Less pKeys) [] w) (\<lambda>(r, w).
                case r of
                  Inl err \<Rightarrow> Inr (Inl err, w)
                | Inr posts \<Rightarrow> Inr (Inr \<lparr>tlr_Status = StwOK, tlr_Posts = posts\<rparr>, w))))))"

section \<open>Starting an application server\<close>

text \<open>What \<open>NewStwServer\<close> meets: the outcomes of \<open>NewLibstore\<close>, of \<open>net.Listen\<close> and of
  \<open>rpc.RegisterName\<close>, the nodes at the \<open>n\<close>-th poll of the master's waiting loop, and the outcomes
  of the \<open>n\<close>-th dial of the master and of the \<open>n\<close>-th registration call.\<close>

record 'w stw_startup =
  st_libstore :: "(go_error + 'w Libstore) go"
  st_listen :: "string \<Rightarrow> go_error option"
  st_register :: "go_error option"
  st_polled :: "nat \<Rightarrow> string list"
  st_dial :: "nat \<Rightarrow> bool"
  st_call :: "nat \<Rightarrow> go_error + StwRegisterReply"

partial_function (option) stw_await_nodes :: "(nat \<Rightarrow> string list) \<Rightarrow> int \<Rightarrow> nat \<Rightarrow> string list option" where
  "stw_await_nodes polled numNodes n =
     (if int (length (polled n)) < numNodes then stw_await_nodes polled numNodes (Suc n)
      else Some (polled n))"

text \<open>The slave shifts the tail of its nodes for each server of the reply; the address is not
  stored into the slot that this opens.\<close>

fun stw_add_servers :: "StwNode list \<Rightarrow> string list \<Rightarrow> string list go" where
  "stw_add_servers [] nodes = Inr nodes"
| "stw_add_servers (node # rest) nodes =
     (let addr = stw_HostPort node in
      go_bind (BinarySearchString nodes addr) (\<lambda>i.
      go_bind (go_copy (nodes @ [[]]) (i + 1) nodes i) (\<lambda>temp.
        stw_add_servers rest temp)))"

partial_function (option) stw_join ::
  "(nat \<Rightarrow> go_error + StwRegisterReply) \<Rightarrow> nat \<Rightarrow> 'w stwServer \<Rightarrow> 'w stwServer go option" where
  "stw_join call n ts =
     (case call n of
        Inl err \<Rightarrow> Some (Inl (LogFatal ''rpc error:''))
      | Inr reply \<Rightarrow>
          if sreg_Status reply = StwOK then
            Some (go_bind (stw_add_servers (sreg_Servers reply) (ts_nodes ts)) (\<lambda>nodes.
              Inr (ts\<lparr>ts_nodes := nodes, ts_numNodes := int (length (sreg_Servers reply))\<rparr>)))
          else stw_join call (n + 1) ts)"

text \<open>\<open>None\<close>: the call does not return.  The loop that dials the master is, word for word, the one
  of the storage server.\<close>

definition NewStwServer ::
  "'w stw_startup \<Rightarrow> string \<Rightarrow> string \<Rightarrow> int \<Rightarrow> (go_error + 'w stwServer) go option" where
  "NewStwServer st myHostPort masterServer numNodes =
     (case st_libstore st of
        Inl c \<Rightarrow> Some (Inl c)
      | Inr (Inl err) \<Rightarrow> Some (Inr (Inl err))
      | Inr (Inr storage) \<Rightarrow>
          let ts = \<lparr>ts_nodes = [myHostPort], ts_numNodes = numNodes, ts_storage = storage\<rparr> in
          (case st_listen st myHostPort of
             Some err \<Rightarrow> Some (Inr (Inl err))
           | None \<Rightarrow>
               (case st_register st of
                  Some err \<Rightarrow> Some (Inr (Inl err))
                | None \<Rightarrow>
                    if masterServer = [] then
                      map_option (\<lambda>nodes. Inr (Inr (ts\<lparr>ts_nodes := nodes\<rparr>)))
                        (stw_await_nodes (st_polled st) numNodes 0)
                    else
                      (case dial_master (st_dial st) 0 of
                         Inl c \<Rightarrow> Some (Inl c)
                       | Inr _ \<Rightarrow>
                           map_option (\<lambda>r. go_bind r (\<lambda>ts. Inr (Inr ts))) (stw_join (st_call st) 0 ts)))))"

section \<open>The RPC interface\<close>

text \<open>The methods that \<open>stwrpc.Wrap\<close> exports, as one dispatcher.  \<open>now\<close> and \<open>srt\<close> are the clock and
  the sort of the call.\<close>

datatype stw_request =
    SReqRegister StwRegisterArgs
  | SReqGetServers
  | SReqCreateUser CreateUserArgs
  | SReqSubscribe SubscriptionArgs
  | SReqUnsubscribe SubscriptionArgs
  | SReqPost PostArgs
  | SReqDeletePost DeletePostArgs
  | SReqTimeline TimelineArgs
  | SReqHomeTimeline TimelineArgs

datatype stw_response =
    SRespRegister StwRegisterReply
  | SRespGetServers StwGetServersReply
  | SRespCreateUser CreateUserReply
  | SRespSubscription SubscriptionReply
  | SRespPost PostReply
  | SRespDeletePost DeletePostReply
  | SRespTimeline TimelineReply

definition stw_reply ::
  "('r \<Rightarrow> stw_response) \<Rightarrow> 'w stwServer \<Rightarrow> ('r \<times> 'w) go \<Rightarrow> ((go_error + stw_response) \<times> 'w stwServer \<times> 'w) go"
where
  "stw_reply f ts m = go_bind m (\<lambda>(r, w). Inr (Inr (f r), ts, w))"

definition stw_timeline_reply ::
  "'w stwServer \<Rightarrow> ((go_error + TimelineReply) \<times> 'w) go \<Rightarrow> ((go_error + stw_response) \<times> 'w stwServer \<times> 'w) go"
where
  "stw_timeline_reply ts m =
     go_bind m (\<lambda>(r, w). case r of Inl err \<Rightarrow> Inr (Inl err, ts, w) | Inr r \<Rightarrow> Inr (Inr (SRespTimeline r), ts, w))"

fun stw_serve ::
  "int \<Rightarrow> sort_fun \<Rightarrow> stw_request \<Rightarrow> 'w stwServer \<Rightarrow> 'w \<Rightarrow> ((go_error + stw_response) \<times> 'w stwServer \<times> 'w) go"
where
  "stw_serve now srt (SReqRegister a) ts w =
     go_bind (stw_RegisterServer a ts) (\<lambda>(r, ts). Inr (Inr (SRespRegister r), ts, w))"
| "stw_serve now srt SReqGetServers ts w = Inr (Inr (SRespGetServers (stw_GetServers ts)), ts, w)"
| "stw_serve now srt (SReqCreateUser a) ts w = stw_reply SRespCreateUser ts (CreateUser ts a w)"
| "stw_serve now srt (SReqSubscribe a) ts w = stw_reply SRespSubscription ts (Subscribe ts a w)"
| "stw_serve now srt (SReqUnsubscribe a) ts w = stw_reply SRespSubscription ts (Unsubscribe ts a w)"
| "stw_serve now srt (SReqPost a) ts w = stw_reply SRespPost ts (Post now ts a w)"
| "stw_serve now srt (SReqDeletePost a) ts w = stw_reply SRespDeletePost ts (DeletePost ts a w)"
| "stw_serve now srt (SReqTimeline a) ts w = stw_timeline_reply ts (Timeline srt ts a w)"
| "stw_serve now srt (SReqHomeTimeline a) ts w = stw_timeline_reply ts (HomeTimeline srt ts a w)"

end
