(* ===== verification/Stw_Correct.thy ===== *)
theory Stw_Correct
  imports Stw_Server
begin

text \<open>
  The application server against its abstract specification: the users, who follows whom, and the
  posts of each user by time.  The lemmas are proved once, from the contract of the libstore and of
  the sort, and hold of every libstore that keeps the contract.
\<close>

section \<open>The abstract specification\<close>

record twitter =
  users :: "string set"
  follows :: "(string \<times> string) set"
  posts :: "string \<Rightarrow> int \<rightharpoonup> string"

definition tw_create :: "string \<Rightarrow> twitter \<Rightarrow> StwStatus \<times> twitter" where
  "tw_create u tw = (if u \<in> users tw then (Exists, tw) else (StwOK, tw\<lparr>users := insert u (users tw)\<rparr>))"

definition tw_subscribe :: "string \<Rightarrow> string \<Rightarrow> twitter \<Rightarrow> StwStatus \<times> twitter" where
  "tw_subscribe u v tw =
     (if u \<notin> users tw then (NoSuchUser, tw)
      else if v \<notin> users tw then (NoSuchTargetUser, tw)
      else if (u, v) \<in> follows tw then (Exists, tw)
      else (StwOK, tw\<lparr>follows := insert (u, v) (follows tw)\<rparr>))"

definition tw_unsubscribe :: "string \<Rightarrow> string \<Rightarrow> twitter \<Rightarrow> StwStatus \<times> twitter" where
  "tw_unsubscribe u v tw =
     (if u \<notin> users tw then (NoSuchUser, tw)
      else if v \<notin> users tw \<or> (u, v) \<notin> follows tw then (NoSuchTargetUser, tw)
      else (StwOK, tw\<lparr>follows := follows tw - {(u, v)}\<rparr>))"

definition tw_post :: "int \<Rightarrow> string \<Rightarrow> string \<Rightarrow> twitter \<Rightarrow> StwStatus \<times> twitter" where
  "tw_post now u c tw =
     (if u \<notin> users tw then (NoSuchUser, tw)
      else (StwOK, tw\<lparr>posts := (posts tw)(u := (posts tw u)(now \<mapsto> c))\<rparr>))"

text \<open>A post is named by the key that \<open>Post\<close> returned.\<close>

definition tw_delete :: "string \<Rightarrow> string \<Rightarrow> twitter \<Rightarrow> StwStatus \<times> twitter" where
  "tw_delete u key tw =
     (if u \<notin> users tw then (NoSuchUser, tw)
      else if post_user key = u \<and> key = FormatPostKey u (post_time key) \<and> posts tw u (post_time key) \<noteq> None
      then (StwOK, tw\<lparr>posts := (posts tw)(u := (posts tw u)(post_time key := None))\<rparr>)
      else (NoSuchPost, tw))"

lemmas tw_defs = tw_create_def tw_subscribe_def tw_unsubscribe_def tw_post_def tw_delete_def

section \<open>How the data represents the specification\<close>

definition items :: "kv \<Rightarrow> string \<Rightarrow> string set" where
  "items d k = (case d k of None \<Rightarrow> {} | Some S \<Rightarrow> S)"

definition post_keys :: "twitter \<Rightarrow> string \<Rightarrow> string set" where
  "post_keys tw u = FormatPostKey u ` dom (posts tw u)"

definition represents :: "kv \<Rightarrow> twitter \<Rightarrow> bool" where
  "represents d tw \<longleftrightarrow>
     (\<forall>u. d (FormatUserKey u) = (if u \<in> users tw then Some {[]} else None)) \<and>
     (\<forall>u. items d (FormatSubListKey u) = follows tw `` {u}) \<and>
     (\<forall>u. items d (FormatPostListKey u) = post_keys tw u) \<and>
     (\<forall>u t. int64 t \<longrightarrow> d (FormatPostKey u t) = map_option (\<lambda>c. {c}) (posts tw u t)) \<and>
     (\<forall>u t. posts tw u t \<noteq> None \<longrightarrow> int64 t)"

lemma representsD:
  assumes "represents d tw"
  shows "u \<in> users tw \<Longrightarrow> d (FormatUserKey u) = Some {[]}"
    and "u \<notin> users tw \<Longrightarrow> d (FormatUserKey u) = None"
    and "items d (FormatSubListKey u) = follows tw `` {u}"
    and "items d (FormatPostListKey u) = post_keys tw u"
    and "posts tw u t = Some c \<Longrightarrow> d (FormatPostKey u t) = Some {c}"
    and "posts tw u t = Some c \<Longrightarrow> int64 t"
proof -
  show t: "int64 t" if "posts tw u t = Some c" for u t c
    using assms that unfolding represents_def by (metis option.distinct(1))
  show "d (FormatPostKey u t) = Some {c}" if "posts tw u t = Some c"
    using assms that t [OF that] unfolding represents_def by simp
qed (use assms in \<open>auto simp: represents_def\<close>)

lemma items_upd [simp]: "items (d(k \<mapsto> S)) k' = (if k' = k then S else items d k')"
  "items (d(k := None)) k' = (if k' = k then {} else items d k')"
  by (simp_all add: items_def)

lemma items_append [simp]:
  "items (snd (kv_append k v d)) k' = (if k' = k then insert v (items d k) else items d k')"
  "k' \<noteq> k \<Longrightarrow> snd (kv_append k v d) k' = d k'"
  by (auto simp: kv_append_def items_def split: option.splits)

lemma items_remove [simp]:
  "items (snd (kv_remove k v d)) k' = (if k' = k then items d k - {v} else items d k')"
  "k' \<noteq> k \<Longrightarrow> snd (kv_remove k v d) k' = d k'"
  by (auto simp: kv_remove_def items_def split: option.splits)

lemma append_status: "fst (kv_append k v d) = OK \<longleftrightarrow> v \<notin> items d k"
  by (auto simp: kv_append_def items_def split: option.splits)

lemma remove_status: "fst (kv_remove k v d) = OK \<longleftrightarrow> v \<in> items d k"
  by (auto simp: kv_remove_def items_def split: option.splits)

subsection \<open>The updates of the operations\<close>

lemma represents_create:
  "represents d tw \<Longrightarrow> represents (d(FormatUserKey u \<mapsto> {[]})) (tw\<lparr>users := insert u (users tw)\<rparr>)"
  by (simp add: represents_def post_keys_def)

lemma represents_follow:
  assumes "represents d tw"
  shows "represents (snd (kv_append (FormatSubListKey u) v d)) (tw\<lparr>follows := insert (u, v) (follows tw)\<rparr>)"
  using assms by (auto simp: represents_def post_keys_def)

lemma represents_unfollow:
  assumes "represents d tw"
  shows "represents (snd (kv_remove (FormatSubListKey u) v d)) (tw\<lparr>follows := follows tw - {(u, v)}\<rparr>)"
  using assms by (auto simp: represents_def post_keys_def)

lemma represents_post:
  assumes "represents d tw" and "int64 t"
  shows "represents (snd (kv_append (FormatPostListKey u) (FormatPostKey u t) (d(FormatPostKey u t \<mapsto> {c}))))
    (tw\<lparr>posts := (posts tw)(u := (posts tw u)(t \<mapsto> c))\<rparr>)"
  using assms by (auto simp: represents_def post_keys_def FormatPostKey_inj)

lemma represents_delete:
  assumes "represents d tw" and "int64 t"
  shows "represents ((snd (kv_remove (FormatPostListKey u) (FormatPostKey u t) d))(FormatPostKey u t := None))
    (tw\<lparr>posts := (posts tw)(u := (posts tw u)(t := None))\<rparr>)"
proof -
  have "post_keys tw u - {FormatPostKey u t} =
      post_keys (tw\<lparr>posts := (posts tw)(u := (posts tw u)(t := None))\<rparr>) u"
    using assms representsD(6) [OF assms(1), of u]
    by (auto simp: post_keys_def FormatPostKey_inj)
  with assms show ?thesis
    by (auto simp: represents_def FormatPostKey_inj post_keys_def)
qed

subsection \<open>Post keys\<close>

lemma split_on_member: "s \<in> set (split_on c xs) \<Longrightarrow> c \<notin> set s"
  by (induction c xs arbitrary: s rule: split_on.induct) (auto split: list.splits if_splits)

lemma post_user_plain: "CHR '':'' \<notin> set (post_user k)"
proof -
  have "ParsePostKey k = Inr (post_user k, post_time k, snd (snd (parse_post k)))"
    using ParsePostKey_total parse_post_eq by metis
  then have "post_user k = [] \<or> post_user k = split_on CHR '':'' k ! 0"
    by (auto simp: ParsePostKey_def Let_def go_bind_eq_Inr go_index_def split: if_splits)
  moreover have "CHR '':'' \<notin> set (split_on CHR '':'' k ! 0)"
    using split_on_member [of "split_on CHR '':'' k ! 0" "CHR '':''" k] by (simp add: nth_mem)
  ultimately show ?thesis by auto
qed

text \<open>A key that does not parse is not the key of a post with a parsable user.\<close>

lemma post_key_error:
  assumes "ParsePostKey key = Inr (post_user key, post_time key, Some e)" and "post_user key = u"
  shows "key \<noteq> FormatPostKey u (post_time key)"
proof
  assume k: "key = FormatPostKey u (post_time key)"
  have "CHR '':'' \<notin> set u" using post_user_plain [of key] assms(2) by simp
  then have "parse_post key = (u, post_time key, None)"
    using parse_post_Format [OF _ post_time_range] k by metis
  with assms(1) show False by (simp add: ParsePostKey_total)
qed

lemma post_keys_member:
  assumes "represents d tw" and "post_user key = u"
  shows "key \<in> post_keys tw u \<longleftrightarrow> key = FormatPostKey u (post_time key) \<and> posts tw u (post_time key) \<noteq> None"
proof
  assume "key \<in> post_keys tw u"
  then obtain t c where t: "key = FormatPostKey u t" "posts tw u t = Some c" by (auto simp: post_keys_def)
  have "CHR '':'' \<notin> set u" using post_user_plain [of key] assms(2) by simp
  then have "post_time key = t" using t representsD(6) [OF assms(1) t(2)] by simp
  with t show "key = FormatPostKey u (post_time key) \<and> posts tw u (post_time key) \<noteq> None" by simp
qed (auto simp: post_keys_def)

section \<open>The handlers, over any libstore that keeps the contract\<close>

text \<open>A key that an operation of the application may append to.\<close>

definition appendable :: "('w \<Rightarrow> kv) \<Rightarrow> ('w \<Rightarrow> string \<Rightarrow> bool) \<Rightarrow> 'w \<Rightarrow> string \<Rightarrow> bool" where
  "appendable data idle w k \<longleftrightarrow> (data w k = Some {} \<longrightarrow> idle w k)"

text \<open>The world \<open>w\<close> keeps its invariant and represents \<open>tw\<close>.\<close>

definition reached :: "('w \<Rightarrow> bool) \<Rightarrow> ('w \<Rightarrow> kv) \<Rightarrow> twitter \<Rightarrow> 'w \<Rightarrow> bool" where
  "reached winv data tw w \<longleftrightarrow> winv w \<and> represents (data w) tw"

context libstore_contract
begin

lemma get_user:
  assumes "reached winv data tw w"
  obtains (user) w' where "u \<in> users tw" and "lib_Get L (FormatUserKey u) w = Inr (Inr [], w')"
      and "reached winv data tw w'" and "data w' = data w" and "\<And>k. k \<noteq> FormatUserKey u \<Longrightarrow> appendable data idle w k \<Longrightarrow> appendable data idle w' k"
  | (none) err w' where "u \<notin> users tw" and "lib_Get L (FormatUserKey u) w = Inr (Inl err, w')"
      and "reached winv data tw w'" and "data w' = data w" and "\<And>k. k \<noteq> FormatUserKey u \<Longrightarrow> appendable data idle w k \<Longrightarrow> appendable data idle w' k"
proof -
  have w: "winv w" "represents (data w) tw" using assms by (auto simp: reached_def)
  show thesis
  proof (cases "u \<in> users tw")
    case True
    obtain w' where g: "lib_Get L (FormatUserKey u) w = Inr (Inr [], w')"
      and s: "lib_step winv data idle (FormatUserKey u) (data w) w w'"
      using get_value [OF w(1) representsD(1) [OF w(2) True]] by blast
    show thesis
      by (rule user [OF True g]) (use lib_stepD [OF s] w(2) in \<open>auto simp: reached_def appendable_def\<close>)
  next
    case False
    obtain err w' where g: "lib_Get L (FormatUserKey u) w = Inr (Inl err, w')"
      and s: "lib_step winv data idle (FormatUserKey u) (data w) w w'"
      using get_absent [OF w(1) representsD(2) [OF w(2) False]] by blast
    show thesis
      by (rule none [OF False g]) (use lib_stepD [OF s] w(2) in \<open>auto simp: reached_def appendable_def\<close>)
  qed
qed

lemma CreateUser_step:
  assumes "ts_storage ts = L" and "reached winv data tw w"
  shows "\<exists>w'. CreateUser ts \<lparr>cu_UserID = u\<rparr> w = Inr (\<lparr>cur_Status = fst (tw_create u tw)\<rparr>, w') \<and>
    reached winv data (snd (tw_create u tw)) w' \<and>
    (\<forall>k. k \<noteq> FormatUserKey u \<longrightarrow> appendable data idle w k \<longrightarrow> appendable data idle w' k)"
  using assms(2)
proof (cases rule: get_user [where u = u])
  case (user w')
  then show ?thesis using assms(1) by (auto simp: CreateUser_def tw_create_def)
next
  case (none err w')
  then have "winv w'" "represents (data w') tw" by (auto simp: reached_def)
  moreover obtain w'' where p: "lib_Put L (FormatUserKey u) [] w' = Inr (None, w'')"
    and s: "lib_step winv data idle (FormatUserKey u) ((data w')(FormatUserKey u \<mapsto> {[]})) w' w''"
    using put [OF calculation(1)] by blast
  ultimately have "reached winv data (snd (tw_create u tw)) w''"
    using lib_stepD(1,2) [OF s] represents_create none(1) by (simp add: reached_def tw_create_def)
  moreover have "appendable data idle w'' k" if "k \<noteq> FormatUserKey u" "appendable data idle w k" for k
    using none(5) [OF that] lib_stepD(2,3) [OF s] that(1) by (simp add: appendable_def)
  ultimately show ?thesis using none p assms(1) by (simp add: CreateUser_def tw_create_def)
qed

lemma CreateUser_refines:
  assumes "ts_storage ts = L" and "reached winv data tw w"
  shows "\<exists>w'. CreateUser ts \<lparr>cu_UserID = u\<rparr> w = Inr (\<lparr>cur_Status = fst (tw_create u tw)\<rparr>, w') \<and>
    reached winv data (snd (tw_create u tw)) w'"
  using CreateUser_step [OF assms] by blast

lemma Subscribe_refines:
  assumes "ts_storage ts = L" and "reached winv data tw w"
    and "u \<in> users tw \<Longrightarrow> v \<in> users tw \<Longrightarrow> appendable data idle w (FormatSubListKey u)"
  shows "\<exists>w'. Subscribe ts \<lparr>su_UserID = u, su_TargetUserID = v\<rparr> w =
      Inr (\<lparr>sur_Status = fst (tw_subscribe u v tw)\<rparr>, w') \<and> reached winv data (snd (tw_subscribe u v tw)) w'"
  using assms(2)
proof (cases rule: get_user [where u = u])
  case (none err w')
  then show ?thesis using assms(1) by (simp add: Subscribe_def tw_subscribe_def)
next
  case (user w1)
  note u = this
  from u(3) show ?thesis
  proof (cases rule: get_user [where u = v])
    case (none err w')
    then show ?thesis using assms(1) u by (simp add: Subscribe_def tw_subscribe_def)
  next
    case (user w2)
    have ap: "appendable data idle w2 (FormatSubListKey u)" using user(1,5) u(1,5) assms(3) by simp
    have w2: "winv w2" "represents (data w2) tw" using user(3) by (auto simp: reached_def)
    obtain err w3 where a: "lib_AppendToList L (FormatSubListKey u) v w2 = Inr (err, w3)"
      and err: "err = None \<longleftrightarrow> v \<notin> items (data w2) (FormatSubListKey u)"
      and s: "lib_step winv data idle (FormatSubListKey u) (snd (kv_append (FormatSubListKey u) v (data w2))) w2 w3"
      using append [OF w2(1), of "FormatSubListKey u" v] ap unfolding appendable_def append_status by blast
    have r: "reached winv data (tw\<lparr>follows := insert (u, v) (follows tw)\<rparr>) w3"
      using lib_stepD(1,2) [OF s] represents_follow [OF w2(2)] by (simp add: reached_def)
    have st: "err = None \<longleftrightarrow> (u, v) \<notin> follows tw" using err representsD(3) [OF w2(2), of u] by simp
    have "snd (tw_subscribe u v tw) = tw\<lparr>follows := insert (u, v) (follows tw)\<rparr>"
      using u(1) user(1) by (simp add: tw_subscribe_def insert_absorb)
    moreover have "fst (tw_subscribe u v tw) = (if err = None then StwOK else Exists)"
      using u(1) user(1) st by (simp add: tw_subscribe_def)
    ultimately show ?thesis using u(2) user(2) a r assms(1) by (simp add: Subscribe_def)
  qed
qed

lemma Unsubscribe_refines:
  assumes "ts_storage ts = L" and "reached winv data tw w"
  shows "\<exists>w'. Unsubscribe ts \<lparr>su_UserID = u, su_TargetUserID = v\<rparr> w =
      Inr (\<lparr>sur_Status = fst (tw_unsubscribe u v tw)\<rparr>, w') \<and> reached winv data (snd (tw_unsubscribe u v tw)) w'"
  using assms(2)
proof (cases rule: get_user [where u = u])
  case (none err w')
  then show ?thesis using assms(1) by (simp add: Unsubscribe_def tw_unsubscribe_def)
next
  case (user w1)
  note u = this
  from u(3) show ?thesis
  proof (cases rule: get_user [where u = v])
    case (none err w')
    then show ?thesis using assms(1) u by (simp add: Unsubscribe_def tw_unsubscribe_def)
  next
    case (user w2)
    have w2: "winv w2" "represents (data w2) tw" using user(3) by (auto simp: reached_def)
    obtain err w3 where a: "lib_RemoveFromList L (FormatSubListKey u) v w2 = Inr (err, w3)"
      and err: "err = None \<longleftrightarrow> v \<in> items (data w2) (FormatSubListKey u)"
      and s: "lib_step winv data idle (FormatSubListKey u) (snd (kv_remove (FormatSubListKey u) v (data w2))) w2 w3"
      using remove [OF w2(1), of "FormatSubListKey u" v] unfolding remove_status by blast
    have r: "reached winv data (tw\<lparr>follows := follows tw - {(u, v)}\<rparr>) w3"
      using lib_stepD(1,2) [OF s] represents_unfollow [OF w2(2)] by (simp add: reached_def)
    have st: "err = None \<longleftrightarrow> (u, v) \<in> follows tw" using err representsD(3) [OF w2(2), of u] by simp
    have "snd (tw_unsubscribe u v tw) = tw\<lparr>follows := follows tw - {(u, v)}\<rparr>"
      using u(1) user(1) by (simp add: tw_unsubscribe_def)
    moreover have "fst (tw_unsubscribe u v tw) = (if err = None then StwOK else NoSuchTargetUser)"
      using u(1) user(1) st by (simp add: tw_unsubscribe_def)
    ultimately show ?thesis using u(2) user(2) a r assms(1) by (simp add: Unsubscribe_def)
  qed
qed

lemma Post_refines:
  assumes "ts_storage ts = L" and "reached winv data tw w"
    and "u \<in> users tw \<Longrightarrow> appendable data idle w (FormatPostListKey u)" and "u \<in> users tw \<Longrightarrow> int64 now"
  shows "\<exists>w'. Post now ts \<lparr>pt_UserID = u, pt_Contents = c\<rparr> w =
      Inr (\<lparr>ptr_PostKey = (if u \<in> users tw then FormatPostKey u now else []),
           ptr_Status = fst (tw_post now u c tw)\<rparr>, w') \<and>
    reached winv data (snd (tw_post now u c tw)) w'"
  using assms(2)
proof (cases rule: get_user [where u = u])
  case (none err w')
  then show ?thesis using assms(1) by (simp add: Post_def tw_post_def)
next
  case (user w1)
  let ?pk = "FormatPostKey u now" and ?lk = "FormatPostListKey u"
  have w1: "winv w1" "represents (data w1) tw" using user(3) by (auto simp: reached_def)
  obtain w2 where p: "lib_Put L ?pk c w1 = Inr (None, w2)"
    and s2: "lib_step winv data idle ?pk ((data w1)(?pk \<mapsto> {c})) w1 w2"
    using put [OF w1(1)] by blast
  have "appendable data idle w1 ?lk" using user(1,5) assms(3) by simp
  then have ap: "data w2 ?lk = Some {} \<longrightarrow> idle w2 ?lk"
    using lib_stepD(2,3) [OF s2] by (simp add: appendable_def)
  obtain err w3 where a: "lib_AppendToList L ?lk ?pk w2 = Inr (err, w3)"
    and s3: "lib_step winv data idle ?lk (snd (kv_append ?lk ?pk (data w2))) w2 w3"
    using append [OF lib_stepD(1) [OF s2] ap] by blast
  have "reached winv data (snd (tw_post now u c tw)) w3"
    using represents_post [OF w1(2) assms(4) [OF user(1)], of u c] lib_stepD(1,2) [OF s3] lib_stepD(2) [OF s2] user(1)
    by (simp add: reached_def tw_post_def)
  with user(1,2) p a assms(1) show ?thesis by (simp add: Post_def tw_post_def)
qed

lemma DeletePost_refines:
  assumes "ts_storage ts = L" and "reached winv data tw w"
  shows "\<exists>w'. DeletePost ts \<lparr>dp_UserID = u, dp_PostKey = key\<rparr> w =
      Inr (\<lparr>dpr_Status = fst (tw_delete u key tw)\<rparr>, w') \<and> reached winv data (snd (tw_delete u key tw)) w'"
  using assms(2)
proof (cases rule: get_user [where u = u])
  case (none err w')
  then show ?thesis using assms(1) by (simp add: DeletePost_def tw_delete_def)
next
  case (user w1)
  let ?lk = "FormatPostListKey u"
  have w1: "winv w1" "represents (data w1) tw" using user(3) by (auto simp: reached_def)
  obtain perr where parse: "ParsePostKey key = Inr (post_user key, post_time key, perr)"
    using ParsePostKey_total parse_post_eq by metis
  show ?thesis
  proof (cases "perr \<noteq> None \<or> post_user key \<noteq> u")
    case True
    then have "snd (tw_delete u key tw) = tw" "fst (tw_delete u key tw) = NoSuchPost"
      using user(1) parse post_key_error [of key _ u] by (auto simp: tw_delete_def)
    with True user(2,3) parse assms(1) show ?thesis by (auto simp: DeletePost_def)
  next
    case False
    then have uid: "post_user key = u" "perr = None" by auto
    obtain err w2 where a: "lib_RemoveFromList L ?lk key w1 = Inr (err, w2)"
      and err: "err = None \<longleftrightarrow> key \<in> items (data w1) ?lk"
      and s2: "lib_step winv data idle ?lk (snd (kv_remove ?lk key (data w1))) w1 w2"
      using remove [OF w1(1), of ?lk key] unfolding remove_status by blast
    have mem: "key \<in> items (data w1) ?lk \<longleftrightarrow>
        key = FormatPostKey u (post_time key) \<and> posts tw u (post_time key) \<noteq> None"
      using post_keys_member [OF w1(2) uid(1)] representsD(4) [OF w1(2)] by simp
    show ?thesis
    proof (cases "err = None")
      case False
      then have "fst (tw_delete u key tw) = NoSuchPost" "snd (tw_delete u key tw) = tw"
        using err mem user(1) by (auto simp: tw_delete_def)
      moreover have "snd (kv_remove ?lk key (data w1)) = data w1"
        using False err by (auto simp: kv_remove_def items_def split: option.splits)
      ultimately show ?thesis
        using False user(2) parse uid a lib_stepD(1,2) [OF s2] w1(2) assms(1)
        by (simp add: DeletePost_def reached_def)
    next
      case True
      then obtain c where key: "key = FormatPostKey u (post_time key)" "posts tw u (post_time key) = Some c"
        using err mem by auto
      note t = representsD(6) [OF w1(2) key(2)]
      have neq: "key \<noteq> ?lk" by (subst key(1)) simp
      have "data w1 key = Some {c}" using representsD(5) [OF w1(2) key(2)] key(1) by simp
      then have "data w2 key = Some {c}" using lib_stepD(2) [OF s2] neq by simp
      then obtain w3 where d: "lib_Delete L key w2 = Inr (None, w3)"
        and s3: "lib_step winv data idle key ((data w2)(key := None)) w2 w3"
        using delete [OF lib_stepD(1) [OF s2]] by blast
      have "reached winv data (snd (tw_delete u key tw)) w3"
        using represents_delete [OF w1(2) t, of u] lib_stepD(1,2) [OF s3] lib_stepD(2) [OF s2] user(1) key uid
        by (simp add: reached_def tw_delete_def)
      moreover have "fst (tw_delete u key tw) = StwOK" using user(1) key uid by (simp add: tw_delete_def)
      ultimately show ?thesis using True user(2) parse uid a d assms(1) by (simp add: DeletePost_def)
    qed
  qed
qed

end

end
