(* ===== verification/Stw_Timelines.thy ===== *)
theory Stw_Timelines
  imports Stw_Correct
begin

text \<open>
  The two timelines: what \<open>sort.Sort\<close> promises, the selection of the newest posts, and the replies
  of \<open>Timeline\<close> and \<open>HomeTimeline\<close> in terms of the abstract specification.
\<close>

section \<open>What the sort promises\<close>

locale go_sort =
  fixes srt :: sort_fun
  assumes perm: "mset (srt lt xs) = mset xs"
    and ordered: "(\<And>x y. lt x y \<longleftrightarrow> (f :: string \<Rightarrow> int) x < f y) \<Longrightarrow> sorted (map f (srt lt xs))"
begin

lemma set_srt [simp]: "set (srt lt xs) = set xs"
  using perm mset_eq_setD by blast

lemma length_srt [simp]: "length (srt lt xs) = length xs"
  using perm size_mset by metis

lemma distinct_srt [simp]: "distinct (srt lt xs) = distinct xs"
  using perm mset_eq_imp_distinct_iff by blast

end

text \<open>\<open>sort.Sort\<close> sorts short slices by insertion.\<close>

fun insert_less :: "(string \<Rightarrow> string \<Rightarrow> bool) \<Rightarrow> string \<Rightarrow> string list \<Rightarrow> string list" where
  "insert_less lt x [] = [x]"
| "insert_less lt x (y # ys) = (if lt x y then x # y # ys else y # insert_less lt x ys)"

definition insertionSort :: sort_fun where
  "insertionSort lt xs = fold (insert_less lt) xs []"

lemma mset_insert_less [simp]: "mset (insert_less lt x ys) = add_mset x (mset ys)"
  by (induction ys) auto

lemma sorted_insert_less:
  assumes "\<And>x y. lt x y \<longleftrightarrow> (f :: string \<Rightarrow> int) x < f y" and "sorted (map f ys)"
  shows "sorted (map f (insert_less lt x ys))"
  using assms(2)
proof (induction ys)
  case (Cons y ys)
  have "set (insert_less lt x ys) = insert x (set ys)"
    using mset_insert_less by (metis set_mset_add_mset_insert set_mset_mset)
  moreover have "lt x y \<longleftrightarrow> f x < f y" by (rule assms(1))
  ultimately show ?case using Cons by auto
qed simp

lemma mset_fold_insert: "mset (fold (insert_less lt) xs ys) = mset xs + mset ys"
  by (induction xs arbitrary: ys) auto

lemma sorted_fold_insert:
  assumes "\<And>x y. lt x y \<longleftrightarrow> (f :: string \<Rightarrow> int) x < f y"
  shows "sorted (map f ys) \<Longrightarrow> sorted (map f (fold (insert_less lt) xs ys))"
  by (induction xs arbitrary: ys) (simp_all add: sorted_insert_less [where lt = lt and f = f, OF assms])

interpretation insertion: go_sort insertionSort
  by unfold_locales (auto simp: insertionSort_def mset_fold_insert sorted_fold_insert)

section \<open>The smallest elements of a set\<close>

text \<open>\<open>ks\<close> are \<open>n\<close> elements of \<open>K\<close> with the smallest values of \<open>f\<close>, or all when there are fewer.\<close>

definition smallest :: "nat \<Rightarrow> ('a \<Rightarrow> int) \<Rightarrow> 'a set \<Rightarrow> 'a list \<Rightarrow> bool" where
  "smallest n f K ks \<longleftrightarrow>
     distinct ks \<and> set ks \<subseteq> K \<and> length ks = min n (card K) \<and> sorted (map f ks) \<and>
     (\<forall>x\<in>K - set ks. \<forall>y\<in>set ks. f y \<le> f x)"

lemma smallest_take:
  assumes "distinct xs" and "sorted (map f xs)"
  shows "smallest n f (set xs) (take n xs)"
proof -
  have "sorted (map f (take n xs @ drop n xs))" using assms(2) by simp
  then have "\<forall>x\<in>set (take n xs). \<forall>y\<in>set (drop n xs). f x \<le> f y" and "sorted (map f (take n xs))"
    unfolding map_append sorted_append by auto
  moreover have "set xs - set (take n xs) \<subseteq> set (drop n xs)"
    using append_take_drop_id [of n xs] set_append [of "take n xs" "drop n xs"] by auto
  ultimately show ?thesis
    using assms(1) set_take_subset [of n xs] unfolding smallest_def
    by (simp add: distinct_card min.commute) blast
qed

lemma sorted_prefix_card:
  assumes "sorted (map f Q)" and "i < length Q" and "A \<subseteq> set Q" and "\<forall>x\<in>A. f x < f (Q ! i)"
  shows "card A \<le> i"
proof -
  have "A \<subseteq> (!) Q ` {..<i}"
  proof
    fix x assume x: "x \<in> A"
    then obtain j where j: "j < length Q" "x = Q ! j" using assms(3) by (metis in_set_conv_nth subsetD)
    have "j < i"
    proof (rule ccontr)
      assume "\<not> j < i"
      then have "f (Q ! i) \<le> f (Q ! j)"
        using assms(1,2) j(1) sorted_nth_mono [of "map f Q" i j] by simp
      with assms(4) x j(2) show False by fastforce
    qed
    with j show "x \<in> (!) Q ` {..<i}" by blast
  qed
  then have "card A \<le> card ((!) Q ` {..<i})" by (simp add: card_mono)
  also have "\<dots> \<le> i" using card_image_le [of "{..<i}" "(!) Q"] by simp
  finally show ?thesis .
qed

text \<open>Without ties there is only one choice.\<close>

lemma smallest_unique:
  assumes "smallest n f K xs" and "smallest n f K ys" and "inj_on f K"
  shows "xs = ys"
proof -
  have sub: "set xs \<subseteq> set ys" if "smallest n f K xs" "smallest n f K ys" for xs ys
  proof
    fix x assume x: "x \<in> set xs"
    show "x \<in> set ys"
    proof (rule ccontr)
      assume nx: "x \<notin> set ys"
      have "card (set xs) = card (set ys)" using that by (simp add: smallest_def distinct_card)
      with x nx obtain y where y: "y \<in> set ys" "y \<notin> set xs"
        by (metis card_subset_eq finite_set subsetI)
      have "f y \<le> f x" "f x \<le> f y" using that x nx y by (auto simp: smallest_def)
      then have "x = y" using assms(3) that x y by (auto simp: smallest_def inj_on_def)
      with x y show False by simp
    qed
  qed
  then have set: "set xs = set ys" using assms(1,2) by blast
  have inj: "inj_on f (set xs \<union> set ys)" using assms by (auto simp: smallest_def intro: inj_on_subset)
  have "map f xs = map f ys"
  proof (rule sorted_distinct_set_unique)
    show "distinct (map f xs)" "distinct (map f ys)"
      using assms(1,2) inj by (auto simp: smallest_def distinct_map intro: inj_on_subset)
  qed (use assms(1,2) set in \<open>auto simp: smallest_def\<close>)
  with inj show ?thesis by (simp add: inj_on_map_eq_map)
qed

lemma distinct_concat_disjoint:
  assumes "\<And>u v. u \<in> set vs \<Longrightarrow> v \<in> set vs \<Longrightarrow> u \<noteq> v \<Longrightarrow> set (ks u) \<inter> set (ks v) = {}"
    and "distinct vs" and "\<And>v. v \<in> set vs \<Longrightarrow> distinct (ks v)"
  shows "distinct (concat (map ks vs))"
  using assms
proof (induction vs)
  case (Cons v vs)
  have "set (ks v) \<inter> (\<Union>u\<in>set vs. set (ks u)) = {}" using Cons.prems(1,2) by force
  with Cons show ?case by simp
qed simp

text \<open>The smallest of a union are found among the smallest of its parts.\<close>

lemma smallest_union:
  assumes "distinct vs" and part: "\<And>v. v \<in> set vs \<Longrightarrow> smallest n f (K v) (ks v) \<and> finite (K v)"
    and disj: "\<And>u v. u \<in> set vs \<Longrightarrow> v \<in> set vs \<Longrightarrow> u \<noteq> v \<Longrightarrow> K u \<inter> K v = {}"
    and Q: "mset Q = mset (concat (map ks vs))" "sorted (map f Q)"
  shows "smallest n f (\<Union>v\<in>set vs. K v) (take n Q)"
proof -
  let ?U = "\<Union>v\<in>set vs. K v"
  have setQ: "set Q = (\<Union>v\<in>set vs. set (ks v))" using mset_eq_setD [OF Q(1)] by simp
  have sub: "\<And>v. v \<in> set vs \<Longrightarrow> set (ks v) \<subseteq> K v" and dks: "\<And>v. v \<in> set vs \<Longrightarrow> distinct (ks v)"
    and len: "\<And>v. v \<in> set vs \<Longrightarrow> length (ks v) = min n (card (K v))"
    using part by (auto simp: smallest_def)
  have dQ: "distinct Q"
  proof -
    have "set (ks u) \<inter> set (ks v) = {}" if "u \<in> set vs" "v \<in> set vs" "u \<noteq> v" for u v
      using disj [OF that] sub that by blast
    then have "distinct (concat (map ks vs))" using assms(1) dks by (rule distinct_concat_disjoint)
    then show ?thesis using Q(1) mset_eq_imp_distinct_iff by blast
  qed
  note sm = smallest_take [OF dQ Q(2), of n]
  have QU: "set Q \<subseteq> ?U" using setQ sub by auto
  have finU: "finite ?U" using part by auto
  have lost: "card (set (ks v)) = n \<and> set (ks v) \<subseteq> set Q \<and> (\<forall>y\<in>set (ks v). f y \<le> f x)"
    if v: "v \<in> set vs" "x \<in> K v" "x \<notin> set (ks v)" for x v
  proof -
    have "set (ks v) \<subset> K v" using sub v by auto
    then have "card (set (ks v)) < card (K v)" using part v(1) psubset_card_mono by blast
    then have "card (set (ks v)) = n" using len [OF v(1)] distinct_card [OF dks [OF v(1)]] by simp
    moreover have "\<forall>y\<in>set (ks v). f y \<le> f x" using part v by (simp add: smallest_def)
    ultimately show ?thesis using setQ v(1) by auto
  qed
  have size: "min n (length Q) = min n (card ?U)"
  proof (cases "?U \<subseteq> set Q")
    case True
    then show ?thesis using QU distinct_card [OF dQ] by (metis subset_antisym)
  next
    case False
    then obtain x v where "v \<in> set vs" "x \<in> K v" "x \<notin> set (ks v)" using setQ by auto
    then have "n \<le> card (set Q)" using lost card_mono [OF finite_set, of "set (ks v)" Q] by metis
    moreover have "card (set Q) \<le> card ?U" by (rule card_mono [OF finU QU])
    ultimately show ?thesis using distinct_card [OF dQ] by simp
  qed
  have "f y \<le> f x" if x: "x \<in> ?U - set (take n Q)" and y: "y \<in> set (take n Q)" for x y
  proof (cases "x \<in> set Q")
    case True
    with x y sm show ?thesis by (auto simp: smallest_def)
  next
    case False
    then obtain v where v: "v \<in> set vs" "x \<in> K v" "x \<notin> set (ks v)" using x setQ by auto
    obtain i where i: "i < n" "i < length Q" "y = Q ! i" using y by (auto simp: in_set_conv_nth)
    show ?thesis
    proof (rule ccontr)
      assume "\<not> f y \<le> f x"
      then have "\<forall>z\<in>set (ks v). f z < f (Q ! i)" using lost [OF v] i(3) by fastforce
      then have "card (set (ks v)) \<le> i"
        using sorted_prefix_card [OF Q(2) i(2)] lost [OF v] by blast
      with lost [OF v] i(1) show False by simp
    qed
  qed
  with sm size QU dQ show ?thesis
    by (auto simp: smallest_def distinct_card min.commute dest: in_set_takeD)
qed

section \<open>The newest posts\<close>

lemma Less_time: "ByRevChronological_Less a b \<longleftrightarrow> - post_time a < - post_time b"
proof -
  have "ParsePostKey k = Inr (post_user k, post_time k, snd (snd (parse_post k)))" for k
    using ParsePostKey_total parse_post_eq by metis
  then show ?thesis by (simp add: ByRevChronological_Less_def)
qed

text \<open>The post that a key stands for; a user name without a colon can be read off the key.\<close>

definition post_of :: "twitter \<Rightarrow> string \<Rightarrow> Post" where
  "post_of tw k =
     \<lparr>po_UserID = post_user k, po_Posted = FormatInt16 (post_time k),
      po_Contents = the (posts tw (post_user k) (post_time k))\<rparr>"

text \<open>The users in \<open>U\<close> that have posts have no colon in their names.\<close>

definition plain_names :: "string set \<Rightarrow> twitter \<Rightarrow> bool" where
  "plain_names U tw \<longleftrightarrow> (\<forall>u\<in>U. \<forall>t. posts tw u t \<noteq> None \<longrightarrow> CHR '':'' \<notin> set u)"

lemma plain_names_mono: "plain_names V tw \<Longrightarrow> U \<subseteq> V \<Longrightarrow> plain_names U tw"
  by (auto simp: plain_names_def)

lemma post_keysE:
  assumes "represents d tw" and "plain_names U tw" and "u \<in> U" and "k \<in> post_keys tw u"
  obtains t c where "k = FormatPostKey u t" and "posts tw u t = Some c" and "post_user k = u"
    and "post_time k = t" and "d k = Some {c}"
proof -
  obtain t c where t: "k = FormatPostKey u t" "posts tw u t = Some c"
    using assms(4) by (auto simp: post_keys_def)
  moreover have "CHR '':'' \<notin> set u" using assms(2,3) t(2) unfolding plain_names_def by blast
  ultimately show thesis using that representsD(5,6) [OF assms(1) t(2)] by simp
qed

lemma post_keys_disjoint:
  "represents d tw \<Longrightarrow> u \<noteq> v \<Longrightarrow> post_keys tw u \<inter> post_keys tw v = {}"
  by (auto simp: post_keys_def) (metis FormatPostKey_inj representsD(6))

lemma home_loop_eq: "home_loop ts limit keys ps w = timeline_loop ts limit keys ps w"
proof -
  have "ParsePostKey k = Inr (post_user k, post_time k, snd (snd (parse_post k)))" for k
    using ParsePostKey_total parse_post_eq by metis
  then show ?thesis
    by (induction ts limit keys ps w rule: timeline_loop.induct) (auto intro!: go_bind_cong split: sum.split)
qed

text \<open>The newest hundred posts of one user, newest first.\<close>

definition tw_timeline :: "string \<Rightarrow> twitter \<Rightarrow> Post list" where
  "tw_timeline u tw =
     map (\<lambda>t. \<lparr>po_UserID = u, po_Posted = FormatInt16 t, po_Contents = the (posts tw u t)\<rparr>)
       (take 100 (rev (sorted_list_of_set (dom (posts tw u)))))"

lemma smallest_timeline:
  assumes "represents d tw" and "plain_names {u} tw" and "finite (post_keys tw u)"
    and "smallest 100 (\<lambda>k. - post_time k) (post_keys tw u) ks"
  shows "map (post_of tw) ks = tw_timeline u tw"
proof -
  let ?D = "dom (posts tw u)" and ?f = "\<lambda>k. - post_time k"
  let ?L = "rev (sorted_list_of_set ?D)"
  have time: "post_time (FormatPostKey u t) = t" "post_user (FormatPostKey u t) = u" if tD: "t \<in> ?D" for t
  proof -
    obtain c where c: "posts tw u t = Some c" using tD by blast
    have "CHR '':'' \<notin> set u" using assms(2) c unfolding plain_names_def by blast
    then show "post_time (FormatPostKey u t) = t" "post_user (FormatPostKey u t) = u"
      using representsD(6) [OF assms(1) c] by simp_all
  qed
  have fin: "finite ?D"
    using assms(3) time by (metis finite_imageD inj_onI post_keys_def)
  have inj: "inj_on ?f (post_keys tw u)" using time by (auto simp: inj_on_def post_keys_def)
  let ?M = "map (FormatPostKey u) ?L"
  have "map ?f ?M = map uminus ?L" using time fin by simp
  moreover have "sorted (map uminus (rev xs))" if "sorted xs" for xs :: "int list"
    using that by (induction xs) (auto simp: sorted_append)
  then have "sorted (map uminus ?L)" by (simp del: rev_map)
  ultimately have srt: "sorted (map ?f ?M)" by (simp only:)
  have "inj_on (FormatPostKey u) ?D" by (rule inj_on_inverseI [of _ post_time]) (rule time(1))
  then have dist: "distinct ?M" using fin by (simp add: distinct_map)
  have "set ?M = post_keys tw u" using fin by (simp add: post_keys_def)
  with smallest_take [OF dist srt, of 100] have "smallest 100 ?f (post_keys tw u) (take 100 ?M)" by simp
  then have "ks = take 100 ?M" using smallest_unique [OF assms(4) _ inj] by blast
  then have "map (post_of tw) ks = map (\<lambda>t. post_of tw (FormatPostKey u t)) (take 100 ?L)"
    by (simp add: take_map)
  also have "\<dots> = tw_timeline u tw"
    unfolding tw_timeline_def
    by (rule map_cong) (use fin time in \<open>auto simp: post_of_def dest!: in_set_takeD\<close>)
  finally show ?thesis .
qed

context libstore_contract
begin

lemma timeline_loop_result:
  assumes "ts_storage ts = L" and "reached winv data tw w" and "\<forall>k\<in>set keys. \<exists>u\<in>U. k \<in> post_keys tw u"
    and "plain_names U tw"
  shows "\<exists>w'. timeline_loop ts (int n) keys ps w = Inr (Inr (ps @ map (post_of tw) (take n keys)), w') \<and>
    reached winv data tw w' \<and> data w' = data w"
  using assms(2,3)
proof (induction keys arbitrary: n ps w)
  case Nil
  then show ?case by simp
next
  case (Cons k keys)
  show ?case
  proof (cases n)
    case 0
    with Cons.prems show ?thesis by simp
  next
    case (Suc m)
    have w: "winv w" "represents (data w) tw" using Cons.prems(1) by (auto simp: reached_def)
    obtain u where "u \<in> U" "k \<in> post_keys tw u" using Cons.prems(2) by auto
    then obtain t c where k: "posts tw u t = Some c" "post_user k = u" "post_time k = t" "data w k = Some {c}"
      using post_keysE [OF w(2) assms(4)] by metis
    obtain w1 where g: "lib_Get L k w = Inr (Inr c, w1)" and s: "lib_step winv data idle k (data w) w w1"
      using get_value [OF w(1) k(4)] by blast
    have w1: "reached winv data tw w1" "data w1 = data w"
      using lib_stepD(1,2) [OF s] w(2) by (auto simp: reached_def)
    have "ParsePostKey k = Inr (u, t, snd (snd (parse_post k)))"
      using ParsePostKey_total parse_post_eq k(2,3) by metis
    then have "timeline_loop ts (int n) (k # keys) ps w =
        timeline_loop ts (int m) keys (ps @ [post_of tw k]) w1"
      using g k Suc assms(1) by (simp add: post_of_def)
    moreover obtain w' where "timeline_loop ts (int m) keys (ps @ [post_of tw k]) w1 =
        Inr (Inr ((ps @ [post_of tw k]) @ map (post_of tw) (take m keys)), w')"
      "reached winv data tw w'" "data w' = data w1"
      using Cons.IH [OF w1(1), of m "ps @ [post_of tw k]"] Cons.prems(2) by auto
    ultimately show ?thesis using w1(2) Suc by auto
  qed
qed

lemma read_list:
  assumes "reached winv data tw w"
  shows "\<exists>r w'. lib_GetList L k w = Inr (r, w') \<and> reached winv data tw w' \<and> data w' = data w \<and>
    (case r of Inl err \<Rightarrow> items (data w) k = {} | Inr vs \<Rightarrow> vs = sorted_list_of_set (items (data w) k)) \<and>
    finite (items (data w) k)"
proof (cases "data w k")
  case None
  with get_list_absent [OF _ None] assms show ?thesis
    by (fastforce simp: reached_def items_def lib_step_def)
next
  case (Some S)
  with get_list [OF _ Some] finite_data [OF _ Some] assms show ?thesis
    by (fastforce simp: reached_def items_def lib_step_def)
qed

lemma newest_of_user:
  assumes "reached winv data tw w" and "go_sort srt"
  shows "smallest 100 (\<lambda>k. - post_time k) (post_keys tw v)
      (take 100 (srt ByRevChronological_Less (sorted_list_of_set (post_keys tw v)))) \<and> finite (post_keys tw v)"
proof -
  have fin: "finite (post_keys tw v)"
    using read_list [OF assms(1), of "FormatPostListKey v"] representsD(4) assms(1)
    by (auto simp: reached_def)
  let ?ks = "srt ByRevChronological_Less (sorted_list_of_set (post_keys tw v))"
  have set_ks: "set ?ks = post_keys tw v" and dist: "distinct ?ks"
    using fin go_sort.set_srt [OF assms(2)] go_sort.distinct_srt [OF assms(2)] by auto
  have "sorted (map (\<lambda>k. - post_time k) ?ks)"
    by (rule go_sort.ordered [OF assms(2)]) (rule Less_time)
  from smallest_take [OF dist this, of 100] fin show ?thesis by (simp only: set_ks)
qed

text \<open>The reply of \<open>Timeline\<close>: the newest hundred posts of the user, newest first.\<close>

lemma Timeline_result:
  assumes "ts_storage ts = L" and "reached winv data tw w" and "plain_names {u} tw" and "go_sort srt"
  shows "\<exists>w' ks. Timeline srt ts \<lparr>tl_UserID = u\<rparr> w =
      Inr (Inr (if u \<in> users tw then \<lparr>tlr_Status = StwOK, tlr_Posts = map (post_of tw) ks\<rparr>
                else \<lparr>tlr_Status = NoSuchUser, tlr_Posts = []\<rparr>), w') \<and>
    reached winv data tw w' \<and> data w' = data w \<and> smallest 100 (\<lambda>k. - post_time k) (post_keys tw u) ks"
proof -
  let ?ks = "srt ByRevChronological_Less (sorted_list_of_set (post_keys tw u))"
  have sm: "smallest 100 (\<lambda>k. - post_time k) (post_keys tw u) (take 100 ?ks)" "finite (post_keys tw u)"
    using newest_of_user [OF assms(2,4)] by auto
  then have set_ks: "set ?ks = post_keys tw u" using go_sort.set_srt [OF assms(4)] by simp
  from assms(2) show ?thesis
  proof (cases rule: get_user [where u = u])
    case (none err w')
    with sm assms(1) show ?thesis by (auto simp: Timeline_def)
  next
    case (user w2)
    obtain r w3 where l: "lib_GetList L (FormatPostListKey u) w2 = Inr (r, w3)" "reached winv data tw w3"
      "data w3 = data w2" "case r of Inl err \<Rightarrow> items (data w2) (FormatPostListKey u) = {}
         | Inr vs \<Rightarrow> vs = sorted_list_of_set (items (data w2) (FormatPostListKey u))"
      using read_list [OF user(3)] by blast
    have it: "items (data w2) (FormatPostListKey u) = post_keys tw u"
      using user(3) representsD(4) by (auto simp: reached_def)
    show ?thesis
    proof (cases r)
      case (Inl err)
      then have "post_keys tw u = {}" using l(4) it by simp
      then have "smallest 100 (\<lambda>k. - post_time k) (post_keys tw u) []" by (simp add: smallest_def)
      with Inl user l assms(1) show ?thesis by (auto simp: Timeline_def intro!: exI [of _ "[]"])
    next
      case (Inr vs)
      then have vs: "vs = sorted_list_of_set (post_keys tw u)" using l(4) it by simp
      have "\<forall>k\<in>set ?ks. \<exists>v\<in>{u}. k \<in> post_keys tw v" using set_ks by auto
      from timeline_loop_result [OF assms(1) l(2) this assms(3), of 100 "[]"] obtain w4 where
        "timeline_loop ts 100 ?ks [] w3 = Inr (Inr (map (post_of tw) (take 100 ?ks)), w4)"
        "reached winv data tw w4" "data w4 = data w3" by auto
      with Inr vs user l(1,3) assms(1) sm show ?thesis
        by (auto simp: Timeline_def intro!: exI [of _ "take 100 ?ks"])
    qed
  qed
qed

text \<open>What \<open>gather_posts\<close> collects.\<close>

lemma gather_posts_result:
  assumes "ts_storage ts = L" and "reached winv data tw w" and "go_sort srt"
  shows "\<exists>w'. gather_posts srt ts vs pKeys w =
      Inr (pKeys @ concat (map (\<lambda>v. take 100 (srt ByRevChronological_Less
             (sorted_list_of_set (post_keys tw v)))) vs), w') \<and>
    reached winv data tw w' \<and> data w' = data w"
  using assms(2)
proof (induction vs arbitrary: pKeys w)
  case Nil
  then show ?case by simp
next
  case (Cons v vs)
  obtain r w1 where l: "lib_GetList L (FormatPostListKey v) w = Inr (r, w1)" "reached winv data tw w1"
    "data w1 = data w" "case r of Inl err \<Rightarrow> items (data w) (FormatPostListKey v) = {}
       | Inr xs \<Rightarrow> xs = sorted_list_of_set (items (data w) (FormatPostListKey v))"
    using read_list [OF Cons.prems] by blast
  have it: "items (data w) (FormatPostListKey v) = post_keys tw v"
    using Cons.prems representsD(4) by (auto simp: reached_def)
  let ?s = "\<lambda>v. srt ByRevChronological_Less (sorted_list_of_set (post_keys tw v))"
  have len: "length (?s v) = length (sorted_list_of_set (post_keys tw v))"
    by (rule go_sort.length_srt [OF assms(3)])
  have "gather_posts srt ts (v # vs) pKeys w = gather_posts srt ts vs (pKeys @ take 100 (?s v)) w1"
  proof (cases r)
    case (Inl err)
    then have "?s v = []" using l(4) it len by simp
    with Inl l(1) assms(1) show ?thesis by simp
  next
    case (Inr xs)
    then have xs: "xs = sorted_list_of_set (post_keys tw v)" using l(4) it by simp
    have "take (if length xs < 100 then length xs else 100) (?s v) = take 100 (?s v)"
      using len xs by simp
    moreover have "gather_posts srt ts (v # vs) pKeys w =
        gather_posts srt ts vs (pKeys @ take (if length xs < 100 then length xs else 100) (?s v)) w1"
      using Inr l(1) assms(1) by (simp only: gather_posts.simps xs go_bind_simps prod.case sum.case Let_def)
    ultimately show ?thesis by (simp only:)
  qed
  with Cons.IH [OF l(2), of "pKeys @ take 100 (?s v)"] l(3) show ?case by auto
qed

text \<open>The reply of \<open>HomeTimeline\<close>: the newest hundred posts of all the users followed.\<close>

lemma HomeTimeline_result:
  assumes "ts_storage ts = L" and "reached winv data tw w" and "plain_names (follows tw `` {u}) tw" and "go_sort srt"
  shows "\<exists>w' ks. HomeTimeline srt ts \<lparr>tl_UserID = u\<rparr> w =
      Inr (Inr (if u \<in> users tw then \<lparr>tlr_Status = StwOK, tlr_Posts = map (post_of tw) ks\<rparr>
                else \<lparr>tlr_Status = NoSuchUser, tlr_Posts = []\<rparr>), w') \<and>
    reached winv data tw w' \<and> data w' = data w \<and>
    (u \<in> users tw \<longrightarrow> smallest 100 (\<lambda>k. - post_time k) (\<Union>v\<in>follows tw `` {u}. post_keys tw v) ks)"
  using assms(2)
proof (cases rule: get_user [where u = u])
  case (none err w')
  with assms(1) show ?thesis by (auto simp: HomeTimeline_def)
next
  case (user w1)
  let ?f = "\<lambda>k. - post_time k" and ?less = ByRevChronological_Less
  let ?s = "\<lambda>v. srt ?less (sorted_list_of_set (post_keys tw v))"
  obtain r w2 where l: "lib_GetList L (FormatSubListKey u) w1 = Inr (r, w2)" "reached winv data tw w2"
    "data w2 = data w1" "case r of Inl err \<Rightarrow> items (data w1) (FormatSubListKey u) = {}
       | Inr xs \<Rightarrow> xs = sorted_list_of_set (items (data w1) (FormatSubListKey u))"
    "finite (items (data w1) (FormatSubListKey u))"
    using read_list [OF user(3)] by blast
  define vs where "vs = (case r of Inl _ \<Rightarrow> [] | Inr xs \<Rightarrow> xs)"
  have it: "items (data w1) (FormatSubListKey u) = follows tw `` {u}"
    using user(3) representsD(3) by (auto simp: reached_def)
  have vs: "set vs = follows tw `` {u}" "distinct vs" using l(4,5) it by (auto simp: vs_def split: sum.splits)
  obtain w3 where g: "gather_posts srt ts vs [] w2 = Inr (concat (map (\<lambda>v. take 100 (?s v)) vs), w3)"
    "reached winv data tw w3" "data w3 = data w2"
    using gather_posts_result [OF assms(1) l(2) assms(4), of vs "[]"] by auto
  let ?Q = "srt ?less (concat (map (\<lambda>v. take 100 (?s v)) vs))"
  have part: "smallest 100 ?f (post_keys tw v) (take 100 (?s v)) \<and> finite (post_keys tw v)" for v
    by (rule newest_of_user [OF assms(2,4)])
  have disj: "post_keys tw a \<inter> post_keys tw b = {}" if "a \<noteq> b" for a b
    using post_keys_disjoint [OF _ that] assms(2) unfolding reached_def by blast
  have "sorted (map ?f ?Q)" by (rule go_sort.ordered [OF assms(4)]) (rule Less_time)
  with part disj have sm: "smallest 100 ?f (\<Union>v\<in>set vs. post_keys tw v) (take 100 ?Q)"
    by (intro smallest_union [OF vs(2) _ _ go_sort.perm [OF assms(4)]])
  have sub: "set (take 100 (?s v)) \<subseteq> post_keys tw v" for v using part unfolding smallest_def by blast
  have "set ?Q = (\<Union>v\<in>set vs. set (take 100 (?s v)))" by (simp add: go_sort.set_srt [OF assms(4)])
  with sub vs(1) have "\<forall>k\<in>set ?Q. \<exists>v\<in>follows tw `` {u}. k \<in> post_keys tw v" by blast
  from timeline_loop_result [OF assms(1) g(2) this assms(3), of 100 "[]"] obtain w4 where
    "timeline_loop ts 100 ?Q [] w3 = Inr (Inr (map (post_of tw) (take 100 ?Q)), w4)"
    "reached winv data tw w4" "data w4 = data w3" by auto
  with user l(1,3) g(1,3) assms(1) sm vs(1) show ?thesis
    by (auto simp: HomeTimeline_def home_loop_eq vs_def [symmetric] Let_def intro!: exI [of _ "take 100 ?Q"])
qed

end

end
