(* ===== verification/Cluster_Store.thy ===== *)
theory Cluster_Store
  imports Coherence Stw_Timelines
begin

text \<open>
  The libstore over a cluster keeps the contract that the application relies on, as long as the
  clocks of the storage servers stay within the life of a lease: the interpretation of the locale
  \<open>libstore_contract\<close> on the methods of the theory \<open>Cluster\<close>.
\<close>

section \<open>The libstore of one app server as an implementation of the interface\<close>

text \<open>The world is the cluster and the number of calls made so far; \<open>es n\<close> is the environment of
  the \<open>n\<close>-th call.\<close>

type_synonym world = "cluster \<times> nat"

definition on_world ::
  "(cl_env \<Rightarrow> cluster \<Rightarrow> ('r \<times> cluster) go) \<Rightarrow> (nat \<Rightarrow> cl_env) \<Rightarrow> world \<Rightarrow> ('r \<times> world) go" where
  "on_world f es w = go_bind (f (es (snd w)) (fst w)) (\<lambda>(r, cl). Inr (r, cl, Suc (snd w)))"

definition cluster_Libstore :: "(nat \<Rightarrow> cl_env) \<Rightarrow> string \<Rightarrow> world Libstore" where
  "cluster_Libstore es h =
     \<lparr>lib_Get = (\<lambda>k. on_world (\<lambda>e. ls_Get e h k) es),
      lib_Put = (\<lambda>k v. on_world (\<lambda>e. ls_Put e h k v) es),
      lib_Delete = (\<lambda>k. on_world (\<lambda>e. ls_Delete e h k) es),
      lib_GetList = (\<lambda>k. on_world (\<lambda>e. ls_GetList e h k) es),
      lib_AppendToList = (\<lambda>k v. on_world (\<lambda>e. ls_AppendToList e h k v) es),
      lib_RemoveFromList = (\<lambda>k v. on_world (\<lambda>e. ls_RemoveFromList e h k v) es)\<rparr>"

definition store_kv :: "u32 list \<Rightarrow> addresses \<Rightarrow> world \<Rightarrow> kv" where
  "store_kv R N w = abs_kv (cl_data R N (fst w))"

definition store_idle :: "world \<Rightarrow> string \<Rightarrow> bool" where
  "store_idle w k \<longleftrightarrow> unleased (fst w) k"

text \<open>From time \<open>T\<close> on, and for the life of a lease with its guard: every lease record is of that
  time, and so is every reading of the storage servers' clocks in the calls to come.  The app servers at
  \<open>hosts\<close> are up; each of them keeps the contract for all of them.\<close>

definition in_window :: "int \<Rightarrow> int \<Rightarrow> bool" where
  "in_window T t \<longleftrightarrow> T \<le> t \<and> t \<le> T + LeaseSeconds + LeaseGuardSeconds \<and> int64 t"

definition store_inv :: "u32 list \<Rightarrow> addresses \<Rightarrow> int \<Rightarrow> (nat \<Rightarrow> cl_env) \<Rightarrow> string set \<Rightarrow> world \<Rightarrow> bool" where
  "store_inv R N T es hosts w \<longleftrightarrow>
     (\<forall>h\<in>hosts. ready R N h (fst w)) \<and> (\<forall>k. \<forall>r\<in>set (cl_tenants R N (fst w) k). T \<le> lease_time r) \<and>
     (\<forall>i\<ge>snd w. \<forall>n. in_window T (srv_clk (es i) n))"

lemma store_inv_timely:
  assumes "store_inv R N T es (insert h H) w"
  shows "timely R N (es (snd w)) (fst w) key"
  unfolding timely_def
proof (intro allI impI)
  fix n assume "n < length (cl_tenants R N (fst w) key)"
  then have "cl_tenants R N (fst w) key ! n \<in> set (cl_tenants R N (fst w) key)" by simp
  then have "T \<le> lease_time (cl_tenants R N (fst w) key ! n)" using assms unfolding store_inv_def by blast
  moreover have "srv_clk (es (snd w)) n \<le> T + LeaseSeconds + LeaseGuardSeconds"
    using assms unfolding store_inv_def in_window_def by blast
  ultimately show
    "srv_clk (es (snd w)) n \<le> lease_time (cl_tenants R N (fst w) key ! n) + LeaseSeconds + LeaseGuardSeconds"
    by simp
qed

lemma store_step:
  assumes "store_inv R N T es (insert h H) w" and "moved R N (es (snd w)) key d (fst w) cl'"
  shows "lib_step (store_inv R N T es (insert h H)) (store_kv R N) store_idle key (abs_kv d) w (cl', Suc (snd w))"
proof -
  have rd: "ready R N h (fst w)" using assms(1) by (simp add: store_inv_def)
  have "T \<le> lease_time r" if "r \<in> set (cl_tenants R N cl' k)" for k r
  proof (cases "r \<in> set (cl_tenants R N (fst w) k)")
    case True
    then show ?thesis using assms(1) unfolding store_inv_def by blast
  next
    case False
    then have "new_record (es (snd w)) r" using assms(2) that unfolding moved_def by blast
    then obtain g where "CHR ''~'' \<notin> set g" "r = FormatLeaseRecord g (srv_clk (es (snd w)) 0)"
      by (auto simp: new_record_def)
    moreover have "in_window T (srv_clk (es (snd w)) 0)" using assms(1) unfolding store_inv_def by blast
    ultimately show ?thesis by (simp add: in_window_def)
  qed
  then have "store_inv R N T es (insert h H) (cl', Suc (snd w))"
    using moved_ready [OF _ assms(2)] assms(1) by (simp add: store_inv_def)
  then show ?thesis
    using assms(2) by (auto simp: lib_step_def store_kv_def store_idle_def moved_def)
qed

lemma store_kv_Some:
  assumes "store_inv R N T es (insert h H) w" and "store_kv R N w k = Some S"
  obtains vs where "cl_data R N (fst w) k = Some vs" and "set vs = S" and "ssorted vs"
proof -
  obtain vs where vs: "cl_data R N (fst w) k = Some vs" "set vs = S"
    using assms(2) by (auto simp: store_kv_def abs_kv_def)
  have rd: "ready R N h (fst w)" using assms(1) by (simp add: store_inv_def)
  obtain ss where "serving (server_env (es 0) (fst w)) ss k" "ss_storage ss k = cl_data R N (fst w) k"
    by (rule ready_owner [OF rd])
  then have "ssorted vs" using serving_sorted vs(1) by metis
  with vs show thesis by (rule that)
qed

lemma store_kv_None: "store_kv R N w k = None \<longleftrightarrow> cl_data R N (fst w) k = None"
  by (simp add: store_kv_def)

lemma ssorted_single: "ssorted vs \<Longrightarrow> set vs = {v} \<Longrightarrow> vs = [v]"
  using ssorted_unique [of vs "[v]"] by simp

section \<open>The contract\<close>

lemma on_world_Inr: "f (es (snd w)) (fst w) = Inr (r, cl') \<Longrightarrow> on_world f es w = Inr (r, cl', Suc (snd w))"
  by (simp add: on_world_def)

lemma store_outcome:
  assumes "store_inv R N T es (insert h H) w" and "f (es (snd w)) (fst w) = Inr (r, cl')"
    and "moved R N (es (snd w)) key d (fst w) cl'" and "abs_kv d = d'"
  shows "\<exists>w'. on_world f es w = Inr (r, w') \<and>
    lib_step (store_inv R N T es (insert h H)) (store_kv R N) store_idle key d' w w'"
  using store_step [OF assms(1,3)] on_world_Inr [of f es w] assms(2,4) by blast

lemma store_get:
  assumes "store_inv R N T es (insert h H) w" and "store_kv R N w k = None \<or> store_kv R N w k = Some {v}"
  shows "\<exists>r w'. lib_Get (cluster_Libstore es h) k w = Inr (r, w') \<and>
    (case store_kv R N w k of None \<Rightarrow> r = Inl (not_found k) | Some _ \<Rightarrow> r = Inr v) \<and>
    lib_step (store_inv R N T es (insert h H)) (store_kv R N) store_idle k (store_kv R N w) w w'"
proof -
  have rd: "ready R N h (fst w)" using assms(1) by (simp add: store_inv_def)
  have one: "vs = [v]" if "cl_data R N (fst w) k = Some vs" for vs
  proof -
    have "store_kv R N w k = Some {v}" using assms(2) that by (auto simp: store_kv_None)
    then show ?thesis using store_kv_Some [OF assms(1)] that ssorted_single by (metis option.inject)
  qed
  then have "length vs = 1" if "cl_data R N (fst w) k = Some vs" for vs using that by auto
  then obtain r cl' where "ls_Get (es (snd w)) h k (fst w) = Inr (r, cl')"
    "moved R N (es (snd w)) k (cl_data R N (fst w)) (fst w) cl'"
    "case cl_data R N (fst w) k of None \<Rightarrow> r = Inl (not_found k) | Some _ \<Rightarrow> r = Inr v"
    using ls_Get_result [OF rd, of k "es (snd w)"] one by (smt (verit) list.inject option.simps(4,5))
  then show ?thesis
    using store_step [OF assms(1)]
    by (fastforce simp: cluster_Libstore_def on_world_Inr store_kv_def abs_kv_def split: option.splits)
qed

lemma store_get_list:
  assumes "store_inv R N T es (insert h H) w"
  shows "\<exists>r w'. lib_GetList (cluster_Libstore es h) k w = Inr (r, w') \<and>
    (case store_kv R N w k of None \<Rightarrow> r = Inl (not_found k) | Some S \<Rightarrow> r = Inr (sorted_list_of_set S)) \<and>
    lib_step (store_inv R N T es (insert h H)) (store_kv R N) store_idle k (store_kv R N w) w w'"
proof -
  have rd: "ready R N h (fst w)" using assms(1) by (simp add: store_inv_def)
  from rd show ?thesis
  proof (cases rule: ls_GetList_result [where key = k and e = "es (snd w)"])
    case (found vs cl')
    then have kv: "store_kv R N w k = Some (set vs)" by (simp add: store_kv_def abs_kv_Some)
    then have "ssorted vs" using store_kv_Some [OF assms kv] found(1) by (metis option.inject)
    then have "sorted_list_of_set (set vs) = vs" by (rule ssorted_list_of_set)
    with kv store_outcome [where f = "\<lambda>e. ls_GetList e h k", OF assms found(2,3) refl] show ?thesis
      by (simp add: cluster_Libstore_def flip: store_kv_def)
  next
    case (absent cl')
    then have "store_kv R N w k = None" by (simp add: store_kv_None)
    with store_outcome [where f = "\<lambda>e. ls_GetList e h k", OF assms absent(2,3) refl] show ?thesis
      by (simp add: cluster_Libstore_def flip: store_kv_def)
  qed
qed

lemma store_put:
  assumes "store_inv R N T es (insert h H) w"
  shows "\<exists>w'. lib_Put (cluster_Libstore es h) k v w = Inr (None, w') \<and>
    lib_step (store_inv R N T es (insert h H)) (store_kv R N) store_idle k ((store_kv R N w)(k \<mapsto> {v})) w w'"
proof -
  have rd: "ready R N h (fst w)" using assms(1) by (simp add: store_inv_def)
  obtain cl' where put: "ls_Put (es (snd w)) h k v (fst w) = Inr (None, cl')"
    "moved R N (es (snd w)) k ((cl_data R N (fst w))(k \<mapsto> [v])) (fst w) cl'"
    by (rule ls_Put_result [OF rd store_inv_timely [OF assms]])
  have "abs_kv ((cl_data R N (fst w))(k \<mapsto> [v])) = (store_kv R N w)(k \<mapsto> {v})" by (simp add: store_kv_def)
  from store_outcome [where f = "\<lambda>e. ls_Put e h k v", OF assms put this] show ?thesis
    by (simp add: cluster_Libstore_def)
qed

lemma store_delete:
  assumes "store_inv R N T es (insert h H) w" and "store_kv R N w k = Some S"
  shows "\<exists>w'. lib_Delete (cluster_Libstore es h) k w = Inr (None, w') \<and>
    lib_step (store_inv R N T es (insert h H)) (store_kv R N) store_idle k ((store_kv R N w)(k := None)) w w'"
proof -
  have rd: "ready R N h (fst w)" using assms(1) by (simp add: store_inv_def)
  have some: "cl_data R N (fst w) k \<noteq> None" using assms(2) by (simp flip: store_kv_None)
  obtain cl' where del: "ls_Delete (es (snd w)) h k (fst w) =
      Inr (if cl_data R N (fst w) k = None then Some (not_found k) else None, cl')"
    "moved R N (es (snd w)) k ((cl_data R N (fst w))(k := None)) (fst w) cl'"
    by (rule ls_Delete_result [OF rd store_inv_timely [OF assms(1)]])
  have "abs_kv ((cl_data R N (fst w))(k := None)) = (store_kv R N w)(k := None)" by (simp add: store_kv_def)
  from store_outcome [where f = "\<lambda>e. ls_Delete e h k", OF assms(1) del(1) [unfolded if_not_P [OF some]] del(2) this]
  show ?thesis by (simp add: cluster_Libstore_def)
qed

lemma store_append:
  assumes "store_inv R N T es (insert h H) w" and "store_kv R N w k = Some {} \<longrightarrow> store_idle w k"
  shows "\<exists>err w'. lib_AppendToList (cluster_Libstore es h) k v w = Inr (err, w') \<and>
    (err = None \<longleftrightarrow> fst (kv_append k v (store_kv R N w)) = OK) \<and>
    lib_step (store_inv R N T es (insert h H)) (store_kv R N) store_idle k (snd (kv_append k v (store_kv R N w))) w w'"
proof -
  have rd: "ready R N h (fst w)" using assms(1) by (simp add: store_inv_def)
  have empty: "unleased (fst w) k" if "cl_data R N (fst w) k = Some []"
    using assms(2) that by (simp add: store_kv_def abs_kv_Some store_idle_def)
  show ?thesis
  proof (rule ls_Append_result [OF rd store_inv_timely [OF assms(1)] empty, where v = v])
    fix vs ws cl'
    assume fresh: "vs = (case cl_data R N (fst w) k of None \<Rightarrow> [] | Some vs \<Rightarrow> vs)" "v \<notin> set vs"
      "ls_AppendToList (es (snd w)) h k v (fst w) = Inr (None, cl')"
      "moved R N (es (snd w)) k ((cl_data R N (fst w))(k \<mapsto> ws)) (fst w) cl'" "ssorted ws"
      "set ws = insert v (set vs)"
    have kv: "kv_append k v (store_kv R N w) = (OK, (store_kv R N w)(k \<mapsto> set ws))"
      using fresh(1,2,6)
      by (cases "cl_data R N (fst w) k") (simp_all add: kv_append_def store_kv_def abs_kv_Some abs_kv_absent)
    have "abs_kv ((cl_data R N (fst w))(k \<mapsto> ws)) = (store_kv R N w)(k \<mapsto> set ws)"
      by (simp add: store_kv_def)
    note st = store_outcome [where f = "\<lambda>e. ls_AppendToList e h k v", OF assms(1) fresh(3,4) this]
    from kv st show ?thesis by (simp add: cluster_Libstore_def)
  next
    fix vs err cl'
    assume present: "cl_data R N (fst w) k = Some vs" "v \<in> set vs"
      "ls_AppendToList (es (snd w)) h k v (fst w) = Inr (Some err, cl')"
      "moved R N (es (snd w)) k (cl_data R N (fst w)) (fst w) cl'"
    then have "kv_append k v (store_kv R N w) = (ItemExists, store_kv R N w)"
      by (simp add: kv_append_def store_kv_def abs_kv_Some)
    with store_outcome [where f = "\<lambda>e. ls_AppendToList e h k v", OF assms(1) present(3,4) refl] show ?thesis
      by (fastforce simp: cluster_Libstore_def simp flip: store_kv_def)
  qed
qed

lemma store_remove:
  assumes "store_inv R N T es (insert h H) w"
  shows "\<exists>err w'. lib_RemoveFromList (cluster_Libstore es h) k v w = Inr (err, w') \<and>
    (err = None \<longleftrightarrow> fst (kv_remove k v (store_kv R N w)) = OK) \<and>
    lib_step (store_inv R N T es (insert h H)) (store_kv R N) store_idle k (snd (kv_remove k v (store_kv R N w))) w w'"
proof -
  have rd: "ready R N h (fst w)" using assms(1) by (simp add: store_inv_def)
  show ?thesis
  proof (rule ls_Remove_result [OF rd store_inv_timely [OF assms(1)], where v = v])
    fix vs ws cl'
    assume present: "cl_data R N (fst w) k = Some vs" "v \<in> set vs"
      "ls_RemoveFromList (es (snd w)) h k v (fst w) = Inr (None, cl')"
      "moved R N (es (snd w)) k ((cl_data R N (fst w))(k \<mapsto> ws)) (fst w) cl'" "ssorted ws"
      "set ws = set vs - {v}"
    then have kv: "kv_remove k v (store_kv R N w) = (OK, (store_kv R N w)(k \<mapsto> set ws))"
      by (simp add: kv_remove_def store_kv_def abs_kv_Some)
    have "abs_kv ((cl_data R N (fst w))(k \<mapsto> ws)) = (store_kv R N w)(k \<mapsto> set ws)"
      by (simp add: store_kv_def)
    note st = store_outcome [where f = "\<lambda>e. ls_RemoveFromList e h k v", OF assms(1) present(3,4) this]
    from kv st show ?thesis by (simp add: cluster_Libstore_def)
  next
    fix err cl'
    assume absent: "\<forall>vs. cl_data R N (fst w) k = Some vs \<longrightarrow> v \<notin> set vs"
      "ls_RemoveFromList (es (snd w)) h k v (fst w) = Inr (Some err, cl')"
      "moved R N (es (snd w)) k (cl_data R N (fst w)) (fst w) cl'"
    then have "kv_remove k v (store_kv R N w) = (ItemNotFound, store_kv R N w)"
      by (cases "cl_data R N (fst w) k")
        (simp_all add: kv_remove_def store_kv_def abs_kv_Some abs_kv_absent)
    with store_outcome [where f = "\<lambda>e. ls_RemoveFromList e h k v", OF assms(1) absent(2,3) refl] show ?thesis
      by (fastforce simp: cluster_Libstore_def simp flip: store_kv_def)
  qed
qed

interpretation store: libstore_contract "cluster_Libstore es h" "store_inv R N T es (insert h H)" "store_kv R N" store_idle
  for es h H R N T
proof (unfold_locales, goal_cases)
  case (1 w k S)
  then show ?case by (metis List.finite_set store_kv_Some)
next
  case (2 w k v)
  with store_get [OF 2(1), of k v] show ?case by auto
next
  case (3 w k)
  with store_get [OF 3(1), of k] show ?case by auto
next
  case (4 w k S)
  with store_get_list [OF 4(1), of k] show ?case by auto
next
  case (5 w k)
  with store_get_list [OF 5(1), of k] show ?case by auto
next
  case (6 w k v)
  then show ?case by (rule store_put)
next
  case (7 w k S)
  then show ?case by (rule store_delete)
next
  case (8 w k v)
  then show ?case by (rule store_append)
next
  case (9 w k v)
  then show ?case by (rule store_remove)
qed

end
