(* ===== verification/Stw_Props.thy ===== *)
theory Stw_Props
  imports Stw_Timelines Cluster_Store Cluster_Props
begin

text \<open>
  The properties of the application server, run over the libstore of the app server \<open>h\<close> on a cluster
  of storage servers with ring \<open>R\<close> and addresses \<open>N\<close>.
\<close>

section \<open>A populated cluster\<close>

text \<open>The world of the app server at \<open>h\<close> represents the abstract state \<open>tw\<close>; its clocks are those of
  \<open>es\<close>, within a lease's life of \<open>T\<close>.\<close>

definition serves :: "u32 list \<Rightarrow> addresses \<Rightarrow> int \<Rightarrow> (nat \<Rightarrow> cl_env) \<Rightarrow> string \<Rightarrow> twitter \<Rightarrow> world \<Rightarrow> bool" where
  "serves R N T es h tw w \<longleftrightarrow> reached (store_inv R N T es {h}) (store_kv R N) tw w"

text \<open>The list under \<open>k\<close> is not an empty one that some app server has leased.\<close>

definition may_append :: "u32 list \<Rightarrow> addresses \<Rightarrow> world \<Rightarrow> string \<Rightarrow> bool" where
  "may_append R N w k \<longleftrightarrow> appendable (store_kv R N) store_idle w k"

definition app_server :: "(nat \<Rightarrow> cl_env) \<Rightarrow> string \<Rightarrow> world stwServer \<Rightarrow> bool" where
  "app_server es h ts \<longleftrightarrow> ts_storage ts = cluster_Libstore es h"

definition demo_data :: "string \<rightharpoonup> string list" where
  "demo_data =
     [FormatUserKey ''alice'' \<mapsto> [[]], FormatUserKey ''bob'' \<mapsto> [[]],
      FormatSubListKey ''alice'' \<mapsto> [''bob''],
      FormatPostListKey ''bob'' \<mapsto> [FormatPostKey ''bob'' 1, FormatPostKey ''bob'' 2],
      FormatPostKey ''bob'' 1 \<mapsto> [''first''], FormatPostKey ''bob'' 2 \<mapsto> [''second'']]"

definition demo_world :: world where
  "demo_world = (demo_cluster\<lparr>cl_servers := [''s:1'' \<mapsto> demo_node\<lparr>ss_storage := demo_data\<rparr>]\<rparr>, 0)"

definition demo_tw :: twitter where
  "demo_tw = \<lparr>users = {''alice'', ''bob''}, follows = {(''alice'', ''bob'')},
     posts = (\<lambda>_. Map.empty)(''bob'' := [1 \<mapsto> ''first'', 2 \<mapsto> ''second''])\<rparr>"

definition demo_clock :: "nat \<Rightarrow> cl_env" where
  "demo_clock n = at_time 100"

definition demo_ts :: "world stwServer" where
  "demo_ts = \<lparr>ts_nodes = [''a:1''], ts_numNodes = 1, ts_storage = cluster_Libstore demo_clock ''a:1''\<rparr>"

lemma demo_ts_app [simp]: "app_server demo_clock ''a:1'' demo_ts"
  by (simp add: app_server_def demo_ts_def)

lemma small_times [simp]: "int64 1" "int64 2" "int64 100"
  by (simp_all add: int64_def)

lemma demo_world_sel [simp]:
  "server_for demo_ring demo_addresses (fst demo_world) k = Some (demo_node\<lparr>ss_storage := demo_data\<rparr>)"
  "cl_data demo_ring demo_addresses (fst demo_world) = demo_data"
  "cl_tenants demo_ring demo_addresses (fst demo_world) k = []"
  "cl_libs (fst demo_world) = cl_libs demo_cluster"
  by (auto simp: demo_world_def server_for_def cl_data_def cl_tenants_def demo_node_def tenants_of_def fun_eq_iff)

lemma demo_data_sorted: "demo_data k = Some vs \<Longrightarrow> ssorted vs"
proof -
  have "FormatPostKey ''bob'' 1 < FormatPostKey ''bob'' 2" by code_simp
  then show "demo_data k = Some vs \<Longrightarrow> ssorted vs" by (auto simp: demo_data_def split: if_splits)
qed

lemma demo_ready: "ready demo_ring demo_addresses ''a:1'' (fst demo_world)"
proof -
  have "ss_inv (demo_node\<lparr>ss_storage := demo_data\<rparr>)"
    using demo_data_sorted by (simp add: ss_inv_defs demo_node_def)
  then have "servers_wf demo_ring demo_addresses (cl_servers (fst demo_world))"
    by (simp add: servers_wf_def server_ok_def demo_world_def demo_node_def)
  moreover have "libs_wf demo_ring demo_addresses (fst demo_world)"
    using demo_wf by (simp add: cl_wf_def libs_wf_def)
  ultimately have "cl_wf demo_ring demo_addresses (fst demo_world)" by (simp add: cl_wf_def)
  moreover have "coherent demo_ring demo_addresses (fst demo_world)"
    unfolding coherent_def demo_world_sel using demo_libs demo_lib_inv(2) by blast
  ultimately show ?thesis by (simp add: ready_def demo_cluster_def)
qed

lemma demo_represents: "represents (abs_kv demo_data) demo_tw"
  unfolding represents_def
proof (intro conjI allI impI)
  fix u t
  show "abs_kv demo_data (FormatUserKey u) = (if u \<in> users demo_tw then Some {[]} else None)"
    by (simp add: demo_data_def demo_tw_def abs_kv_def)
  show "items (abs_kv demo_data) (FormatSubListKey u) = follows demo_tw `` {u}"
    by (auto simp: demo_data_def demo_tw_def abs_kv_def items_def)
  show "items (abs_kv demo_data) (FormatPostListKey u) = post_keys demo_tw u"
    by (simp add: demo_data_def demo_tw_def abs_kv_def items_def post_keys_def insert_commute)
  show "int64 t" if "posts demo_tw u t \<noteq> None"
    using that by (auto simp: demo_tw_def split: if_splits)
  show "abs_kv demo_data (FormatPostKey u t) = map_option (\<lambda>c. {c}) (posts demo_tw u t)" if "int64 t"
    using that by (auto simp: demo_data_def demo_tw_def abs_kv_def FormatPostKey_inj)
qed

lemma demo_serves: "serves demo_ring demo_addresses 100 demo_clock ''a:1'' demo_tw demo_world"
  using demo_ready demo_represents
  by (simp add: serves_def reached_def store_inv_def store_kv_def in_window_def demo_clock_def at_time_def)

lemma demo_may_append: "may_append demo_ring demo_addresses demo_world k"
  unfolding may_append_def appendable_def store_idle_def unleased_def demo_world_sel
  using demo_libs demo_lib_inv(2) by blast

section \<open>Users, subscriptions and posts\<close>

text \<open>C11: while the clocks that the app server and the storage servers read stay within one lease's life of the
  recorded leases (\<open>serves\<close>), \<open>CreateUser\<close>, \<open>Subscribe\<close> and \<open>Unsubscribe\<close> refine the abstract specification: a new
  user is created and an existing one answered \<open>Exists\<close>; an unknown user, an unknown target, a
  subscription that exists already and one that does not exist are refused with their status, and
  nothing changes; otherwise exactly the one subscription is added or removed.  One branch has a condition:
  a known user may subscribe to a known target only if the user's list is not an empty one that an app server has
  leased (\<open>may_append\<close>).  The append to such a list revokes no lease (C15), and app servers go on reading the empty
  list (C31).\<close>

theorem users_and_subscriptions_refine:
  assumes "app_server es h ts" and "serves R N T es h tw w"
  shows "(\<exists>w'. CreateUser ts \<lparr>cu_UserID = u\<rparr> w = Inr (\<lparr>cur_Status = fst (tw_create u tw)\<rparr>, w') \<and>
      serves R N T es h (snd (tw_create u tw)) w') \<and>
    ((u \<in> users tw \<and> v \<in> users tw \<longrightarrow> may_append R N w (FormatSubListKey u)) \<longrightarrow>
      (\<exists>w'. Subscribe ts \<lparr>su_UserID = u, su_TargetUserID = v\<rparr> w =
        Inr (\<lparr>sur_Status = fst (tw_subscribe u v tw)\<rparr>, w') \<and> serves R N T es h (snd (tw_subscribe u v tw)) w')) \<and>
    (\<exists>w'. Unsubscribe ts \<lparr>su_UserID = u, su_TargetUserID = v\<rparr> w =
      Inr (\<lparr>sur_Status = fst (tw_unsubscribe u v tw)\<rparr>, w') \<and> serves R N T es h (snd (tw_unsubscribe u v tw)) w')"
proof (intro conjI impI)
  have st: "ts_storage ts = cluster_Libstore es h" using assms(1) by (simp add: app_server_def)
  have re: "reached (store_inv R N T es {h}) (store_kv R N) tw w" using assms(2) by (simp add: serves_def)
  show "\<exists>w'. CreateUser ts \<lparr>cu_UserID = u\<rparr> w = Inr (\<lparr>cur_Status = fst (tw_create u tw)\<rparr>, w') \<and>
      serves R N T es h (snd (tw_create u tw)) w'"
    unfolding serves_def by (rule store.CreateUser_refines [OF st re])
  show "\<exists>w'. Subscribe ts \<lparr>su_UserID = u, su_TargetUserID = v\<rparr> w =
        Inr (\<lparr>sur_Status = fst (tw_subscribe u v tw)\<rparr>, w') \<and> serves R N T es h (snd (tw_subscribe u v tw)) w'"
    if "u \<in> users tw \<and> v \<in> users tw \<longrightarrow> may_append R N w (FormatSubListKey u)"
    unfolding serves_def using that by (intro store.Subscribe_refines [OF st re]) (simp add: may_append_def)
  show "\<exists>w'. Unsubscribe ts \<lparr>su_UserID = u, su_TargetUserID = v\<rparr> w =
      Inr (\<lparr>sur_Status = fst (tw_unsubscribe u v tw)\<rparr>, w') \<and> serves R N T es h (snd (tw_unsubscribe u v tw)) w'"
    unfolding serves_def by (rule store.Unsubscribe_refines [OF st re])
qed

theorem users_and_subscriptions_refine_witness:
  "(\<exists>w'. CreateUser demo_ts \<lparr>cu_UserID = ''carol''\<rparr> demo_world = Inr (\<lparr>cur_Status = StwOK\<rparr>, w') \<and>
     serves demo_ring demo_addresses 100 demo_clock ''a:1''
       (demo_tw\<lparr>users := {''carol'', ''alice'', ''bob''}\<rparr>) w') \<and>
   (\<exists>w'. Subscribe demo_ts \<lparr>su_UserID = ''bob'', su_TargetUserID = ''alice''\<rparr> demo_world =
      Inr (\<lparr>sur_Status = StwOK\<rparr>, w') \<and>
    serves demo_ring demo_addresses 100 demo_clock ''a:1''
      (demo_tw\<lparr>follows := {(''bob'', ''alice''), (''alice'', ''bob'')}\<rparr>) w') \<and>
   (\<exists>w'. Unsubscribe demo_ts \<lparr>su_UserID = ''alice'', su_TargetUserID = ''bob''\<rparr> demo_world =
      Inr (\<lparr>sur_Status = StwOK\<rparr>, w') \<and>
    serves demo_ring demo_addresses 100 demo_clock ''a:1'' (demo_tw\<lparr>follows := {}\<rparr>) w')"
  using users_and_subscriptions_refine [OF demo_ts_app demo_serves, of "''carol''"]
    users_and_subscriptions_refine [OF demo_ts_app demo_serves, of "''bob''" "''alice''"]
    users_and_subscriptions_refine [OF demo_ts_app demo_serves, of "''alice''" "''bob''"] demo_may_append
  by (simp add: tw_create_def tw_subscribe_def tw_unsubscribe_def demo_tw_def)

text \<open>C10: while the clocks stay within one lease's life (\<open>serves\<close>), \<open>Post\<close> of a known user at a 64-bit time, whose list
  of posts is not an empty one that an app server has leased (\<open>may_append\<close>), stores the contents under a key made of
  the user and the time, enters the key into the user's list and returns it; an unknown user is refused at any time.
  \<open>DeletePost\<close> deletes a post of a user whose name has no colon, when it is given the key that \<open>Post\<close> returned for it,
  and that post only; an unknown user is refused, and any other key, in particular one of another user and
  every key of a user whose name has a colon (C36), is answered \<open>NoSuchPost\<close>; both change nothing.\<close>

theorem posts_refine:
  assumes "app_server es h ts" and "serves R N T es h tw w"
  shows "((u \<in> users tw \<longrightarrow> may_append R N w (FormatPostListKey u) \<and> int64 now) \<longrightarrow>
      (\<exists>w'. Post now ts \<lparr>pt_UserID = u, pt_Contents = c\<rparr> w =
        Inr (\<lparr>ptr_PostKey = (if u \<in> users tw then FormatPostKey u now else []),
             ptr_Status = fst (tw_post now u c tw)\<rparr>, w') \<and> serves R N T es h (snd (tw_post now u c tw)) w')) \<and>
    (\<exists>w'. DeletePost ts \<lparr>dp_UserID = u, dp_PostKey = key\<rparr> w =
      Inr (\<lparr>dpr_Status = fst (tw_delete u key tw)\<rparr>, w') \<and> serves R N T es h (snd (tw_delete u key tw)) w') \<and>
    (u \<in> users tw \<and> CHR '':'' \<notin> set u \<and> posts tw u t \<noteq> None \<longrightarrow>
      tw_delete u (FormatPostKey u t) tw = (StwOK, tw\<lparr>posts := (posts tw)(u := (posts tw u)(t := None))\<rparr>)) \<and>
    (u \<in> users tw \<and> (CHR '':'' \<in> set u \<or> key \<notin> post_keys tw u) \<longrightarrow> tw_delete u key tw = (NoSuchPost, tw))"
proof (intro conjI impI)
  have st: "ts_storage ts = cluster_Libstore es h" using assms(1) by (simp add: app_server_def)
  have re: "reached (store_inv R N T es {h}) (store_kv R N) tw w" using assms(2) by (simp add: serves_def)
  show "\<exists>w'. Post now ts \<lparr>pt_UserID = u, pt_Contents = c\<rparr> w =
        Inr (\<lparr>ptr_PostKey = (if u \<in> users tw then FormatPostKey u now else []),
             ptr_Status = fst (tw_post now u c tw)\<rparr>, w') \<and> serves R N T es h (snd (tw_post now u c tw)) w'"
    if "u \<in> users tw \<longrightarrow> may_append R N w (FormatPostListKey u) \<and> int64 now"
    unfolding serves_def using that by (intro store.Post_refines [OF st re]) (simp_all add: may_append_def)
  show "\<exists>w'. DeletePost ts \<lparr>dp_UserID = u, dp_PostKey = key\<rparr> w =
      Inr (\<lparr>dpr_Status = fst (tw_delete u key tw)\<rparr>, w') \<and> serves R N T es h (snd (tw_delete u key tw)) w'"
    unfolding serves_def by (rule store.DeletePost_refines [OF st re])
  have rep: "represents (store_kv R N w) tw" using re by (simp add: reached_def)
  show "tw_delete u (FormatPostKey u t) tw = (StwOK, tw\<lparr>posts := (posts tw)(u := (posts tw u)(t := None))\<rparr>)"
    if "u \<in> users tw \<and> CHR '':'' \<notin> set u \<and> posts tw u t \<noteq> None"
    using that representsD(6) [OF rep, of u t] by (auto simp: tw_delete_def)
  show "tw_delete u key tw = (NoSuchPost, tw)"
    if "u \<in> users tw \<and> (CHR '':'' \<in> set u \<or> key \<notin> post_keys tw u)"
    using that post_user_plain [of key] post_keys_member [OF rep, of key u] by (auto simp: tw_delete_def)
qed

theorem posts_refine_witness:
  "(\<exists>w'. Post 100 demo_ts \<lparr>pt_UserID = ''alice'', pt_Contents = ''hi''\<rparr> demo_world =
      Inr (\<lparr>ptr_PostKey = ''alice:post_64'', ptr_Status = StwOK\<rparr>, w')) \<and>
   (\<exists>w'. DeletePost demo_ts \<lparr>dp_UserID = ''bob'', dp_PostKey = FormatPostKey ''bob'' 1\<rparr> demo_world =
      Inr (\<lparr>dpr_Status = StwOK\<rparr>, w') \<and>
    serves demo_ring demo_addresses 100 demo_clock ''a:1''
      (demo_tw\<lparr>posts := (posts demo_tw)(''bob'' := [2 \<mapsto> ''second''])\<rparr>) w') \<and>
   (\<exists>w'. DeletePost demo_ts \<lparr>dp_UserID = ''alice'', dp_PostKey = FormatPostKey ''bob'' 1\<rparr> demo_world =
      Inr (\<lparr>dpr_Status = NoSuchPost\<rparr>, w') \<and> serves demo_ring demo_addresses 100 demo_clock ''a:1'' demo_tw w')"
proof -
  have "FormatPostKey ''alice'' 100 = ''alice:post_64''" by code_simp
  then show ?thesis
    using posts_refine [OF demo_ts_app demo_serves, where u = "''alice''" and now = 100 and c = "''hi''" and key = "FormatPostKey ''bob'' 1"]
      posts_refine [OF demo_ts_app demo_serves, where u = "''bob''" and now = 100 and c = "''hi''" and key = "FormatPostKey ''bob'' 1"]
      demo_may_append
    by (auto simp: tw_post_def tw_delete_def demo_tw_def)
qed

text \<open>C36: a user whose name has a colon can post but never delete a post: the key of the post does not parse
  back to the user, and \<open>DeletePost\<close> answers \<open>NoSuchPost\<close>.\<close>

theorem colon_user_cannot_delete:
  assumes "app_server es h ts" and "serves R N T es h tw w" and "u \<in> users tw" and "CHR '':'' \<in> set u"
  shows "\<exists>w'. DeletePost ts \<lparr>dp_UserID = u, dp_PostKey = FormatPostKey u t\<rparr> w = Inr (\<lparr>dpr_Status = NoSuchPost\<rparr>, w') \<and>
    serves R N T es h tw w'"
proof -
  have "post_user (FormatPostKey u t) \<noteq> u" using post_user_plain [of "FormatPostKey u t"] assms(4) by auto
  then have "tw_delete u (FormatPostKey u t) tw = (NoSuchPost, tw)" using assms(3) by (simp add: tw_delete_def)
  moreover have "\<exists>w'. DeletePost ts \<lparr>dp_UserID = u, dp_PostKey = FormatPostKey u t\<rparr> w =
      Inr (\<lparr>dpr_Status = fst (tw_delete u (FormatPostKey u t) tw)\<rparr>, w') \<and>
      serves R N T es h (snd (tw_delete u (FormatPostKey u t) tw)) w'"
    using store.DeletePost_refines assms(1,2) unfolding serves_def app_server_def by blast
  ultimately show ?thesis by simp
qed

theorem colon_user_cannot_delete_witness:
  "\<exists>w w'. DeletePost demo_ts \<lparr>dp_UserID = ''a:b'', dp_PostKey = FormatPostKey ''a:b'' 7\<rparr> w =
     Inr (\<lparr>dpr_Status = NoSuchPost\<rparr>, w')"
proof -
  let ?tw = "snd (tw_create ''a:b'' demo_tw)"
  obtain w where "serves demo_ring demo_addresses 100 demo_clock ''a:1'' ?tw w"
    using store.CreateUser_refines [where ts = demo_ts and tw = demo_tw and w = demo_world]
      demo_serves demo_ts_app unfolding serves_def app_server_def by blast
  moreover have "''a:b'' \<in> users ?tw" by (simp add: tw_create_def demo_tw_def)
  ultimately show ?thesis using colon_user_cannot_delete [OF demo_ts_app, of _ _ _ ?tw] by fastforce
qed

section \<open>Timelines\<close>

lemma demo_plain: "plain_names U demo_tw"
  by (simp add: plain_names_def demo_tw_def)

text \<open>C8: for a user whose name has no colon, or who has no post (\<open>plain_names\<close>), and while the clocks stay within one
  lease's life (\<open>serves\<close>), \<open>Timeline\<close> returns the newest hundred posts of the user, newest first, whatever order the
  sort leaves equal elements in; it changes no data, never fails on a known user, and answers \<open>NoSuchUser\<close> for an
  unknown one.\<close>

theorem timeline_newest_first:
  assumes "app_server es h ts" and "serves R N T es h tw w" and "plain_names {u} tw" and "go_sort srt"
  shows "\<exists>w'. Timeline srt ts \<lparr>tl_UserID = u\<rparr> w =
      Inr (Inr (if u \<in> users tw then \<lparr>tlr_Status = StwOK, tlr_Posts = tw_timeline u tw\<rparr>
                else \<lparr>tlr_Status = NoSuchUser, tlr_Posts = []\<rparr>), w') \<and>
    serves R N T es h tw w' \<and> length (tw_timeline u tw) \<le> 100"
proof -
  have re: "reached (store_inv R N T es {h}) (store_kv R N) tw w" using assms(2) by (simp add: serves_def)
  have "ts_storage ts = cluster_Libstore es h" using assms(1) by (simp add: app_server_def)
  from store.Timeline_result [OF this re assms(3,4)] obtain w' ks where
    t: "Timeline srt ts \<lparr>tl_UserID = u\<rparr> w =
      Inr (Inr (if u \<in> users tw then \<lparr>tlr_Status = StwOK, tlr_Posts = map (post_of tw) ks\<rparr>
                else \<lparr>tlr_Status = NoSuchUser, tlr_Posts = []\<rparr>), w')"
    "reached (store_inv R N T es {h}) (store_kv R N) tw w'"
    "smallest 100 (\<lambda>k. - post_time k) (post_keys tw u) ks" by blast
  have "finite (post_keys tw u)" using store.newest_of_user [OF re assms(4)] by blast
  then have "map (post_of tw) ks = tw_timeline u tw"
    using smallest_timeline [OF _ assms(3) _ t(3)] re by (auto simp: reached_def)
  with t show ?thesis by (auto simp: serves_def tw_timeline_def)
qed

theorem timeline_newest_first_witness:
  "\<exists>w'. Timeline insertionSort demo_ts \<lparr>tl_UserID = ''bob''\<rparr> demo_world =
     Inr (Inr \<lparr>tlr_Status = StwOK, tlr_Posts =
       [\<lparr>po_UserID = ''bob'', po_Posted = ''2'', po_Contents = ''second''\<rparr>,
        \<lparr>po_UserID = ''bob'', po_Posted = ''1'', po_Contents = ''first''\<rparr>]\<rparr>, w')"
proof -
  have "FormatInt16 1 = ''1''" "FormatInt16 2 = ''2''" by code_simp+
  moreover have "dom (posts demo_tw ''bob'') = {1, 2}" by (auto simp: demo_tw_def)
  ultimately have "tw_timeline ''bob'' demo_tw =
       [\<lparr>po_UserID = ''bob'', po_Posted = ''2'', po_Contents = ''second''\<rparr>,
        \<lparr>po_UserID = ''bob'', po_Posted = ''1'', po_Contents = ''first''\<rparr>]"
    by (simp add: tw_timeline_def) (simp add: demo_tw_def)
  moreover have "''bob'' \<in> users demo_tw" by (simp add: demo_tw_def)
  ultimately show ?thesis
    using timeline_newest_first [OF demo_ts_app demo_serves demo_plain insertion.go_sort_axioms, of "''bob''"] by auto
qed

text \<open>C9: when no followed user with posts has a colon in the name (\<open>plain_names\<close>), and while the clocks stay within
  one lease's life (\<open>serves\<close>), \<open>HomeTimeline\<close> of a known user returns hundred of the newest posts of all the users
  that the user follows (all of them when there are fewer), newest first: no post that is left out is newer than one
  that is returned, although only the newest hundred of each user are looked at.\<close>

theorem home_timeline_newest:
  assumes "app_server es h ts" and "serves R N T es h tw w" and "plain_names (follows tw `` {u}) tw" and "go_sort srt"
    and "u \<in> users tw"
  shows "\<exists>w' ks. HomeTimeline srt ts \<lparr>tl_UserID = u\<rparr> w =
      Inr (Inr \<lparr>tlr_Status = StwOK, tlr_Posts = map (post_of tw) ks\<rparr>, w') \<and>
    serves R N T es h tw w' \<and>
    smallest 100 (\<lambda>k. - post_time k) (\<Union>v\<in>follows tw `` {u}. post_keys tw v) ks"
proof -
  have "reached (store_inv R N T es {h}) (store_kv R N) tw w" "ts_storage ts = cluster_Libstore es h"
    using assms(1,2) by (simp_all add: serves_def app_server_def)
  from store.HomeTimeline_result [OF this(2,1) assms(3,4)] show ?thesis
    using assms(5) unfolding serves_def if_P [OF assms(5)] by blast
qed

theorem home_timeline_newest_witness:
  "\<exists>w' ks. HomeTimeline insertionSort demo_ts \<lparr>tl_UserID = ''alice''\<rparr> demo_world =
     Inr (Inr \<lparr>tlr_Status = StwOK, tlr_Posts = map (post_of demo_tw) ks\<rparr>, w') \<and>
     set ks = {FormatPostKey ''bob'' 1, FormatPostKey ''bob'' 2}"
proof -
  have "''alice'' \<in> users demo_tw" by (simp add: demo_tw_def)
  from home_timeline_newest [OF demo_ts_app demo_serves demo_plain insertion.go_sort_axioms this] obtain w' ks where
    h: "HomeTimeline insertionSort demo_ts \<lparr>tl_UserID = ''alice''\<rparr> demo_world =
     Inr (Inr \<lparr>tlr_Status = StwOK, tlr_Posts = map (post_of demo_tw) ks\<rparr>, w')"
    "smallest 100 (\<lambda>k. - post_time k) (\<Union>v\<in>follows demo_tw `` {''alice''}. post_keys demo_tw v) ks" by blast
  have K: "(\<Union>v\<in>follows demo_tw `` {''alice''}. post_keys demo_tw v) = {FormatPostKey ''bob'' 1, FormatPostKey ''bob'' 2}"
    by (auto simp: demo_tw_def post_keys_def)
  have "card {FormatPostKey ''bob'' 1, FormatPostKey ''bob'' 2} = 2" by (simp add: FormatPostKey_inj)
  with h(2) have "set ks \<subseteq> {FormatPostKey ''bob'' 1, FormatPostKey ''bob'' 2}" "card (set ks) = 2"
    by (auto simp: K smallest_def distinct_card)
  then have "set ks = {FormatPostKey ''bob'' 1, FormatPostKey ''bob'' 2}"
    using \<open>card {FormatPostKey ''bob'' 1, FormatPostKey ''bob'' 2} = 2\<close> by (intro card_subset_eq) simp_all
  with h(1) show ?thesis by blast
qed

section \<open>The app servers as a cluster\<close>

text \<open>C12: on an app server whose list of addresses is strictly sorted, as that of a new master is, \<open>RegisterServer\<close> never
  panics and keeps the list strictly sorted; it adds exactly the address of the caller, and nothing changes when
  the address is there already.  It answers \<open>OK\<close>, with all addresses in the order of the list, exactly when at least as many
  servers as expected are known, and \<open>GetServers\<close> then answers alike.\<close>

theorem stw_register_membership:
  assumes "ssorted (ts_nodes ts)"
  shows "\<exists>r ts'. stw_RegisterServer \<lparr>stw_ServerInfo = \<lparr>stw_HostPort = addr\<rparr>\<rparr> ts = Inr (r, ts') \<and>
    ssorted (ts_nodes ts') \<and> set (ts_nodes ts') = insert addr (set (ts_nodes ts)) \<and>
    (addr \<in> set (ts_nodes ts) \<longrightarrow> ts' = ts) \<and>
    ts_storage ts' = ts_storage ts \<and> ts_numNodes ts' = ts_numNodes ts \<and>
    (sreg_Status r = StwOK \<longleftrightarrow> ts_numNodes ts \<le> int (card (set (ts_nodes ts')))) \<and>
    stw_GetServers ts' = \<lparr>sgs_Status = sreg_Status r, sgs_Servers = sreg_Servers r\<rparr> \<and>
    (sreg_Status r = StwOK \<longrightarrow> map stw_HostPort (sreg_Servers r) = ts_nodes ts')"
proof -
  let ?n = "ts_nodes ts"
  have s: "BinarySearchString ?n addr = Inr (int (rank ?n addr))" using assms by (simp add: string_search.search_rank)
  show ?thesis
  proof (cases "addr \<in> set ?n")
    case True
    note R = in_set_rank [OF ssorted_sorted [OF assms] True]
    with s assms distinct_card [OF ssorted_distinct [OF assms]] True show ?thesis
      by (auto simp: stw_RegisterServer_def go_index_nat stw_GetServers_def stw_servers_def Let_def insert_absorb comp_def)
  next
    case False
    then have "rank ?n addr < length ?n \<Longrightarrow> ?n ! rank ?n addr \<noteq> addr" by (metis nth_mem)
    with s have "stw_RegisterServer \<lparr>stw_ServerInfo = \<lparr>stw_HostPort = addr\<rparr>\<rparr> ts =
        (let ts = ts\<lparr>ts_nodes := ins_at_rank ?n addr\<rparr> in
         if ts_numNodes ts \<le> int (length (ts_nodes ts))
         then Inr (\<lparr>sreg_Status = StwOK, sreg_Servers = stw_servers (ts_nodes ts)\<rparr>, ts)
         else Inr (\<lparr>sreg_Status = StwNotReady, sreg_Servers = []\<rparr>, ts))"
      by (cases "rank ?n addr < length ?n")
        (simp_all add: stw_RegisterServer_def go_index_nat go_insert_nat ins_at_rank_def Let_def)
    with ssorted_ins_at_rank [OF assms False] distinct_card [OF ssorted_distinct [OF assms]] False show ?thesis
      by (auto simp: stw_GetServers_def stw_servers_def Let_def comp_def)
  qed
qed

text \<open>A second app server registers with a master that waits for two.\<close>

theorem stw_register_membership_witness:
  "\<exists>r ts'. stw_RegisterServer \<lparr>stw_ServerInfo = \<lparr>stw_HostPort = ''b:2''\<rparr>\<rparr> (demo_ts\<lparr>ts_numNodes := 2\<rparr>) = Inr (r, ts') \<and>
    set (ts_nodes ts') = {''a:1'', ''b:2''} \<and> sreg_Status r = StwOK"
proof -
  have "ssorted (ts_nodes (demo_ts\<lparr>ts_numNodes := 2\<rparr>))" by (simp add: demo_ts_def)
  from stw_register_membership [OF this, of "''b:2''"] show ?thesis
    by (fastforce simp: demo_ts_def insert_commute)
qed

lemma BinarySearchString_inside:
  obtains i where "BinarySearchString vals v = Inr (int i)" and "i \<le> length vals"
proof -
  obtain r where "BinarySearchString vals v = Inr r" "0 \<le> r" "r \<le> int (length vals)"
    using bin_search_loop_total [where key = Inr and vals = vals and val = v and i = 0 and j = "int (length vals) - 1"]
    by (auto simp: BinarySearchString_def)
  then show thesis using that [of "nat r"] by simp
qed

text \<open>The loop over the master's servers opens a slot for each and fills none with the address.\<close>

lemma stw_add_servers_result:
  assumes "nodes \<noteq> []"
  shows "\<exists>ns. stw_add_servers servers nodes = Inr ns \<and> set ns \<subseteq> set nodes \<union> {[]} \<and>
    length ns = length nodes + length servers"
  using assms
proof (induction servers arbitrary: nodes)
  case (Cons node servers)
  let ?a = "stw_HostPort node"
  obtain i where i: "BinarySearchString nodes ?a = Inr (int i)" "i \<le> length nodes"
    using BinarySearchString_inside by blast
  let ?t = "take (i + 1) (nodes @ [[]]) @ drop i nodes"
  have t: "go_copy (nodes @ [[]]) (int i + 1) nodes (int i) = Inr ?t" by (rule go_copy_shift [OF i(2)])
  have "set (take (i + 1) (nodes @ [[]])) \<subseteq> set (nodes @ [[]])" "set (drop i nodes) \<subseteq> set nodes"
    by (rule set_take_subset, rule set_drop_subset)
  then have sub: "set ?t \<subseteq> set nodes \<union> {[]}" by auto
  have len: "length ?t = Suc (length nodes)" using i(2) by simp
  then have "?t \<noteq> []" by (metis length_0_conv nat.distinct(1))
  from Cons.IH [OF this] obtain ns where
    ns: "stw_add_servers servers ?t = Inr ns" "set ns \<subseteq> set ?t \<union> {[]}" "length ns = length ?t + length servers"
    by blast
  have "stw_add_servers (node # servers) nodes = Inr ns" using i(1) t ns(1) by (simp add: Let_def)
  moreover have "set ns \<subseteq> set nodes \<union> {[]}" using ns(2) sub by blast
  moreover have "length ns = length nodes + length (node # servers)" using ns(3) len by simp
  ultimately show ?case by blast
qed auto

text \<open>Whenever the join ends, after however many refusals, with whatever list.\<close>

lemma stw_join_keeps:
  assumes ret: "stw_join call n ts = Some r"
  shows "ts_nodes ts \<noteq> [] \<longrightarrow> (\<forall>ts'. r = Inr ts' \<longrightarrow> set (ts_nodes ts') \<subseteq> set (ts_nodes ts) \<union> {[]})"
proof (rule stw_join.raw_induct [where P = "\<lambda>call n ts r. ts_nodes ts \<noteq> [] \<longrightarrow>
    (\<forall>ts'. r = Inr ts' \<longrightarrow> set (ts_nodes ts') \<subseteq> set (ts_nodes ts) \<union> {[]})", OF _ ret])
  fix f :: "(nat \<Rightarrow> go_error + StwRegisterReply) \<Rightarrow> nat \<Rightarrow> 'w stwServer \<Rightarrow> 'w stwServer go option"
    and call :: "nat \<Rightarrow> go_error + StwRegisterReply" and n :: nat and ts :: "'w stwServer" and r :: "'w stwServer go"
  assume IH: "\<And>call n ts r. f call n ts = Some r \<Longrightarrow>
      ts_nodes ts \<noteq> [] \<longrightarrow> (\<forall>ts'. r = Inr ts' \<longrightarrow> set (ts_nodes ts') \<subseteq> set (ts_nodes ts) \<union> {[]})"
    and eq: "(case call n of
        Inl err \<Rightarrow> Some (Inl (LogFatal ''rpc error:''))
      | Inr reply \<Rightarrow>
          if sreg_Status reply = StwOK then
            Some (go_bind (stw_add_servers (sreg_Servers reply) (ts_nodes ts)) (\<lambda>nodes.
              Inr (ts\<lparr>ts_nodes := nodes, ts_numNodes := int (length (sreg_Servers reply))\<rparr>)))
          else f call (n + 1) ts) = Some r"
  show "ts_nodes ts \<noteq> [] \<longrightarrow> (\<forall>ts'. r = Inr ts' \<longrightarrow> set (ts_nodes ts') \<subseteq> set (ts_nodes ts) \<union> {[]})"
  proof (cases "call n")
    case (Inl err)
    with eq show ?thesis by auto
  next
    case (Inr reply)
    show ?thesis
    proof (cases "sreg_Status reply = StwOK")
      case True
      with eq Inr stw_add_servers_result [of "ts_nodes ts" "sreg_Servers reply"] show ?thesis by auto blast
    next
      case False
      with eq Inr IH [of call "n + 1" ts r] show ?thesis by auto
    qed
  qed
qed

lemma stw_join_waits:
  assumes "\<forall>i. c \<le> i \<and> i < n \<longrightarrow> (\<exists>r. call i = Inr r \<and> sreg_Status r \<noteq> StwOK)" and "c \<le> n"
  shows "stw_join call c ts = stw_join call n ts"
  using assms(2,1)
proof (induction c rule: inc_induct)
  case (step c)
  then obtain r where "call c = Inr r" "sreg_Status r \<noteq> StwOK" by blast
  with step show ?case by (subst stw_join.simps) auto
qed simp

text \<open>C35: a slave app server that starts never knows the address of any other server: whatever the environment does
  (dials, listening, any number of replies of the master), if the slave starts, its list of nodes holds only its own
  address and empty strings, since the new address is not stored into the slot opened for it.  And it does start, with
  one slot for each server of the master's list besides its own, when its libstore, listening and registration with the RPC
  package succeed, one of the first six dials of the master does, and the master answers \<open>OK\<close> with a list after any
  number of answers \<open>NotReady\<close>.\<close>

theorem slave_learns_no_address:
  assumes "master \<noteq> []"
  shows "(NewStwServer st my master numNodes = Some (Inr (Inr ts)) \<longrightarrow> set (ts_nodes ts) \<subseteq> {my, []}) \<and>
    (st_libstore st = Inr (Inr L) \<and> st_listen st my = None \<and> st_register st = None \<and> k \<le> 5 \<and> st_dial st k \<and>
     (\<forall>i<n. \<exists>r. st_call st i = Inr r \<and> sreg_Status r \<noteq> StwOK) \<and>
     st_call st n = Inr \<lparr>sreg_Status = StwOK, sreg_Servers = servers\<rparr> \<longrightarrow>
     (\<exists>ts. NewStwServer st my master numNodes = Some (Inr (Inr ts)) \<and> ts_storage ts = L \<and>
        set (ts_nodes ts) \<subseteq> {my, []} \<and> length (ts_nodes ts) = Suc (length servers) \<and>
        ts_numNodes ts = int (length servers)))"
proof (intro conjI impI)
  assume "NewStwServer st my master numNodes = Some (Inr (Inr ts))"
  with assms obtain L where "stw_join (st_call st) 0 \<lparr>ts_nodes = [my], ts_numNodes = numNodes, ts_storage = L\<rparr> = Some (Inr ts)"
    by (auto simp: NewStwServer_def Let_def go_bind_eq_Inr split: sum.splits option.splits if_splits)
  from stw_join_keeps [OF this] show "set (ts_nodes ts) \<subseteq> {my, []}" by auto
next
  assume env: "st_libstore st = Inr (Inr L) \<and> st_listen st my = None \<and> st_register st = None \<and> k \<le> 5 \<and> st_dial st k \<and>
     (\<forall>i<n. \<exists>r. st_call st i = Inr r \<and> sreg_Status r \<noteq> StwOK) \<and>
     st_call st n = Inr \<lparr>sreg_Status = StwOK, sreg_Servers = servers\<rparr>"
  obtain ns where
    ns: "stw_add_servers servers [my] = Inr ns" "set ns \<subseteq> {my, []}" "length ns = Suc (length servers)"
    using stw_add_servers_result [of "[my]" servers] by auto
  obtain d where d: "dial_master (st_dial st) 0 = Inr d" using dial_master_ok [of k "st_dial st" 0] env by auto
  have "stw_join (st_call st) 0 ts0 = stw_join (st_call st) n ts0" for ts0 :: "'a stwServer"
    using env by (intro stw_join_waits) auto
  with env ns d assms show "\<exists>ts. NewStwServer st my master numNodes = Some (Inr (Inr ts)) \<and> ts_storage ts = L \<and>
        set (ts_nodes ts) \<subseteq> {my, []} \<and> length (ts_nodes ts) = Suc (length servers) \<and>
        ts_numNodes ts = int (length servers)"
    by (simp add: NewStwServer_def) (subst stw_join.simps, simp)
qed

text \<open>The master answers the third dial, is not ready at two registrations and sends both addresses at the third.\<close>

theorem slave_learns_no_address_witness:
  "\<exists>ts. NewStwServer
      \<lparr>st_libstore = Inr (Inr (cluster_Libstore demo_clock ''b:2'')), st_listen = (\<lambda>_. None), st_register = None,
       st_polled = (\<lambda>_. []), st_dial = (\<lambda>i. i = 2),
       st_call = (\<lambda>i. Inr (if i = 2 then \<lparr>sreg_Status = StwOK, sreg_Servers = stw_servers [''a:1'', ''b:2'']\<rparr>
                         else \<lparr>sreg_Status = StwNotReady, sreg_Servers = []\<rparr>))\<rparr>
      ''b:2'' ''a:1'' 2 = Some (Inr (Inr ts)) \<and> length (ts_nodes ts) = 3 \<and> ''a:1'' \<notin> set (ts_nodes ts)"
  using slave_learns_no_address [of "''a:1''"
      "\<lparr>st_libstore = Inr (Inr (cluster_Libstore demo_clock ''b:2'')), st_listen = (\<lambda>_. None), st_register = None,
       st_polled = (\<lambda>_. []), st_dial = (\<lambda>i. i = 2),
       st_call = (\<lambda>i. Inr (if i = 2 then \<lparr>sreg_Status = StwOK, sreg_Servers = stw_servers [''a:1'', ''b:2'']\<rparr>
                         else \<lparr>sreg_Status = StwNotReady, sreg_Servers = []\<rparr>))\<rparr>"
      "''b:2''" 2 _ "cluster_Libstore demo_clock ''b:2''" 2 2 "stw_servers [''a:1'', ''b:2'']"]
  by (fastforce simp: stw_servers_def)

end
