(* ===== verification/Stw_Programs.thy ===== *)
theory Stw_Programs
  imports Stw_Server
begin

text \<open>
  The handlers of the application server cut at their calls of the libstore.  Several requests may be inside
  their handlers at once, on one app server or on several; what one of them sees of the others is decided
  between its calls.  A program is a tree of calls; run alone it is the handler of the theory \<open>Stw_Server\<close>.
\<close>

section \<open>Programs\<close>

datatype 'r prog =
    PRet 'r
  | PCrash crash
  | PGet string "go_error + string \<Rightarrow> 'r prog"
  | PGetList string "go_error + string list \<Rightarrow> 'r prog"
  | PPut string string "go_error option \<Rightarrow> 'r prog"
  | PDelete string "go_error option \<Rightarrow> 'r prog"
  | PAppend string string "go_error option \<Rightarrow> 'r prog"
  | PRemove string string "go_error option \<Rightarrow> 'r prog"

primrec prog_bind :: "'a prog \<Rightarrow> ('a \<Rightarrow> 'b prog) \<Rightarrow> 'b prog" where
  "prog_bind (PRet x) f = f x"
| "prog_bind (PCrash c) f = PCrash c"
| "prog_bind (PGet k g) f = PGet k (\<lambda>r. prog_bind (g r) f)"
| "prog_bind (PGetList k g) f = PGetList k (\<lambda>r. prog_bind (g r) f)"
| "prog_bind (PPut k v g) f = PPut k v (\<lambda>r. prog_bind (g r) f)"
| "prog_bind (PDelete k g) f = PDelete k (\<lambda>r. prog_bind (g r) f)"
| "prog_bind (PAppend k v g) f = PAppend k v (\<lambda>r. prog_bind (g r) f)"
| "prog_bind (PRemove k v g) f = PRemove k v (\<lambda>r. prog_bind (g r) f)"

definition locally :: "'a go \<Rightarrow> ('a \<Rightarrow> 'b prog) \<Rightarrow> 'b prog" where
  "locally m f = (case m of Inl c \<Rightarrow> PCrash c | Inr x \<Rightarrow> f x)"

text \<open>One call of a program that has not ended.\<close>

fun prog_step :: "'w Libstore \<Rightarrow> 'r prog \<Rightarrow> 'w \<Rightarrow> ('r prog \<times> 'w) go option" where
  "prog_step L (PRet x) w = None"
| "prog_step L (PCrash c) w = Some (Inl c)"
| "prog_step L (PGet k f) w = Some (go_bind (lib_Get L k w) (\<lambda>(r, w). Inr (f r, w)))"
| "prog_step L (PGetList k f) w = Some (go_bind (lib_GetList L k w) (\<lambda>(r, w). Inr (f r, w)))"
| "prog_step L (PPut k v f) w = Some (go_bind (lib_Put L k v w) (\<lambda>(r, w). Inr (f r, w)))"
| "prog_step L (PDelete k f) w = Some (go_bind (lib_Delete L k w) (\<lambda>(r, w). Inr (f r, w)))"
| "prog_step L (PAppend k v f) w = Some (go_bind (lib_AppendToList L k v w) (\<lambda>(r, w). Inr (f r, w)))"
| "prog_step L (PRemove k v f) w = Some (go_bind (lib_RemoveFromList L k v w) (\<lambda>(r, w). Inr (f r, w)))"

text \<open>All calls of a program, with nothing in between.\<close>

primrec prog_run :: "'w Libstore \<Rightarrow> 'r prog \<Rightarrow> 'w \<Rightarrow> ('r \<times> 'w) go" where
  "prog_run L (PRet x) w = Inr (x, w)"
| "prog_run L (PCrash c) w = Inl c"
| "prog_run L (PGet k f) w = go_bind (lib_Get L k w) (\<lambda>(r, w). prog_run L (f r) w)"
| "prog_run L (PGetList k f) w = go_bind (lib_GetList L k w) (\<lambda>(r, w). prog_run L (f r) w)"
| "prog_run L (PPut k v f) w = go_bind (lib_Put L k v w) (\<lambda>(r, w). prog_run L (f r) w)"
| "prog_run L (PDelete k f) w = go_bind (lib_Delete L k w) (\<lambda>(r, w). prog_run L (f r) w)"
| "prog_run L (PAppend k v f) w = go_bind (lib_AppendToList L k v w) (\<lambda>(r, w). prog_run L (f r) w)"
| "prog_run L (PRemove k v f) w = go_bind (lib_RemoveFromList L k v w) (\<lambda>(r, w). prog_run L (f r) w)"

section \<open>The handlers as programs\<close>

definition CreateUser_prog :: "CreateUserArgs \<Rightarrow> CreateUserReply prog" where
  "CreateUser_prog args =
     (let key = FormatUserKey (cu_UserID args) in
      PGet key (\<lambda>r. case r of
        Inr _ \<Rightarrow> PRet \<lparr>cur_Status = Exists\<rparr>
      | Inl _ \<Rightarrow> PPut key [] (\<lambda>_. PRet \<lparr>cur_Status = StwOK\<rparr>)))"

definition Subscribe_prog :: "SubscriptionArgs \<Rightarrow> SubscriptionReply prog" where
  "Subscribe_prog args =
     PGet (FormatUserKey (su_UserID args)) (\<lambda>r. case r of
       Inl _ \<Rightarrow> PRet \<lparr>sur_Status = NoSuchUser\<rparr>
     | Inr _ \<Rightarrow>
         PGet (FormatUserKey (su_TargetUserID args)) (\<lambda>r. case r of
           Inl _ \<Rightarrow> PRet \<lparr>sur_Status = NoSuchTargetUser\<rparr>
         | Inr _ \<Rightarrow>
             PAppend (FormatSubListKey (su_UserID args)) (su_TargetUserID args) (\<lambda>err.
               PRet \<lparr>sur_Status = (if err \<noteq> None then Exists else StwOK)\<rparr>)))"

definition Unsubscribe_prog :: "SubscriptionArgs \<Rightarrow> SubscriptionReply prog" where
  "Unsubscribe_prog args =
     PGet (FormatUserKey (su_UserID args)) (\<lambda>r. case r of
       Inl _ \<Rightarrow> PRet \<lparr>sur_Status = NoSuchUser\<rparr>
     | Inr _ \<Rightarrow>
         PGet (FormatUserKey (su_TargetUserID args)) (\<lambda>r. case r of
           Inl _ \<Rightarrow> PRet \<lparr>sur_Status = NoSuchTargetUser\<rparr>
         | Inr _ \<Rightarrow>
             PRemove (FormatSubListKey (su_UserID args)) (su_TargetUserID args) (\<lambda>err.
               PRet \<lparr>sur_Status = (if err \<noteq> None then NoSuchTargetUser else StwOK)\<rparr>)))"

definition Post_prog :: "int \<Rightarrow> PostArgs \<Rightarrow> PostReply prog" where
  "Post_prog now args =
     PGet (FormatUserKey (pt_UserID args)) (\<lambda>r. case r of
       Inl _ \<Rightarrow> PRet (zero_PostReply\<lparr>ptr_Status := NoSuchUser\<rparr>)
     | Inr _ \<Rightarrow>
         let postkey = FormatPostKey (pt_UserID args) now in
         PPut postkey (pt_Contents args) (\<lambda>_.
           PAppend (FormatPostListKey (pt_UserID args)) postkey (\<lambda>_.
             PRet \<lparr>ptr_PostKey = postkey, ptr_Status = StwOK\<rparr>)))"

definition DeletePost_prog :: "DeletePostArgs \<Rightarrow> DeletePostReply prog" where
  "DeletePost_prog args =
     PGet (FormatUserKey (dp_UserID args)) (\<lambda>r. case r of
       Inl _ \<Rightarrow> PRet \<lparr>dpr_Status = NoSuchUser\<rparr>
     | Inr _ \<Rightarrow>
         locally (ParsePostKey (dp_PostKey args)) (\<lambda>(post_uid, _, err).
           if err \<noteq> None \<or> post_uid \<noteq> dp_UserID args then PRet \<lparr>dpr_Status = NoSuchPost\<rparr>
           else
             PRemove (FormatPostListKey (dp_UserID args)) (dp_PostKey args) (\<lambda>err1.
               if err1 \<noteq> None then PRet \<lparr>dpr_Status = NoSuchPost\<rparr>
               else
                 PDelete (dp_PostKey args) (\<lambda>err2.
                   PRet \<lparr>dpr_Status = (if err2 \<noteq> None then NoSuchPost else StwOK)\<rparr>))))"

text \<open>The loops of the timelines.\<close>

fun timeline_prog :: "int \<Rightarrow> string list \<Rightarrow> Post list \<Rightarrow> (go_error + Post list) prog" where
  "timeline_prog limit [] posts = PRet (Inr posts)"
| "timeline_prog limit (pKey # rest) posts =
     (if limit \<le> 0 then PRet (Inr posts)
      else
        PGet pKey (\<lambda>r. case r of
          Inl err \<Rightarrow> PRet (Inl err)
        | Inr post \<Rightarrow>
            locally (ParsePostKey pKey) (\<lambda>(userID, unixTime, _).
              timeline_prog (limit - 1) rest
                (posts @ [\<lparr>po_UserID = userID, po_Posted = FormatInt16 unixTime, po_Contents = post\<rparr>]))))"

fun gather_prog :: "sort_fun \<Rightarrow> string list \<Rightarrow> string list \<Rightarrow> string list prog" where
  "gather_prog srt [] pKeys = PRet pKeys"
| "gather_prog srt (t # slist) pKeys =
     PGetList (FormatPostListKey t) (\<lambda>r. case r of
       Inl _ \<Rightarrow> gather_prog srt slist pKeys
     | Inr postlist \<Rightarrow>
         let limit = (if length postlist < 100 then length postlist else 100) in
         gather_prog srt slist (pKeys @ take limit (srt ByRevChronological_Less postlist)))"

fun home_prog :: "int \<Rightarrow> string list \<Rightarrow> Post list \<Rightarrow> (go_error + Post list) prog" where
  "home_prog limit [] posts = PRet (Inr posts)"
| "home_prog limit (pKey # rest) posts =
     (if limit \<le> 0 then PRet (Inr posts)
      else
        locally (ParsePostKey pKey) (\<lambda>(userID, unixTime, _).
        PGet pKey (\<lambda>r. case r of
          Inl err \<Rightarrow> PRet (Inl err)
        | Inr post \<Rightarrow>
            home_prog (limit - 1) rest
              (posts @ [\<lparr>po_UserID = userID, po_Posted = FormatInt16 unixTime, po_Contents = post\<rparr>]))))"

definition timeline_reply :: "go_error + Post list \<Rightarrow> (go_error + TimelineReply) prog" where
  "timeline_reply r =
     PRet (case r of Inl err \<Rightarrow> Inl err | Inr posts \<Rightarrow> Inr \<lparr>tlr_Status = StwOK, tlr_Posts = posts\<rparr>)"

definition Timeline_prog :: "sort_fun \<Rightarrow> TimelineArgs \<Rightarrow> (go_error + TimelineReply) prog" where
  "Timeline_prog srt args =
     PGet (FormatUserKey (tl_UserID args)) (\<lambda>r. case r of
       Inl _ \<Rightarrow> PRet (Inr (zero_TimelineReply\<lparr>tlr_Status := NoSuchUser\<rparr>))
     | Inr _ \<Rightarrow>
         PGetList (FormatPostListKey (tl_UserID args)) (\<lambda>r. case r of
           Inl _ \<Rightarrow> PRet (Inr (zero_TimelineReply\<lparr>tlr_Status := StwOK\<rparr>))
         | Inr postlist \<Rightarrow>
             prog_bind (timeline_prog 100 (srt ByRevChronological_Less postlist) []) timeline_reply))"

definition HomeTimeline_prog :: "sort_fun \<Rightarrow> TimelineArgs \<Rightarrow> (go_error + TimelineReply) prog" where
  "HomeTimeline_prog srt args =
     PGet (FormatUserKey (tl_UserID args)) (\<lambda>r. case r of
       Inl _ \<Rightarrow> PRet (Inr (zero_TimelineReply\<lparr>tlr_Status := NoSuchUser\<rparr>))
     | Inr _ \<Rightarrow>
         PGetList (FormatSubListKey (tl_UserID args)) (\<lambda>r.
           let slist = (case r of Inl _ \<Rightarrow> [] | Inr slist \<Rightarrow> slist) in
           prog_bind (gather_prog srt slist []) (\<lambda>pKeys.
             prog_bind (home_prog 100 (srt ByRevChronological_Less pKeys) []) timeline_reply)))"

section \<open>Run alone, the programs are the handlers\<close>

lemma prog_run_bind: "prog_run L (prog_bind p f) w = go_bind (prog_run L p w) (\<lambda>(x, w). prog_run L (f x) w)"
  by (induction p arbitrary: w) (auto simp: go_bind_def split: sum.splits)

lemma prog_run_locally [simp]: "prog_run L (locally m f) w = go_bind m (\<lambda>x. prog_run L (f x) w)"
  by (simp add: locally_def go_bind_def split: sum.splits)

lemmas run_split = go_bind_def Let_def

lemma CreateUser_prog_run: "prog_run (ts_storage ts) (CreateUser_prog args) w = CreateUser ts args w"
  by (auto simp: CreateUser_prog_def CreateUser_def run_split split: sum.splits)

lemma Subscribe_prog_run: "prog_run (ts_storage ts) (Subscribe_prog args) w = Subscribe ts args w"
  by (auto simp: Subscribe_prog_def Subscribe_def run_split split: sum.splits)

lemma Unsubscribe_prog_run: "prog_run (ts_storage ts) (Unsubscribe_prog args) w = Unsubscribe ts args w"
  by (auto simp: Unsubscribe_prog_def Unsubscribe_def run_split split: sum.splits)

lemma Post_prog_run: "prog_run (ts_storage ts) (Post_prog now args) w = Post now ts args w"
  by (auto simp: Post_prog_def Post_def run_split split: sum.splits)

lemma DeletePost_prog_run: "prog_run (ts_storage ts) (DeletePost_prog args) w = DeletePost ts args w"
  by (auto simp: DeletePost_prog_def DeletePost_def run_split split: sum.splits)

lemma timeline_prog_run: "prog_run (ts_storage ts) (timeline_prog limit keys posts) w = timeline_loop ts limit keys posts w"
  by (induction keys arbitrary: limit posts w) (auto simp: run_split split: sum.splits)

lemma gather_prog_run: "prog_run (ts_storage ts) (gather_prog srt slist pKeys) w = gather_posts srt ts slist pKeys w"
  by (induction slist arbitrary: pKeys w) (auto simp: run_split split: sum.splits)

lemma home_prog_run: "prog_run (ts_storage ts) (home_prog limit keys posts) w = home_loop ts limit keys posts w"
  by (induction keys arbitrary: limit posts w) (auto simp: run_split split: sum.splits)

lemma Timeline_prog_run: "prog_run (ts_storage ts) (Timeline_prog srt args) w = Timeline srt ts args w"
  by (auto simp: Timeline_prog_def Timeline_def prog_run_bind timeline_prog_run timeline_reply_def run_split split: sum.splits)

lemma HomeTimeline_prog_run: "prog_run (ts_storage ts) (HomeTimeline_prog srt args) w = HomeTimeline srt ts args w"
  by (auto simp: HomeTimeline_prog_def HomeTimeline_def prog_run_bind gather_prog_run home_prog_run timeline_reply_def
      run_split split: sum.splits)

text \<open>The program of a request to the RPC interface; requests about membership make no calls of the libstore.\<close>

definition respond_with :: "('r \<Rightarrow> stw_response) \<Rightarrow> 'r prog \<Rightarrow> (go_error + stw_response) prog" where
  "respond_with f p = prog_bind p (\<lambda>r. PRet (Inr (f r)))"

definition answer_timeline :: "(go_error + TimelineReply) prog \<Rightarrow> (go_error + stw_response) prog" where
  "answer_timeline p = prog_bind p (\<lambda>r. PRet (case r of Inl err \<Rightarrow> Inl err | Inr r \<Rightarrow> Inr (SRespTimeline r)))"

fun stw_prog :: "int \<Rightarrow> sort_fun \<Rightarrow> stw_request \<Rightarrow> (go_error + stw_response) prog option" where
  "stw_prog now srt (SReqRegister a) = None"
| "stw_prog now srt SReqGetServers = None"
| "stw_prog now srt (SReqCreateUser a) = Some (respond_with SRespCreateUser (CreateUser_prog a))"
| "stw_prog now srt (SReqSubscribe a) = Some (respond_with SRespSubscription (Subscribe_prog a))"
| "stw_prog now srt (SReqUnsubscribe a) = Some (respond_with SRespSubscription (Unsubscribe_prog a))"
| "stw_prog now srt (SReqPost a) = Some (respond_with SRespPost (Post_prog now a))"
| "stw_prog now srt (SReqDeletePost a) = Some (respond_with SRespDeletePost (DeletePost_prog a))"
| "stw_prog now srt (SReqTimeline a) = Some (answer_timeline (Timeline_prog srt a))"
| "stw_prog now srt (SReqHomeTimeline a) = Some (answer_timeline (HomeTimeline_prog srt a))"

text \<open>The programs are the handlers: the program of a request, run without interruption, gives the reply, the world
  and the crashes of the handler that the RPC interface dispatches to.\<close>

lemma stw_prog_run:
  "stw_prog now srt req = Some p \<Longrightarrow>
   stw_serve now srt req ts w = go_bind (prog_run (ts_storage ts) p w) (\<lambda>(r, w). Inr (r, ts, w))"
  by (cases req)
    (auto simp: respond_with_def answer_timeline_def prog_run_bind CreateUser_prog_run Subscribe_prog_run Unsubscribe_prog_run
      Post_prog_run DeletePost_prog_run Timeline_prog_run HomeTimeline_prog_run stw_reply_def stw_timeline_reply_def
      run_split split: sum.splits)

end
