(* ===== verification/Stw_Interleave.thy ===== *)
theory Stw_Interleave
  imports Stw_Programs Stw_Timelines
begin

text \<open>
  Many requests inside their handlers at once.  A pool holds the programs of the requests under way, on any of
  the app servers; in one step a request arrives, makes its next call of the libstore, or is answered.  The
  calls themselves are atomic here; the theory \<open>Libstore_Threads\<close> looks inside them.
\<close>

section \<open>Pools\<close>

text \<open>The app server, the clock reading and the request, and what is left of its program.\<close>

type_synonym thread = "string \<times> int \<times> stw_request \<times> (go_error + stw_response) prog"

record 'w pool =
  pl_world :: 'w
  pl_threads :: "nat \<rightharpoonup> thread"
  pl_used :: "string set"
  pl_arrived :: "nat \<rightharpoonup> int \<times> stw_request"

text \<open>The pool keeps two records of the past: the keys that posts have used, and the requests that have arrived, each
  under a number of its own.  A pool is not a translation of code but the set of runs that the theorems cover.  Two things
  that the server does not prevent are left out: two posts of a user that read the same nanosecond, and an
  append to an empty list that is leased.\<close>

fun post_key_of :: "int \<Rightarrow> stw_request \<Rightarrow> string option" where
  "post_key_of now (SReqPost a) = Some (FormatPostKey (pt_UserID a) now)"
| "post_key_of now _ = None"

text \<open>An append to an empty list is covered only when nobody has leased the list.\<close>

definition may_call :: "('w \<Rightarrow> string \<Rightarrow> bool) \<Rightarrow> 'r prog \<Rightarrow> 'w \<Rightarrow> bool" where
  "may_call ok p w = (case p of PAppend k v f \<Rightarrow> ok w k | _ \<Rightarrow> True)"

inductive pool_step ::
  "(string \<Rightarrow> 'w Libstore) \<Rightarrow> string set \<Rightarrow> sort_fun \<Rightarrow> ('w \<Rightarrow> string \<Rightarrow> bool) \<Rightarrow> 'w pool \<Rightarrow> 'w pool \<Rightarrow> bool"
  for L hosts srt ok where
  arrive: "pl_arrived c i = None \<Longrightarrow> h \<in> hosts \<Longrightarrow> int64 now \<Longrightarrow> stw_prog now srt req = Some p \<Longrightarrow>
    set_option (post_key_of now req) \<inter> pl_used c = {} \<Longrightarrow>
    pool_step L hosts srt ok c
      (c\<lparr>pl_threads := (pl_threads c)(i \<mapsto> (h, now, req, p)), pl_used := set_option (post_key_of now req) \<union> pl_used c,
         pl_arrived := (pl_arrived c)(i \<mapsto> (now, req))\<rparr>)"
| call: "pl_threads c i = Some (h, now, req, p) \<Longrightarrow> may_call ok p (pl_world c) \<Longrightarrow>
    prog_step (L h) p (pl_world c) = Some (Inr (p', w')) \<Longrightarrow>
    pool_step L hosts srt ok c (c\<lparr>pl_world := w', pl_threads := (pl_threads c)(i \<mapsto> (h, now, req, p'))\<rparr>)"
| respond: "pl_threads c i = Some (h, now, req, PRet r) \<Longrightarrow>
    pool_step L hosts srt ok c (c\<lparr>pl_threads := (pl_threads c)(i := None)\<rparr>)"

inductive pool_reachable ::
  "(string \<Rightarrow> 'w Libstore) \<Rightarrow> string set \<Rightarrow> sort_fun \<Rightarrow> ('w \<Rightarrow> string \<Rightarrow> bool) \<Rightarrow> 'w pool \<Rightarrow> 'w pool \<Rightarrow> bool"
  for L hosts srt ok c where
  start: "pool_reachable L hosts srt ok c c"
| step: "pool_reachable L hosts srt ok c c' \<Longrightarrow> pool_step L hosts srt ok c' c'' \<Longrightarrow> pool_reachable L hosts srt ok c c''"

section \<open>Calls on a map\<close>

text \<open>What a call may do when the libstore keeps its contract, with the data as a map.\<close>

inductive kv_step :: "'r prog \<Rightarrow> kv \<Rightarrow> 'r prog \<Rightarrow> kv \<Rightarrow> bool" where
  get: "d k = Some {v} \<Longrightarrow> kv_step (PGet k f) d (f (Inr v)) d"
| get_absent: "d k = None \<Longrightarrow> kv_step (PGet k f) d (f (Inl e)) d"
| get_list: "d k = Some S \<Longrightarrow> finite S \<Longrightarrow> kv_step (PGetList k f) d (f (Inr (sorted_list_of_set S))) d"
| get_list_absent: "d k = None \<Longrightarrow> kv_step (PGetList k f) d (f (Inl e)) d"
| put: "kv_step (PPut k v f) d (f None) (d(k \<mapsto> {v}))"
| delete: "d k = Some S \<Longrightarrow> kv_step (PDelete k f) d (f None) (d(k := None))"
| append: "err = None \<longleftrightarrow> v \<notin> items d k \<Longrightarrow> kv_step (PAppend k v f) d (f err) (snd (kv_append k v d))"
| remove: "err = None \<longleftrightarrow> v \<in> items d k \<Longrightarrow> kv_step (PRemove k v f) d (f err) (snd (kv_remove k v d))"

text \<open>The call has a counterpart on the map: values are read with \<open>Get\<close> and only what is there is deleted.\<close>

fun kv_enabled :: "'r prog \<Rightarrow> kv \<Rightarrow> bool" where
  "kv_enabled (PRet x) d = False"
| "kv_enabled (PCrash c) d = False"
| "kv_enabled (PGet k f) d = (d k = None \<or> (\<exists>v. d k = Some {v}))"
| "kv_enabled (PDelete k f) d = (d k \<noteq> None)"
| "kv_enabled _ d = True"

context libstore_contract
begin

lemma prog_step_refines:
  assumes "winv w" and "may_call (appendable data idle) p w" and "kv_enabled p (data w)"
  obtains p' w' where "prog_step L p w = Some (Inr (p', w'))" and "winv w'" and "kv_step p (data w) p' (data w')"
proof (cases p)
  case (PGet k f)
  then consider "data w k = None" | v where "data w k = Some {v}" using assms(3) by auto
  then show thesis
  proof cases
    case 1
    with get_absent [OF assms(1)] obtain e w' where
      "lib_Get L k w = Inr (Inl e, w')" "lib_step winv data idle k (data w) w w'" by blast
    with 1 PGet show thesis
      by (intro that [of "f (Inl e)" w']) (auto simp: lib_step_def intro: kv_step.intros)
  next
    case 2
    with get_value [OF assms(1)] obtain w' where
      "lib_Get L k w = Inr (Inr v, w')" "lib_step winv data idle k (data w) w w'" by blast
    with 2 PGet show thesis
      by (intro that [of "f (Inr v)" w']) (auto simp: lib_step_def intro: kv_step.intros)
  qed
next
  case (PGetList k f)
  show thesis
  proof (cases "data w k")
    case None
    with get_list_absent [OF assms(1)] obtain e w' where
      "lib_GetList L k w = Inr (Inl e, w')" "lib_step winv data idle k (data w) w w'" by blast
    with None PGetList show thesis
      by (intro that [of "f (Inl e)" w']) (auto simp: lib_step_def intro: kv_step.intros)
  next
    case (Some S)
    with get_list [OF assms(1)] obtain w' where
      "lib_GetList L k w = Inr (Inr (sorted_list_of_set S), w')" "lib_step winv data idle k (data w) w w'" by blast
    with Some PGetList finite_data [OF assms(1) Some] show thesis
      by (intro that [of "f (Inr (sorted_list_of_set S))" w']) (auto simp: lib_step_def intro: kv_step.intros)
  qed
next
  case (PPut k v f)
  from put [OF assms(1)] obtain w' where
    "lib_Put L k v w = Inr (None, w')" "lib_step winv data idle k ((data w)(k \<mapsto> {v})) w w'" by blast
  with PPut show thesis by (intro that [of "f None" w']) (auto simp: lib_step_def intro: kv_step.intros)
next
  case (PDelete k f)
  then obtain S where S: "data w k = Some S" using assms(3) by auto
  with delete [OF assms(1)] obtain w' where
    "lib_Delete L k w = Inr (None, w')" "lib_step winv data idle k ((data w)(k := None)) w w'" by blast
  with S PDelete show thesis by (intro that [of "f None" w']) (auto simp: lib_step_def intro: kv_step.intros)
next
  case (PAppend k v f)
  then have "data w k = Some {} \<longrightarrow> idle w k" using assms(2) by (simp add: may_call_def appendable_def)
  from append [OF assms(1) this, of v] obtain err w' where "lib_AppendToList L k v w = Inr (err, w')"
    "err = None \<longleftrightarrow> v \<notin> items (data w) k" "lib_step winv data idle k (snd (kv_append k v (data w))) w w'"
    unfolding append_status by blast
  with PAppend show thesis by (intro that [of "f err" w']) (auto simp: lib_step_def intro: kv_step.append)
next
  case (PRemove k v f)
  from remove [OF assms(1), of k v] obtain err w' where "lib_RemoveFromList L k v w = Inr (err, w')"
    "err = None \<longleftrightarrow> v \<in> items (data w) k" "lib_step winv data idle k (snd (kv_remove k v (data w))) w w'"
    unfolding remove_status by blast
  with PRemove show thesis by (intro that [of "f err" w']) (auto simp: lib_step_def intro: kv_step.remove)
qed (use assms(3) in auto)

end

section \<open>What holds between calls\<close>

text \<open>The data while requests are under way, weaker than \<open>represents\<close>: contents may be stored for a post that is
  not yet, or no longer, in a list.  A key in a list always has contents.\<close>

definition user_post_keys :: "string \<Rightarrow> string set" where
  "user_post_keys u = FormatPostKey u ` {t. int64 t}"

definition kv_users :: "kv \<Rightarrow> string set" where
  "kv_users d = {u. d (FormatUserKey u) \<noteq> None}"

definition listed :: "kv \<Rightarrow> string \<Rightarrow> bool" where
  "listed d k \<longleftrightarrow> (\<exists>u. k \<in> items d (FormatPostListKey u))"

definition loose :: "kv \<Rightarrow> bool" where
  "loose d \<longleftrightarrow>
     (\<forall>u\<in>kv_users d. d (FormatUserKey u) = Some {[]}) \<and>
     (\<forall>u. \<forall>k\<in>user_post_keys u. \<forall>S. d k = Some S \<longrightarrow> (\<exists>c. S = {c})) \<and>
     (\<forall>u. \<forall>k\<in>items d (FormatPostListKey u). k \<in> user_post_keys u \<and> d k \<noteq> None \<and> u \<in> kv_users d) \<and>
     (\<forall>u. \<forall>v\<in>items d (FormatSubListKey u). u \<in> kv_users d \<and> v \<in> kv_users d)"

text \<open>The abstract state: posts are those that are listed.\<close>

definition abs_tw :: "kv \<Rightarrow> twitter" where
  "abs_tw d =
     \<lparr>users = kv_users d, follows = {(u, v). v \<in> items d (FormatSubListKey u)},
      posts = (\<lambda>u t. if int64 t \<and> FormatPostKey u t \<in> items d (FormatPostListKey u)
                     then map_option the_elem (d (FormatPostKey u t)) else None)\<rparr>"

lemma represents_abs:
  assumes "represents d tw"
  shows "abs_tw d = tw"
proof -
  have "(if int64 t \<and> FormatPostKey u t \<in> items d (FormatPostListKey u)
      then map_option the_elem (d (FormatPostKey u t)) else None) = posts tw u t" for u t
  proof (cases "posts tw u t")
    case None
    then have "int64 t \<Longrightarrow> d (FormatPostKey u t) = None" using assms by (simp add: represents_def)
    with None show ?thesis by simp
  next
    case (Some c)
    with representsD(4-6) [OF assms] show ?thesis by (auto simp: post_keys_def)
  qed
  moreover have "kv_users d = users tw" using assms by (auto simp: kv_users_def represents_def)
  moreover have "{(u, v). v \<in> items d (FormatSubListKey u)} = follows tw" using representsD(3) [OF assms] by auto
  ultimately show ?thesis by (simp add: abs_tw_def)
qed

subsection \<open>What a request has learnt and owes\<close>

text \<open>The post key that a request holds: \<open>Post\<close> before and after it stored the contents, \<open>DeletePost\<close> after it
  took the key off the list.\<close>

datatype holding = NoKey | Fresh string | Stored string string | Removed string

fun held_key :: "holding \<Rightarrow> string option" where
  "held_key NoKey = None"
| "held_key (Fresh k) = Some k"
| "held_key (Stored k c) = Some k"
| "held_key (Removed k) = Some k"

definition single_key :: "string \<Rightarrow> bool" where
  "single_key k \<longleftrightarrow> (\<exists>u. k = FormatUserKey u) \<or> (\<exists>u. k \<in> user_post_keys u)"

text \<open>The discipline of the handlers, for a request at a time: \<open>U\<close> are users that have existed from the start,
  \<open>K\<close> are users known to exist, \<open>g\<close> is the key held and \<open>e\<close> says whether the request has taken effect.  Lists are only appended to for known users, a post is
  stored before it is listed and taken off its list before it is deleted; the request takes effect when a user
  is stored who was not there, which the request does not learn, and when a list is changed.\<close>

primrec disc ::
  "string set \<Rightarrow> ('r \<Rightarrow> string set \<Rightarrow> holding \<Rightarrow> bool \<Rightarrow> bool) \<Rightarrow> int \<Rightarrow> stw_request \<Rightarrow> 'r prog \<Rightarrow> string set \<Rightarrow> holding \<Rightarrow> bool \<Rightarrow> bool" where
  "disc U Q now req (PRet r) K g e = Q r K g e"
| "disc U Q now req (PCrash c) K g e = False"
| "disc U Q now req (PGet k f) K g e =
     (single_key k \<and> (\<forall>x. k \<notin> FormatUserKey ` U \<longrightarrow> disc U Q now req (f (Inl x)) K g e) \<and>
      (\<forall>v. disc U Q now req (f (Inr v)) (K \<union> {u. k = FormatUserKey u}) g e))"
| "disc U Q now req (PGetList k f) K g e =
     ((\<forall>x. disc U Q now req (f (Inl x)) K g e) \<and>
      (\<forall>xs. (\<forall>u. k = FormatPostListKey u \<longrightarrow> set xs \<subseteq> user_post_keys u) \<longrightarrow> disc U Q now req (f (Inr xs)) K g e))"
| "disc U Q now req (PPut k v f) K g e =
     ((\<exists>u. req = SReqCreateUser \<lparr>cu_UserID = u\<rparr> \<and> k = FormatUserKey u \<and> u \<notin> U \<and> v = [] \<and> \<not> e \<and>
        (\<forall>e'. disc U Q now req (f None) (insert u K) g e')) \<or>
      (\<exists>u. req = SReqPost \<lparr>pt_UserID = u, pt_Contents = v\<rparr> \<and> k = FormatPostKey u now \<and> g = Fresh k \<and>
        disc U Q now req (f None) K (Stored k v) e))"
| "disc U Q now req (PDelete k f) K g e = (g = Removed k \<and> disc U Q now req (f None) K NoKey e)"
| "disc U Q now req (PAppend k v f) K g e =
     ((\<exists>u. req = SReqSubscribe \<lparr>su_UserID = u, su_TargetUserID = v\<rparr> \<and> k = FormatSubListKey u \<and> u \<in> K \<and> v \<in> K \<and>
        \<not> e \<and> (\<forall>x. disc U Q now req (f (Some x)) K g False) \<and> disc U Q now req (f None) K g True) \<or>
      (\<exists>u c. req = SReqPost \<lparr>pt_UserID = u, pt_Contents = c\<rparr> \<and> k = FormatPostListKey u \<and> v = FormatPostKey u now \<and>
        int64 now \<and> u \<in> K \<and> g = Stored v c \<and> \<not> e \<and> disc U Q now req (f None) K NoKey True))"
| "disc U Q now req (PRemove k v f) K g e =
     ((\<exists>u. req = SReqUnsubscribe \<lparr>su_UserID = u, su_TargetUserID = v\<rparr> \<and> k = FormatSubListKey u \<and> u \<in> K \<and> v \<in> K \<and>
        \<not> e \<and> (\<forall>x. disc U Q now req (f (Some x)) K g False) \<and> disc U Q now req (f None) K g True) \<or>
      (\<exists>u. req = SReqDeletePost \<lparr>dp_UserID = u, dp_PostKey = v\<rparr> \<and> k = FormatPostListKey u \<and> post_user v = u \<and>
        u \<in> K \<and> g = NoKey \<and> \<not> e \<and>
        (\<forall>x. disc U Q now req (f (Some x)) K NoKey False) \<and> disc U Q now req (f None) K (Removed v) True))"

lemma disc_bind:
  "disc U (\<lambda>r K g e. disc U Q now req (f r) K g e) now req p K g e \<Longrightarrow> disc U Q now req (prog_bind p f) K g e"
proof (induction p arbitrary: K g e)
  case (PPut k v h)
  then show ?case using PPut.IH [OF rangeI] by simp blast
next
  case (PAppend k v h)
  then show ?case using PAppend.IH [OF rangeI] by simp blast
next
  case (PRemove k v h)
  then show ?case using PRemove.IH [OF rangeI] by simp blast
qed simp_all

lemma disc_mono:
  assumes "\<And>r K g e. Q r K g e \<Longrightarrow> Q' r K g e"
  shows "disc U Q now req p K g e \<Longrightarrow> disc U Q' now req p K g e"
proof (induction p arbitrary: K g e)
  case (PPut k v h)
  then show ?case using PPut.IH [OF rangeI] by simp blast
next
  case (PAppend k v h)
  then show ?case using PAppend.IH [OF rangeI] by simp blast
next
  case (PRemove k v h)
  then show ?case using PRemove.IH [OF rangeI] by simp blast
qed (simp_all add: assms)

lemma disc_locally:
  "disc U Q now req (locally (ParsePostKey key) f) K g e = disc U Q now req (f (parse_post key)) K g e"
  by (simp add: locally_def ParsePostKey_total)

subsection \<open>The handlers keep the discipline\<close>

abbreviation inert :: "'r \<Rightarrow> string set \<Rightarrow> holding \<Rightarrow> bool \<Rightarrow> bool" where
  "inert r K g e \<equiv> \<not> e"

text \<open>The requests that take effect are those that are answered with the status \<open>OK\<close>, except for a \<open>CreateUser\<close> that
  lost a race: it did not find the user, but another request stored the user before it did.  Timelines have no
  effect.\<close>

fun accepted :: "go_error + stw_response \<Rightarrow> bool" where
  "accepted (Inr (SRespCreateUser r)) \<longleftrightarrow> cur_Status r = StwOK"
| "accepted (Inr (SRespSubscription r)) \<longleftrightarrow> sur_Status r = StwOK"
| "accepted (Inr (SRespPost r)) \<longleftrightarrow> ptr_Status r = StwOK"
| "accepted (Inr (SRespDeletePost r)) \<longleftrightarrow> dpr_Status r = StwOK"
| "accepted _ \<longleftrightarrow> False"

definition settled ::
  "string set \<Rightarrow> stw_request \<Rightarrow> go_error + stw_response \<Rightarrow> string set \<Rightarrow> holding \<Rightarrow> bool \<Rightarrow> bool" where
  "settled U req r K g e \<longleftrightarrow> (e \<longrightarrow> accepted r) \<and>
     (accepted r \<longrightarrow> e \<or> (\<exists>u. req = SReqCreateUser \<lparr>cu_UserID = u\<rparr> \<and> u \<in> K \<and> u \<notin> U))"

lemma settledI [simp]: "e = accepted r \<Longrightarrow> settled U req r K g e"
  by (simp add: settled_def)

lemma disc_timeline:
  "\<forall>k\<in>set keys. single_key k \<Longrightarrow> disc U inert now req (timeline_prog limit keys ps) K g False"
  "\<forall>k\<in>set keys. single_key k \<Longrightarrow> disc U inert now req (home_prog limit keys ps) K g False"
  by (induction keys arbitrary: limit ps K) (auto simp: disc_locally split: sum.splits prod.splits)

lemma disc_gather:
  assumes "go_sort srt" and "\<forall>k\<in>set pKeys. single_key k"
  shows "disc U (\<lambda>ks K g e. (\<forall>k\<in>set ks. single_key k) \<and> \<not> e) now req (gather_prog srt slist pKeys) K g False"
  using assms(2)
proof (induction slist arbitrary: pKeys)
  case (Cons t slist)
  have srt: "set (srt lt xs) = set xs" for lt xs using go_sort.set_srt [OF assms(1)] .
  have "\<forall>k\<in>set (pKeys @ take n (srt lt xs)). single_key k" if "set xs \<subseteq> user_post_keys t" for n lt xs
    using that Cons.prems srt [of lt xs] by (fastforce simp: single_key_def dest: in_set_takeD)
  with Cons show ?case by (auto simp: Let_def)
qed simp

lemma disc_answer_timeline:
  assumes "disc U inert now req p K g False"
  shows "disc U (settled U req) now req (answer_timeline p) K g False"
  unfolding answer_timeline_def by (rule disc_bind, rule disc_mono [OF _ assms]) (simp split: sum.splits)

lemma disc_request:
  assumes "stw_prog now srt req = Some p" and "go_sort srt" and "int64 now"
  shows "disc U (settled U req) now req p {} (case post_key_of now req of None \<Rightarrow> NoKey | Some k \<Rightarrow> Fresh k) False"
proof -
  have user: "single_key (FormatUserKey u)" for u by (auto simp: single_key_def)
  have srt: "set (srt lt xs) = set xs" for lt xs using go_sort.set_srt [OF assms(2)] .
  have keys: "\<forall>k\<in>set (srt lt xs). single_key k" if "set xs \<subseteq> user_post_keys u" for u lt xs
    using that by (auto simp: srt single_key_def)
  have keys': "\<forall>k\<in>set (srt lt xs). single_key k" if "\<forall>k\<in>set xs. single_key k" for lt xs
    using that by (simp add: srt)
  show ?thesis
  proof (cases req)
    case (SReqTimeline a)
    have "disc U inert now req (Timeline_prog srt a) {} NoKey False"
      using user keys by (auto simp: Timeline_prog_def timeline_reply_def intro!: disc_bind disc_timeline split: sum.splits)
    with assms(1) SReqTimeline disc_answer_timeline show ?thesis by auto
  next
    case (SReqHomeTimeline a)
    have home: "disc U inert now req (prog_bind (gather_prog srt slist [])
        (\<lambda>pKeys. prog_bind (home_prog 100 (srt lt pKeys) []) timeline_reply)) K g False" for slist lt K g
    proof (rule disc_bind, rule disc_mono [OF _ disc_gather [OF assms(2)]])
      fix ks :: "string list" and K g and e :: bool assume "(\<forall>k\<in>set ks. single_key k) \<and> \<not> e"
      then show "disc U inert now req (prog_bind (home_prog 100 (srt lt ks) []) timeline_reply) K g e"
        using disc_timeline(2) [OF keys'] by (auto simp: timeline_reply_def intro!: disc_bind)
    qed simp
    then have "disc U inert now req (HomeTimeline_prog srt a) {} NoKey False"
      using user home [of "[]"] by (auto simp: HomeTimeline_prog_def Let_def split: sum.splits)
    with assms(1) SReqHomeTimeline disc_answer_timeline show ?thesis by auto
  next
    case (SReqPost a)
    obtain u c where "a = \<lparr>pt_UserID = u, pt_Contents = c\<rparr>" by (cases a)
    with assms(1,3) user SReqPost show ?thesis by (auto simp: respond_with_def Post_prog_def Let_def split: sum.splits)
  next
    case (SReqDeletePost a)
    obtain u key where a: "a = \<lparr>dp_UserID = u, dp_PostKey = key\<rparr>" by (cases a)
    have "disc U (\<lambda>r K g e. e = (dpr_Status r = StwOK)) now req (DeletePost_prog a) {} NoKey False"
      using user unfolding a SReqDeletePost
      by (auto simp: DeletePost_prog_def disc_locally post_user_def split: sum.splits prod.splits)
    then have "disc U (settled U req) now req (respond_with SRespDeletePost (DeletePost_prog a)) {} NoKey False"
      unfolding respond_with_def by (intro disc_bind) (rule disc_mono [rotated], assumption, simp)
    with assms(1) SReqDeletePost show ?thesis by auto
  qed (use assms(1) user in \<open>auto simp: respond_with_def CreateUser_prog_def Subscribe_prog_def Unsubscribe_prog_def
      Let_def settled_def split: sum.splits\<close>)
qed

section \<open>The effect of one call\<close>

text \<open>What a request that is accepted does to the abstract state.\<close>

fun when_ok :: "StwStatus \<times> twitter \<Rightarrow> twitter option" where
  "when_ok (st, tw) = (if st = StwOK then Some tw else None)"

fun tw_update :: "int \<Rightarrow> stw_request \<Rightarrow> twitter \<Rightarrow> twitter option" where
  "tw_update now (SReqCreateUser a) tw = when_ok (tw_create (cu_UserID a) tw)"
| "tw_update now (SReqSubscribe a) tw = when_ok (tw_subscribe (su_UserID a) (su_TargetUserID a) tw)"
| "tw_update now (SReqUnsubscribe a) tw = when_ok (tw_unsubscribe (su_UserID a) (su_TargetUserID a) tw)"
| "tw_update now (SReqPost a) tw = when_ok (tw_post now (pt_UserID a) (pt_Contents a) tw)"
| "tw_update now (SReqDeletePost a) tw = when_ok (tw_delete (dp_UserID a) (dp_PostKey a) tw)"
| "tw_update now _ tw = None"

text \<open>Requests carried out one after the other, each of them accepted.\<close>

fun replay :: "(nat \<rightharpoonup> int \<times> stw_request) \<Rightarrow> nat list \<Rightarrow> twitter \<Rightarrow> twitter option" where
  "replay reqs [] tw = Some tw"
| "replay reqs (i # is) tw = Option.bind (reqs i) (\<lambda>(now, req). Option.bind (tw_update now req tw) (replay reqs is))"

lemma replay_append: "replay reqs (is @ js) tw = Option.bind (replay reqs is tw) (replay reqs js)"
  by (induction "is" arbitrary: tw) (auto split: Option.bind_splits prod.splits)

lemma replay_mono: "replay reqs is tw = Some tw' \<Longrightarrow> reqs \<subseteq>\<^sub>m reqs' \<Longrightarrow> replay reqs' is tw = Some tw'"
proof (induction "is" arbitrary: tw)
  case (Cons i "is")
  then obtain r where "reqs i = Some r" by (auto split: Option.bind_splits)
  with Cons show ?case by (auto simp: map_le_def dom_def split: Option.bind_splits prod.splits)
qed simp

lemma replay_arrived: "replay reqs is tw = Some tw' \<Longrightarrow> set is \<subseteq> dom reqs"
proof (induction "is" arbitrary: tw)
  case (Cons i "is")
  then obtain r tw1 where "reqs i = Some r" "replay reqs is tw1 = Some tw'" by (auto split: Option.bind_splits)
  with Cons.IH show ?case by auto
qed simp

lemma kv_users_upd [simp]:
  "kv_users (d(FormatUserKey u \<mapsto> S)) = insert u (kv_users d)"
  "kv_users (d(FormatPostKey u t := x)) = kv_users d"
  "kv_users (snd (kv_append (FormatSubListKey u) v d)) = kv_users d"
  "kv_users (snd (kv_append (FormatPostListKey u) v d)) = kv_users d"
  "kv_users (snd (kv_remove (FormatSubListKey u) v d)) = kv_users d"
  "kv_users (snd (kv_remove (FormatPostListKey u) v d)) = kv_users d"
  by (auto simp: kv_users_def)

lemma items_none: "d k = None \<Longrightarrow> items d k = {}"
  by (simp add: items_def)

lemma items_other [simp]: "k' \<noteq> k \<Longrightarrow> items (d(k := x)) k' = items d k'"
  by (simp add: items_def)

lemma user_post_keys_neq [simp]:
  "FormatUserKey u \<notin> user_post_keys v" "FormatSubListKey u \<notin> user_post_keys v" "FormatPostListKey u \<notin> user_post_keys v"
  by (auto simp: user_post_keys_def)

lemma user_post_keys_own: "k \<in> user_post_keys u \<Longrightarrow> k \<in> user_post_keys v \<Longrightarrow> u = v"
  by (auto simp: user_post_keys_def FormatPostKey_inj)

lemma post_key_in [simp]: "int64 t \<Longrightarrow> FormatPostKey u t \<in> user_post_keys v \<longleftrightarrow> u = v"
  by (auto simp: user_post_keys_def FormatPostKey_inj)

text \<open>Operations on lists change neither users nor contents.\<close>

lemma list_ops_other [simp]:
  "k \<in> user_post_keys w \<Longrightarrow> snd (kv_append (FormatSubListKey u) v d) k = d k"
  "k \<in> user_post_keys w \<Longrightarrow> snd (kv_append (FormatPostListKey u) v d) k = d k"
  "k \<in> user_post_keys w \<Longrightarrow> snd (kv_remove (FormatSubListKey u) v d) k = d k"
  "k \<in> user_post_keys w \<Longrightarrow> snd (kv_remove (FormatPostListKey u) v d) k = d k"
  by (metis items_append(2) items_remove(2) user_post_keys_neq)+

lemma loose_lists:
  assumes "loose d" and "\<And>u. d' (FormatUserKey u) = d (FormatUserKey u)"
    and "\<And>u k. k \<in> user_post_keys u \<Longrightarrow> d' k = d k"
    and "\<And>u k. k \<in> items d' (FormatPostListKey u) \<Longrightarrow>
      k \<in> items d (FormatPostListKey u) \<or> k \<in> user_post_keys u \<and> d k \<noteq> None \<and> u \<in> kv_users d"
    and "\<And>u v. v \<in> items d' (FormatSubListKey u) \<Longrightarrow> v \<in> items d (FormatSubListKey u) \<or> u \<in> kv_users d \<and> v \<in> kv_users d"
  shows "loose d'"
proof -
  have users: "kv_users d' = kv_users d" using assms(2) by (simp add: kv_users_def)
  have posts: "k \<in> user_post_keys u \<and> d' k \<noteq> None \<and> u \<in> kv_users d'" if "k \<in> items d' (FormatPostListKey u)" for u k
    using assms(1) assms(3) [of k u] assms(4) [OF that] unfolding loose_def users by auto
  have subs: "u \<in> kv_users d' \<and> v \<in> kv_users d'" if "v \<in> items d' (FormatSubListKey u)" for u v
    using assms(1) assms(5) [OF that] unfolding loose_def users by auto
  show ?thesis
    using assms(1) posts subs unfolding loose_def users by (simp add: assms(2,3))
qed

lemma loose_listed: "loose d \<Longrightarrow> k \<in> items d (FormatPostListKey u) \<Longrightarrow> k \<in> user_post_keys u \<and> d k \<noteq> None \<and> u \<in> kv_users d"
  by (simp add: loose_def)

lemma listed_post_key:
  "loose d \<Longrightarrow> k \<in> user_post_keys u \<Longrightarrow> listed d k \<longleftrightarrow> k \<in> items d (FormatPostListKey u)"
  unfolding listed_def using loose_listed user_post_keys_own by metis

lemma abs_posts: "posts (abs_tw d) u t \<noteq> None \<Longrightarrow> int64 t"
  by (simp add: abs_tw_def split: if_splits)

lemma loose_create:
  assumes "loose d"
  shows "loose (d(FormatUserKey u \<mapsto> {[]}))" and "u \<in> kv_users d \<Longrightarrow> abs_tw (d(FormatUserKey u \<mapsto> {[]})) = abs_tw d"
    and "u \<notin> kv_users d \<Longrightarrow> tw_create u (abs_tw d) = (StwOK, abs_tw (d(FormatUserKey u \<mapsto> {[]})))"
proof -
  have "d(FormatUserKey u \<mapsto> {[]}) = d" if "u \<in> kv_users d"
    using that assms by (auto simp: loose_def fun_upd_idem)
  then show "u \<in> kv_users d \<Longrightarrow> abs_tw (d(FormatUserKey u \<mapsto> {[]})) = abs_tw d" by simp
  show "u \<notin> kv_users d \<Longrightarrow> tw_create u (abs_tw d) = (StwOK, abs_tw (d(FormatUserKey u \<mapsto> {[]})))"
    by (auto simp: abs_tw_def tw_create_def fun_eq_iff)
  show "loose (d(FormatUserKey u \<mapsto> {[]}))"
    using assms unfolding loose_def by (auto simp: kv_users_def)
qed

lemma loose_store:
  assumes "loose d" and "int64 t" and "\<not> listed d (FormatPostKey u t)"
  shows "loose (d(FormatPostKey u t \<mapsto> {c}))" and "abs_tw (d(FormatPostKey u t \<mapsto> {c})) = abs_tw d"
    and "abs_tw (d(FormatPostKey u t := None)) = abs_tw d" and "loose (d(FormatPostKey u t := None))"
proof -
  have ne: "FormatPostKey v s = FormatPostKey u t \<Longrightarrow> int64 s \<Longrightarrow> FormatPostKey v s \<notin> items d (FormatPostListKey v)" for v s
    using assms(3) by (auto simp: listed_def)
  show "abs_tw (d(FormatPostKey u t \<mapsto> {c})) = abs_tw d" "abs_tw (d(FormatPostKey u t := None)) = abs_tw d"
    using ne by (auto simp: abs_tw_def fun_eq_iff)
  have "k \<noteq> FormatPostKey u t" if "k \<in> items d (FormatPostListKey v)" for k v
    using that assms(3) by (auto simp: listed_def)
  then show "loose (d(FormatPostKey u t \<mapsto> {c}))" "loose (d(FormatPostKey u t := None))"
    using assms(1) unfolding loose_def by (auto simp: kv_users_def)
qed

lemma loose_follow:
  assumes "loose d" and "u \<in> kv_users d" and "v \<in> kv_users d"
  shows "loose (snd (kv_append (FormatSubListKey u) v d))"
    and "v \<notin> items d (FormatSubListKey u) \<Longrightarrow>
      tw_subscribe u v (abs_tw d) = (StwOK, abs_tw (snd (kv_append (FormatSubListKey u) v d)))"
    and "loose (snd (kv_remove (FormatSubListKey u) v d))"
    and "v \<in> items d (FormatSubListKey u) \<Longrightarrow>
      tw_unsubscribe u v (abs_tw d) = (StwOK, abs_tw (snd (kv_remove (FormatSubListKey u) v d)))"
proof -
  show "loose (snd (kv_append (FormatSubListKey u) v d))" "loose (snd (kv_remove (FormatSubListKey u) v d))"
    by (rule loose_lists [OF assms(1)]; use assms(2,3) in \<open>auto split: if_splits\<close>)+
  show "v \<notin> items d (FormatSubListKey u) \<Longrightarrow>
      tw_subscribe u v (abs_tw d) = (StwOK, abs_tw (snd (kv_append (FormatSubListKey u) v d)))"
    "v \<in> items d (FormatSubListKey u) \<Longrightarrow>
      tw_unsubscribe u v (abs_tw d) = (StwOK, abs_tw (snd (kv_remove (FormatSubListKey u) v d)))"
    using assms(2,3) by (auto simp: abs_tw_def tw_subscribe_def tw_unsubscribe_def fun_eq_iff split: if_splits)
qed

lemma loose_list:
  assumes "loose d" and "int64 t" and "d (FormatPostKey u t) = Some {c}" and "u \<in> kv_users d"
  shows "loose (snd (kv_append (FormatPostListKey u) (FormatPostKey u t) d))"
    and "tw_post t u c (abs_tw d) = (StwOK, abs_tw (snd (kv_append (FormatPostListKey u) (FormatPostKey u t) d)))"
proof -
  show "loose (snd (kv_append (FormatPostListKey u) (FormatPostKey u t) d))"
    by (rule loose_lists [OF assms(1)]; use assms(2-4) in \<open>auto split: if_splits\<close>)
  show "tw_post t u c (abs_tw d) = (StwOK, abs_tw (snd (kv_append (FormatPostListKey u) (FormatPostKey u t) d)))"
    using assms(2-4) by (auto simp: abs_tw_def tw_post_def fun_eq_iff FormatPostKey_inj split: if_splits)
qed

lemma loose_unlist:
  assumes "loose d" and "u \<in> kv_users d" and "post_user key = u"
  shows "loose (snd (kv_remove (FormatPostListKey u) key d))"
    and "key \<in> items d (FormatPostListKey u) \<Longrightarrow>
      tw_delete u key (abs_tw d) = (StwOK, abs_tw (snd (kv_remove (FormatPostListKey u) key d)))"
proof -
  show "loose (snd (kv_remove (FormatPostListKey u) key d))"
    by (rule loose_lists [OF assms(1)]; use assms(2) in \<open>auto split: if_splits\<close>)
  have plain: "CHR '':'' \<notin> set u" using post_user_plain [of key] assms(3) by simp
  assume key: "key \<in> items d (FormatPostListKey u)"
  then obtain t where t: "key = FormatPostKey u t" "int64 t"
    using loose_listed [OF assms(1)] by (auto simp: user_post_keys_def)
  then have pt: "post_time key = t" using plain by simp
  have "posts (abs_tw d) u t \<noteq> None" using key t loose_listed [OF assms(1) key] by (simp add: abs_tw_def)
  then have "tw_delete u key (abs_tw d) = (StwOK, (abs_tw d)\<lparr>posts := (posts (abs_tw d))(u := (posts (abs_tw d) u)(t := None))\<rparr>)"
    using assms(2,3) t pt by (simp add: tw_delete_def abs_tw_def)
  then show "tw_delete u key (abs_tw d) = (StwOK, abs_tw (snd (kv_remove (FormatPostListKey u) key d)))"
    using t by (auto simp: abs_tw_def fun_eq_iff FormatPostKey_inj)
qed

lemma kv_ops_refused:
  "v \<in> items d k \<Longrightarrow> snd (kv_append k v d) = d" "v \<notin> items d k \<Longrightarrow> snd (kv_remove k v d) = d"
  by (auto simp: kv_append_def kv_remove_def items_def insert_absorb fun_upd_idem split: option.splits)

subsection \<open>A call of a request that keeps the discipline\<close>

definition hold_ok :: "kv \<Rightarrow> string set \<Rightarrow> holding \<Rightarrow> bool" where
  "hold_ok d used g \<longleftrightarrow>
     (\<forall>k. held_key g = Some k \<longrightarrow> (\<exists>u. k \<in> user_post_keys u) \<and> k \<in> used \<and> \<not> listed d k) \<and>
     (\<forall>k c. g = Stored k c \<longrightarrow> d k = Some {c}) \<and> (\<forall>k. g = Removed k \<longrightarrow> d k \<noteq> None)"

text \<open>What the other requests may rely on: users stay, and a key that the caller does not hold keeps its contents
  and is not listed anew.\<close>

definition others :: "kv \<Rightarrow> kv \<Rightarrow> holding \<Rightarrow> bool" where
  "others d d' g \<longleftrightarrow> kv_users d \<subseteq> kv_users d' \<and>
     (\<forall>u. \<forall>k\<in>user_post_keys u. held_key g \<noteq> Some k \<longrightarrow> d' k = d k \<and> (listed d' k \<longrightarrow> listed d k))"

text \<open>The call leaves the abstract state as it is, or the request takes effect, for the first time.\<close>

definition effect :: "int \<Rightarrow> stw_request \<Rightarrow> kv \<Rightarrow> kv \<Rightarrow> bool \<Rightarrow> bool \<Rightarrow> bool" where
  "effect now req d d' e e' \<longleftrightarrow>
     (if e' = e then abs_tw d' = abs_tw d else e' \<and> tw_update now req (abs_tw d) = Some (abs_tw d'))"

type_synonym handler = "(go_error + stw_response) prog"

definition advanced ::
  "string set \<Rightarrow> int \<Rightarrow> stw_request \<Rightarrow> string set \<Rightarrow> handler \<Rightarrow> kv \<Rightarrow> kv \<Rightarrow> holding \<Rightarrow> bool \<Rightarrow> string set \<Rightarrow> holding \<Rightarrow> bool \<Rightarrow> bool" where
  "advanced U now req used p' d d' g e K' g' e' \<longleftrightarrow>
     disc U (settled U req) now req p' K' g' e' \<and> K' \<subseteq> kv_users d' \<and> hold_ok d' used g' \<and> loose d' \<and> others d d' g \<and>
     (\<forall>k. held_key g' = Some k \<longrightarrow> held_key g = Some k \<or> listed d k) \<and>
     (\<forall>k. listed d' k \<longrightarrow> listed d k \<or> held_key g = Some k) \<and> effect now req d d' e e'"

lemma disc_enabled:
  assumes "disc U Q now req p K g e" and "loose d" and "hold_ok d used g"
  shows "kv_enabled p d \<or> (\<exists>r. p = PRet r)"
proof (cases p)
  case (PGet k f)
  have "d k = None \<or> (\<exists>v. d k = Some {v})" if "k \<in> user_post_keys u" for u
    using assms(2) that unfolding loose_def by (cases "d k") auto
  moreover have "d k = None \<or> (\<exists>v. d k = Some {v})" if "k = FormatUserKey u" for u
    using assms(2) that unfolding loose_def kv_users_def by (metis (mono_tags) mem_Collect_eq)
  ultimately show ?thesis using assms(1) PGet by (auto simp: single_key_def)
qed (use assms in \<open>auto simp: hold_ok_def\<close>)

lemma advanced_same:
  assumes "disc U (settled U req) now req p' K' g e" and "K' \<subseteq> kv_users d" and "hold_ok d used g" and "loose d"
  shows "advanced U now req used p' d d g e K' g e"
  using assms by (simp add: advanced_def others_def effect_def)

lemma listed_upd:
  "listed (d(FormatUserKey u \<mapsto> S)) k = listed d k" "listed (d(FormatPostKey u t := x)) k = listed d k"
  "listed (snd (kv_append (FormatSubListKey u) v d)) k = listed d k"
  "listed (snd (kv_remove (FormatSubListKey u) v d)) k = listed d k"
  "listed (snd (kv_append (FormatPostListKey u) v d)) k \<longleftrightarrow> k = v \<or> listed d k"
  "listed (snd (kv_remove (FormatPostListKey u) v d)) k \<Longrightarrow> listed d k"
  by (auto simp: listed_def split: if_splits)

lemma hold_ok_keep:
  assumes "hold_ok d used g" and "\<And>k u. held_key g = Some k \<Longrightarrow> k \<in> user_post_keys u \<Longrightarrow> d' k = d k"
    and "\<And>k. listed d' k \<Longrightarrow> listed d k"
  shows "hold_ok d' used g"
  using assms unfolding hold_ok_def by (metis held_key.simps(3,4))

lemma kv_step_advances:
  assumes "kv_step p d p' d'" and "disc U (settled U req) now req p K g e" and "K \<subseteq> kv_users d" and "hold_ok d used g" and "loose d"
    and "U \<subseteq> kv_users d" and "\<And>k. listed d k \<Longrightarrow> k \<in> used" and "int64 now"
  shows "\<exists>K' g' e'. advanced U now req used p' d d' g e K' g' e'"
  using assms(1)
proof cases
  case (get k v f)
  then have "K \<union> {u. k = FormatUserKey u} \<subseteq> kv_users d" using assms(3) by (auto simp: kv_users_def)
  with get assms show ?thesis by (auto intro!: exI advanced_same)
next
  case (get_absent k f x)
  then have "k \<notin> FormatUserKey ` U" using assms(6) by (auto simp: kv_users_def)
  with get_absent assms show ?thesis by (auto intro!: exI advanced_same)
next
  case (get_list k S f)
  then have "\<forall>u. k = FormatPostListKey u \<longrightarrow> set (sorted_list_of_set S) \<subseteq> user_post_keys u"
    using loose_listed [OF assms(5)] by (auto simp: items_def)
  then have "disc U (settled U req) now req p' K g e" using assms(2) unfolding get_list(1,2) by simp
  from advanced_same [OF this assms(3-5)] show ?thesis unfolding get_list(3) by blast
next
  case (get_list_absent k f e)
  with assms show ?thesis by (auto intro!: exI advanced_same)
next
  case (put k v f)
  from assms(2) consider
    (create) u where "req = SReqCreateUser \<lparr>cu_UserID = u\<rparr>" "k = FormatUserKey u" "v = []" "\<not> e"
      "\<And>e'. disc U (settled U req) now req (f None) (insert u K) g e'"
  | (store) u where "req = SReqPost \<lparr>pt_UserID = u, pt_Contents = v\<rparr>" "k = FormatPostKey u now" "g = Fresh k"
      "disc U (settled U req) now req (f None) K (Stored k v) e"
    unfolding put(1) by auto
  then show ?thesis
  proof cases
    case create
    have "hold_ok d' used g" by (rule hold_ok_keep [OF assms(4)]) (use create put in \<open>auto simp: listed_upd\<close>)
    with create put assms(3) loose_create [OF assms(5), of u]
    have "advanced U now req used p' d d' g e (insert u K) g (u \<notin> kv_users d)"
      by (cases "u \<in> kv_users d") (auto simp: advanced_def others_def effect_def listed_upd)
    then show ?thesis by blast
  next
    case store
    then have "\<not> listed d k" using assms(4) by (simp add: hold_ok_def)
    with store put assms(3,4) loose_store(1,2) [OF assms(5,8), of u v] have "advanced U now req used p' d d' g e K (Stored k v) e"
      by (auto simp: advanced_def others_def effect_def listed_upd hold_ok_def)
    then show ?thesis by blast
  qed
next
  case (delete k S f)
  then have g: "g = Removed k" "disc U (settled U req) now req p' K NoKey e" using assms(2) by auto
  then obtain u t where k: "k = FormatPostKey u t" "int64 t" "\<not> listed d k"
    using assms(4) by (auto simp: hold_ok_def user_post_keys_def)
  with delete g assms(3) loose_store(3,4) [OF assms(5) k(2), of u] have "advanced U now req used p' d d' g e K NoKey e"
    by (auto simp: advanced_def others_def effect_def listed_upd hold_ok_def)
  then show ?thesis by blast
next
  case (append err v k f)
  from assms(2) consider
    (follow) u where "req = SReqSubscribe \<lparr>su_UserID = u, su_TargetUserID = v\<rparr>" "k = FormatSubListKey u" "u \<in> K" "v \<in> K"
      "\<not> e" "disc U (settled U req) now req (f err) K g (err = None)"
  | (list) u c where "req = SReqPost \<lparr>pt_UserID = u, pt_Contents = c\<rparr>" "k = FormatPostListKey u" "v = FormatPostKey u now"
      "u \<in> K" "g = Stored v c" "\<not> e" "disc U (settled U req) now req (f None) K NoKey True"
    unfolding append(1) by (cases err) auto
  then show ?thesis
  proof cases
    case follow
    then have "u \<in> kv_users d" "v \<in> kv_users d" using assms(3) by auto
    with follow append assms(3) loose_follow [OF assms(5)] hold_ok_keep [OF assms(4), of d'] kv_ops_refused(1) [of v d k]
    have "advanced U now req used p' d d' g e K g (err = None)"
      by (auto simp: advanced_def others_def effect_def listed_upd)
    then show ?thesis by blast
  next
    case list
    then have u: "u \<in> kv_users d" "d (FormatPostKey u now) = Some {c}" and "\<not> listed d v"
      using assms(3,4) by (auto simp: hold_ok_def)
    then have "err = None" using append list by (auto simp: listed_def)
    with u list append assms(3) loose_list [OF assms(5,8)] have "advanced U now req used p' d d' g e K NoKey True"
      by (auto simp: advanced_def others_def effect_def listed_upd hold_ok_def)
    then show ?thesis by blast
  qed
next
  case (remove err v k f)
  from assms(2) consider
    (unfollow) u where "req = SReqUnsubscribe \<lparr>su_UserID = u, su_TargetUserID = v\<rparr>" "k = FormatSubListKey u" "u \<in> K" "v \<in> K"
      "\<not> e" "disc U (settled U req) now req (f err) K g (err = None)"
  | (unlist) u where "req = SReqDeletePost \<lparr>dp_UserID = u, dp_PostKey = v\<rparr>" "k = FormatPostListKey u" "post_user v = u"
      "u \<in> K" "g = NoKey" "\<not> e" "disc U (settled U req) now req (f err) K (if err = None then Removed v else NoKey) (err = None)"
    unfolding remove(1) by (cases err) auto
  then show ?thesis
  proof cases
    case unfollow
    then have "u \<in> kv_users d" "v \<in> kv_users d" using assms(3) by auto
    with unfollow remove assms(3) loose_follow [OF assms(5)] hold_ok_keep [OF assms(4), of d'] kv_ops_refused(2) [of v d k]
    have "advanced U now req used p' d d' g e K g (err = None)"
      by (auto simp: advanced_def others_def effect_def listed_upd)
    then show ?thesis by blast
  next
    case unlist
    then have u: "u \<in> kv_users d" using assms(3) by auto
    note un = loose_unlist [OF assms(5) u unlist(3)]
    have held: "hold_ok d' used (if err = None then Removed v else NoKey)"
    proof (cases "err = None")
      case True
      then have v: "v \<in> items d (FormatPostListKey u)" using remove unlist by simp
      with assms(7) have "v \<in> used" by (auto simp: listed_def)
      moreover note loose_listed [OF assms(5) v]
      moreover have "\<not> listed d' v" using calculation(2) listed_post_key [OF un(1), of v u] unlist remove by simp
      ultimately show ?thesis using True remove unlist by (auto simp: hold_ok_def)
    qed (auto simp: hold_ok_def)
    have "listed d v" if "err = None" using that remove unlist by (auto simp: listed_def)
    moreover have "effect now req d d' e (err = None)"
      using unlist remove un(2) kv_ops_refused(2) [of v d k] by (auto simp: effect_def)
    ultimately have "advanced U now req used p' d d' g e K (if err = None then Removed v else NoKey) (err = None)"
      using held unlist remove assms(3) un(1) by (auto simp: advanced_def others_def dest: listed_upd(6))
    then show ?thesis by blast
  qed
qed

section \<open>The invariant of a pool\<close>

text \<open>Every request under way keeps the discipline, with the users it knows and the key it holds; \<open>D\<close> are the
  requests that have taken effect.  No two hold the same key; every key in a list has been used by a post.\<close>

definition thread_ok :: "string set \<Rightarrow> kv \<Rightarrow> string set \<Rightarrow> thread \<Rightarrow> string set \<Rightarrow> holding \<Rightarrow> bool \<Rightarrow> bool" where
  "thread_ok U d used t K g e = (case t of (h, now, req, p) \<Rightarrow>
     int64 now \<and> disc U (settled U req) now req p K g e \<and> K \<subseteq> kv_users d \<and> hold_ok d used g)"

definition apart :: "(nat \<rightharpoonup> thread) \<Rightarrow> (nat \<Rightarrow> holding) \<Rightarrow> bool" where
  "apart th g \<longleftrightarrow> (\<forall>i j k. i \<noteq> j \<and> th i \<noteq> None \<and> th j \<noteq> None \<and> held_key (g i) = Some k \<longrightarrow> held_key (g j) \<noteq> Some k)"

definition pool_inv :: "string set \<Rightarrow> kv \<Rightarrow> (nat \<rightharpoonup> thread) \<Rightarrow> string set \<Rightarrow> nat set \<Rightarrow> bool" where
  "pool_inv U d th used D \<longleftrightarrow> loose d \<and> U \<subseteq> kv_users d \<and> (\<forall>k. listed d k \<longrightarrow> k \<in> used) \<and>
     (\<exists>K g. (\<forall>i t. th i = Some t \<longrightarrow> thread_ok U d used t (K i) (g i) (i \<in> D)) \<and> apart th g)"

lemma pool_invI:
  assumes "loose d" and "U \<subseteq> kv_users d" and "\<And>k. listed d k \<Longrightarrow> k \<in> used" and "\<And>i t. th i = Some t \<Longrightarrow> thread_ok U d used t (K i) (g i) (i \<in> D)"
    and "apart th g"
  shows "pool_inv U d th used D"
  using assms unfolding pool_inv_def by blast

lemma pool_invE:
  assumes "pool_inv U d th used D"
  obtains K g where "loose d" and "U \<subseteq> kv_users d" and "\<And>k. listed d k \<Longrightarrow> k \<in> used"
    and "\<And>i t. th i = Some t \<Longrightarrow> thread_ok U d used t (K i) (g i) (i \<in> D)" and "apart th g"
  using assms unfolding pool_inv_def by blast

lemma apartD: "apart th g \<Longrightarrow> i \<noteq> j \<Longrightarrow> th i \<noteq> None \<Longrightarrow> th j \<noteq> None \<Longrightarrow> held_key (g i) = Some k \<Longrightarrow> held_key (g j) \<noteq> Some k"
  unfolding apart_def by blast

lemma hold_ok_others:
  assumes "hold_ok d used g'" and "others d d' g" and "\<And>k. held_key g' = Some k \<Longrightarrow> held_key g \<noteq> Some k"
  shows "hold_ok d' used g'"
  using assms unfolding hold_ok_def others_def by (metis held_key.simps(3,4))

lemma apart_upd:
  assumes "apart th g" and "\<And>j k. j \<noteq> i \<Longrightarrow> th j \<noteq> None \<Longrightarrow> held_key (g j) = Some k \<Longrightarrow> held_key g' \<noteq> Some k"
  shows "apart (th(i \<mapsto> t)) (g(i := g'))"
  unfolding apart_def
proof (intro allI impI)
  fix j l k assume a: "j \<noteq> l \<and> (th(i \<mapsto> t)) j \<noteq> None \<and> (th(i \<mapsto> t)) l \<noteq> None \<and> held_key ((g(i := g')) j) = Some k"
  show "held_key ((g(i := g')) l) \<noteq> Some k"
  proof (cases "j = i \<or> l = i")
    case True
    with a assms(2) [of j k] assms(2) [of l k] show ?thesis by auto
  next
    case False
    with a apartD [OF assms(1), of j l k] show ?thesis by auto
  qed
qed

lemma pool_inv_call:
  assumes "pool_inv U d th used D" and "th i = Some (h, now, req, p)" and "kv_step p d p' d'"
  obtains e' where "pool_inv U d' (th(i \<mapsto> (h, now, req, p'))) used (if e' then insert i D else D - {i})"
    and "effect now req d d' (i \<in> D) e'"
proof -
  obtain K g where inv: "loose d" "U \<subseteq> kv_users d" "\<And>k. listed d k \<Longrightarrow> k \<in> used"
    and th: "\<And>i t. th i = Some t \<Longrightarrow> thread_ok U d used t (K i) (g i) (i \<in> D)" and own: "apart th g"
    by (rule pool_invE [OF assms(1)]) (rule that; blast)
  from th [OF assms(2)] have i: "int64 now" "disc U (settled U req) now req p (K i) (g i) (i \<in> D)" "K i \<subseteq> kv_users d" "hold_ok d used (g i)"
    by (auto simp: thread_ok_def)
  obtain K' g' e' where "advanced U now req used p' d d' (g i) (i \<in> D) K' g' e'"
    using kv_step_advances [OF assms(3) i(2-4) inv i(1)] by blast
  then have a: "disc U (settled U req) now req p' K' g' e'" "K' \<subseteq> kv_users d'" "hold_ok d' used g'" "loose d'" "others d d' (g i)"
      "\<And>k. held_key g' = Some k \<Longrightarrow> held_key (g i) = Some k \<or> listed d k"
      "\<And>k. listed d' k \<Longrightarrow> listed d k \<or> held_key (g i) = Some k"
    and eff: "effect now req d d' (i \<in> D) e'"
    unfolding advanced_def by blast+
  have other: "thread_ok U d' used t (K j) (g j) (j \<in> D)" if "j \<noteq> i" "th j = Some t" for j t
  proof -
    have ok: "thread_ok U d used t (K j) (g j) (j \<in> D)" by (rule th [OF that(2)])
    have "hold_ok d' used (g j)"
      by (rule hold_ok_others [OF _ a(5)]) (use ok apartD [OF own that(1)] that assms(2) in \<open>auto simp: thread_ok_def\<close>)
    with ok a(5) show ?thesis by (auto simp: thread_ok_def others_def)
  qed
  have new: "held_key g' \<noteq> Some k" if "j \<noteq> i" "th j \<noteq> None" "held_key (g j) = Some k" for j k
  proof -
    from that(2) obtain t where "th j = Some t" by auto
    from th [OF this] that(3) have "\<not> listed d k" by (auto simp: thread_ok_def hold_ok_def)
    moreover have "held_key (g i) \<noteq> Some k" using apartD [OF own that(1,2) _ that(3)] assms(2) by simp
    ultimately show ?thesis using a(6) by blast
  qed
  have "pool_inv U d' (th(i \<mapsto> (h, now, req, p'))) used (if e' then insert i D else D - {i})"
  proof (rule pool_invI [where K = "K(i := K')" and g = "g(i := g')"])
    show "k \<in> used" if "listed d' k" for k
      using a(7) [OF that] inv(3) i(4) unfolding hold_ok_def by blast
    show "thread_ok U d' used t ((K(i := K')) j) ((g(i := g')) j) (j \<in> (if e' then insert i D else D - {i}))"
      if "(th(i \<mapsto> (h, now, req, p'))) j = Some t" for j t
      using that a(1-3) i(1) other [of j t] by (auto simp: thread_ok_def split: if_splits)
    show "apart (th(i \<mapsto> (h, now, req, p'))) (g(i := g'))" by (rule apart_upd [OF own new])
  qed (use a(4,5) inv(2) in \<open>auto simp: others_def\<close>)
  with eff show thesis by (rule that [rotated])
qed

lemma pool_inv_arrive:
  assumes "pool_inv U d th used D" and "i \<notin> D" and "stw_prog now srt req = Some p" and "go_sort srt" and "int64 now"
    and "set_option (post_key_of now req) \<inter> used = {}"
  shows "pool_inv U d (th(i \<mapsto> (h, now, req, p))) (set_option (post_key_of now req) \<union> used) D"
proof -
  obtain K g where inv: "loose d" "U \<subseteq> kv_users d" "\<And>k. listed d k \<Longrightarrow> k \<in> used"
    and th: "\<And>i t. th i = Some t \<Longrightarrow> thread_ok U d used t (K i) (g i) (i \<in> D)" and own: "apart th g"
    by (rule pool_invE [OF assms(1)]) (rule that; blast)
  let ?g = "case post_key_of now req of None \<Rightarrow> NoKey | Some k \<Rightarrow> Fresh k"
  let ?used = "set_option (post_key_of now req) \<union> used"
  have key: "\<exists>u. k \<in> user_post_keys u" if "post_key_of now req = Some k" for k
    using that assms(5) by (cases req) auto
  have hold: "hold_ok d ?used ?g"
    using key inv(3) assms(6) by (cases "post_key_of now req") (auto simp: hold_ok_def)
  have more: "hold_ok d used g' \<Longrightarrow> hold_ok d ?used g'" for g' unfolding hold_ok_def by auto
  show ?thesis
  proof (rule pool_invI [where K = "K(i := {})" and g = "g(i := ?g)"])
    show "thread_ok U d ?used t ((K(i := {})) j) ((g(i := ?g)) j) (j \<in> D)" if "(th(i \<mapsto> (h, now, req, p))) j = Some t" for j t
      using that hold disc_request [OF assms(3-5)] assms(2,5) th [of j t] more
      by (auto simp: thread_ok_def split: if_splits)
    show "apart (th(i \<mapsto> (h, now, req, p))) (g(i := ?g))"
    proof (rule apart_upd [OF own])
      fix j k assume "th j \<noteq> None" "held_key (g j) = Some k"
      then have "k \<in> used" using th [of j] by (auto simp: thread_ok_def hold_ok_def)
      then show "held_key ?g \<noteq> Some k" using assms(6) by (cases "post_key_of now req") auto
    qed
  qed (use inv in auto)
qed

lemma apart_drop: "apart th g \<Longrightarrow> apart (th(i := None)) g"
  unfolding apart_def by (metis fun_upd_apply)

lemma pool_inv_respond:
  assumes "pool_inv U d th used D"
  shows "pool_inv U d (th(i := None)) used D"
proof -
  obtain K g where "loose d" "U \<subseteq> kv_users d" "\<And>k. listed d k \<Longrightarrow> k \<in> used"
    "\<And>i t. th i = Some t \<Longrightarrow> thread_ok U d used t (K i) (g i) (i \<in> D)" "apart th g"
    by (rule pool_invE [OF assms]) (rule that; blast)
  then show ?thesis by (intro pool_invI [where K = K and g = g]) (auto simp: apart_drop split: if_splits)
qed

section \<open>Runs of a pool\<close>

text \<open>The invariant with the requests that have taken effect in order, \<open>log\<close>: carried out one after the other from
  the state \<open>tw\<close>, they give the abstract state.\<close>

definition pool_ok :: "('w \<Rightarrow> bool) \<Rightarrow> ('w \<Rightarrow> kv) \<Rightarrow> string set \<Rightarrow> twitter \<Rightarrow> nat list \<Rightarrow> 'w pool \<Rightarrow> bool" where
  "pool_ok winv data hosts tw log c \<longleftrightarrow> winv (pl_world c) \<and>
     pool_inv (users tw) (data (pl_world c)) (pl_threads c) (pl_used c) (set log) \<and> distinct log \<and>
     replay (pl_arrived c) log tw = Some (abs_tw (data (pl_world c))) \<and>
     (\<forall>i h now req p. pl_threads c i = Some (h, now, req, p) \<longrightarrow> h \<in> hosts \<and> pl_arrived c i = Some (now, req))"

lemma pool_okD:
  assumes "pool_ok winv data hosts tw log c"
  shows "winv (pl_world c)" and "pool_inv (users tw) (data (pl_world c)) (pl_threads c) (pl_used c) (set log)"
    and "distinct log" and "replay (pl_arrived c) log tw = Some (abs_tw (data (pl_world c)))"
    and "pl_threads c i = Some (h, now, req, p) \<Longrightarrow> h \<in> hosts"
    and "pl_threads c i = Some (h, now, req, p) \<Longrightarrow> pl_arrived c i = Some (now, req)"
  using assms unfolding pool_ok_def by blast+

lemma tw_update_users:
  "tw_update now req tw = Some tw' \<Longrightarrow> u \<in> users tw' \<Longrightarrow> u \<in> users tw \<or> req = SReqCreateUser \<lparr>cu_UserID = u\<rparr>"
  by (cases req) (auto simp: tw_defs split: if_splits)

text \<open>A user who is there and was not at the beginning has been created by a request.\<close>

lemma replay_users:
  "replay reqs is tw = Some tw' \<Longrightarrow> u \<in> users tw' \<Longrightarrow>
    u \<in> users tw \<or> (\<exists>j\<in>set is. \<exists>now. reqs j = Some (now, SReqCreateUser \<lparr>cu_UserID = u\<rparr>))"
proof (induction "is" arbitrary: tw)
  case (Cons i "is")
  then obtain now req tw1 where "reqs i = Some (now, req)" "tw_update now req tw = Some tw1" "replay reqs is tw1 = Some tw'"
    by (auto split: Option.bind_splits)
  with Cons.IH Cons.prems(2) tw_update_users [of now req tw tw1 u] show ?case by fastforce
qed simp

text \<open>A request with the number \<open>i\<close> that is answered with \<open>r\<close> has taken effect exactly when it is accepted, except
  that a \<open>CreateUser\<close> may be accepted because another one has taken effect.\<close>

definition answer_ok :: "(nat \<rightharpoonup> int \<times> stw_request) \<Rightarrow> twitter \<Rightarrow> nat list \<Rightarrow> nat \<Rightarrow> stw_request \<Rightarrow> go_error + stw_response \<Rightarrow> bool"
where
  "answer_ok reqs tw log i req r \<longleftrightarrow> (i \<in> set log \<longrightarrow> accepted r) \<and>
     (accepted r \<longrightarrow> i \<in> set log \<or>
       (\<exists>u. req = SReqCreateUser \<lparr>cu_UserID = u\<rparr> \<and> u \<notin> users tw \<and>
          (\<exists>j\<in>set log. \<exists>now. reqs j = Some (now, SReqCreateUser \<lparr>cu_UserID = u\<rparr>))))"

lemma pool_ok_answered:
  assumes "pool_ok winv data hosts tw log c" and "pl_threads c i = Some (h, now, req, PRet r)"
  shows "answer_ok (pl_arrived c) tw log i req r"
proof -
  note ok = pool_okD [OF assms(1)]
  obtain K g where "settled (users tw) req r K g (i \<in> set log)" "K \<subseteq> kv_users (data (pl_world c))"
    using pool_invE [OF ok(2)] assms(2) by (metis (no_types, lifting) disc.simps(1) thread_ok_def prod.case)
  moreover have "u \<in> users tw \<or> (\<exists>j\<in>set log. \<exists>now. pl_arrived c j = Some (now, SReqCreateUser \<lparr>cu_UserID = u\<rparr>))"
    if "u \<in> kv_users (data (pl_world c))" for u
    using that by (intro replay_users [OF ok(4)]) (simp add: abs_tw_def)
  ultimately show ?thesis unfolding settled_def answer_ok_def by blast
qed

text \<open>Requests in progress or still to come, as seen from an earlier state.\<close>

definition unanswered :: "'w pool \<Rightarrow> nat set" where
  "unanswered c = {i. pl_threads c i \<noteq> None \<or> pl_arrived c i = None}"

lemma pool_step_unanswered: "pool_step L hosts srt ok c c' \<Longrightarrow> unanswered c' \<subseteq> unanswered c"
  by (induction rule: pool_step.induct) (auto simp: unanswered_def split: if_splits)

lemma pool_reachable_unanswered: "pool_reachable L hosts srt ok c c' \<Longrightarrow> unanswered c' \<subseteq> unanswered c"
  by (induction rule: pool_reachable.induct) (use pool_step_unanswered in blast)+

lemma pool_step_arrived: "pool_step L hosts srt ok c c' \<Longrightarrow> pl_arrived c \<subseteq>\<^sub>m pl_arrived c'"
  by (induction rule: pool_step.induct) (auto simp: map_le_def)

lemma pool_reachable_arrived: "pool_reachable L hosts srt ok c c' \<Longrightarrow> pl_arrived c \<subseteq>\<^sub>m pl_arrived c'"
  by (induction rule: pool_reachable.induct) (auto intro: map_le_trans pool_step_arrived)

fun thread_req :: "thread \<Rightarrow> int \<times> stw_request" where
  "thread_req (h, now, req, p) = (now, req)"

definition two :: "'w \<Rightarrow> thread \<Rightarrow> thread \<Rightarrow> string set \<Rightarrow> 'w pool" where
  "two w t1 t2 used = \<lparr>pl_world = w, pl_threads = [0 \<mapsto> t1, 1 \<mapsto> t2], pl_used = used,
     pl_arrived = [0 \<mapsto> thread_req t1, 1 \<mapsto> thread_req t2]\<rparr>"

text \<open>App servers whose libstores keep one contract over one world.\<close>

locale libstore_pool =
  fixes L :: "string \<Rightarrow> 'w Libstore" and hosts :: "string set" and winv :: "'w \<Rightarrow> bool" and data :: "'w \<Rightarrow> kv"
    and idle :: "'w \<Rightarrow> string \<Rightarrow> bool"
  assumes contract: "h \<in> hosts \<Longrightarrow> libstore_contract (L h) winv data idle"
begin

lemma thread_step:
  assumes "pool_ok winv data hosts tw log c" and "pl_threads c i = Some (h, now, req, p)"
    and "may_call (appendable data idle) p (pl_world c)" and "\<nexists>r. p = PRet r"
  obtains p' w' where "prog_step (L h) p (pl_world c) = Some (Inr (p', w'))" and "winv w'"
    and "kv_step p (data (pl_world c)) p' (data w')"
proof -
  note w = pool_okD(1) [OF assms(1)] and inv = pool_okD(2) [OF assms(1)] and h = pool_okD(5) [OF assms(1,2)]
  obtain K g e where "thread_ok (users tw) (data (pl_world c)) (pl_used c) (h, now, req, p) K g e" "loose (data (pl_world c))"
    using assms(2) pool_invE [OF inv] by metis
  then have "kv_enabled p (data (pl_world c))" using disc_enabled assms(4) by (fastforce simp: thread_ok_def)
  from libstore_contract.prog_step_refines [OF contract [OF h] w assms(3) this] show thesis using that by blast
qed

lemma pool_arrive_ok:
  assumes "pool_ok winv data hosts tw log c" and "pl_arrived c i = None" and "h \<in> hosts" and "int64 now"
    and "stw_prog now srt req = Some p" and "set_option (post_key_of now req) \<inter> pl_used c = {}" and "go_sort srt"
  shows "pool_ok winv data hosts tw log
    (c\<lparr>pl_threads := (pl_threads c)(i \<mapsto> (h, now, req, p)), pl_used := set_option (post_key_of now req) \<union> pl_used c,
       pl_arrived := (pl_arrived c)(i \<mapsto> (now, req))\<rparr>)"
proof -
  note ok = pool_okD [OF assms(1)]
  have "i \<notin> set log" using replay_arrived [OF ok(4)] assms(2) by auto
  from pool_inv_arrive [OF ok(2) this assms(5,7,4,6)]
  have "pool_inv (users tw) (data (pl_world c)) ((pl_threads c)(i \<mapsto> (h, now, req, p))) (set_option (post_key_of now req) \<union> pl_used c) (set log)" .
  moreover have "pl_arrived c \<subseteq>\<^sub>m (pl_arrived c)(i \<mapsto> (now, req))" using assms(2) by (auto simp: map_le_def)
  note replay_mono [OF ok(4) this]
  ultimately show ?thesis using assms(1,3) ok(1,3) by (auto simp: pool_ok_def)
qed

lemma pool_call_ok:
  assumes "pool_ok winv data hosts tw log c" and "pl_threads c i = Some (h, now, req, p)" and "winv w'"
    and "kv_step p (data (pl_world c)) p' (data w')"
  shows "\<exists>new. set new \<subseteq> {i} \<and>
    pool_ok winv data hosts tw (log @ new) (c\<lparr>pl_world := w', pl_threads := (pl_threads c)(i \<mapsto> (h, now, req, p'))\<rparr>)"
proof -
  note ok = pool_okD [OF assms(1)]
  let ?th = "(pl_threads c)(i \<mapsto> (h, now, req, p'))"
  obtain e where inv: "pool_inv (users tw) (data w') ?th (pl_used c) (if e then insert i (set log) else set log - {i})"
    and eff: "effect now req (data (pl_world c)) (data w') (i \<in> set log) e"
    using pool_inv_call [OF ok(2) assms(2,4)] by blast
  define new where "new = (if e = (i \<in> set log) then [] else [i])"
  have "set (log @ new) = (if e then insert i (set log) else set log - {i})" "distinct (log @ new)"
    using eff ok(3) by (auto simp: new_def effect_def split: if_splits)
  moreover have "replay (pl_arrived c) (log @ new) tw = Some (abs_tw (data w'))"
    using eff ok(4) ok(6) [OF assms(2)] by (auto simp: new_def effect_def replay_append split: if_splits)
  ultimately show ?thesis
    using inv assms(1,3) ok(5,6) [OF assms(2)] by (intro exI [of _ new]) (auto simp: pool_ok_def new_def)
qed

lemma pool_step_ok:
  assumes "pool_step L hosts srt (appendable data idle) c c'" and "go_sort srt" and "pool_ok winv data hosts tw log c"
  shows "\<exists>new. set new \<subseteq> unanswered c \<and> pool_ok winv data hosts tw (log @ new) c'"
  using assms(1)
proof cases
  case (arrive i h now req p)
  with pool_arrive_ok [OF assms(3)] assms(2) show ?thesis by (intro exI [of _ "[]"]) simp
next
  case (call i h now req p p' w')
  then have "\<nexists>r. p = PRet r" by auto
  from thread_step [OF assms(3) call(2,3) this] call(4) have "winv w'" "kv_step p (data (pl_world c)) p' (data w')"
    by auto
  from pool_call_ok [OF assms(3) call(2) this] call(1) obtain new where
    "set new \<subseteq> {i}" "pool_ok winv data hosts tw (log @ new) c'" by blast
  moreover have "i \<in> unanswered c" using call(2) by (simp add: unanswered_def)
  ultimately show ?thesis by (intro exI [of _ new]) auto
next
  case (respond i h now req r)
  then have "pool_ok winv data hosts tw log c'"
    using assms(3) by (auto simp: pool_ok_def intro!: pool_inv_respond split: if_splits)
  then show ?thesis by (intro exI [of _ "[]"]) simp
qed

lemma pool_reachable_ok:
  assumes "pool_reachable L hosts srt (appendable data idle) c c'" and "go_sort srt" and "pool_ok winv data hosts tw log c"
  shows "\<exists>new. set new \<subseteq> unanswered c \<and> pool_ok winv data hosts tw (log @ new) c'"
  using assms(1)
proof (induction rule: pool_reachable.induct)
  case start
  show ?case using assms(3) by (intro exI [of _ "[]"]) simp
next
  case (step c' c'')
  then obtain new where new: "set new \<subseteq> unanswered c" "pool_ok winv data hosts tw (log @ new) c'" by blast
  from pool_step_ok [OF step.hyps(2) assms(2) new(2)] obtain more where
    "set more \<subseteq> unanswered c'" "pool_ok winv data hosts tw ((log @ new) @ more) c''" by blast
  with new pool_reachable_unanswered [OF step.hyps(1)] show ?case by (intro exI [of _ "new @ more"]) auto
qed

text \<open>Two requests side by side: either can make its next call.\<close>

lemma two_arrive:
  assumes "h \<in> hosts" and "int64 now" and "stw_prog now srt req1 = Some p1" and "stw_prog now srt req2 = Some p2"
    and "post_key_of now req1 = None" and "post_key_of now req2 = None"
  shows "pool_reachable L hosts srt (appendable data idle) \<lparr>pl_world = w, pl_threads = Map.empty, pl_used = used, pl_arrived = Map.empty\<rparr>
    (two w (h, now, req1, p1) (h, now, req2, p2) used)"
proof -
  let ?c = "\<lparr>pl_world = w, pl_threads = Map.empty, pl_used = used, pl_arrived = Map.empty\<rparr>"
  let ?c1 = "\<lparr>pl_world = w, pl_threads = [0 \<mapsto> (h, now, req1, p1)], pl_used = used, pl_arrived = [0 \<mapsto> (now, req1)]\<rparr>"
  have "pool_step L hosts srt (appendable data idle) ?c ?c1"
    using pool_step.arrive [of ?c 0, OF _ assms(1-3), where L = L and ok = "appendable data idle"] assms(5) by simp
  moreover have "pool_step L hosts srt (appendable data idle) ?c1 (two w (h, now, req1, p1) (h, now, req2, p2) used)"
    using pool_step.arrive [of ?c1 1, OF _ assms(1,2,4), where L = L and ok = "appendable data idle"] assms(6)
    by (simp add: two_def)
  ultimately show ?thesis by (blast intro: pool_reachable.intros)
qed

lemma two_call:
  assumes "go_sort srt" and "pool_ok winv data hosts tw log c" and "\<nexists>r. p = PRet r" and "\<And>w. may_call (appendable data idle) p w"
  shows "pool_reachable L hosts srt (appendable data idle) c (two w (h, now, req, p) t used) \<Longrightarrow>
      \<exists>p' w'. kv_step p (data w) p' (data w') \<and>
        pool_reachable L hosts srt (appendable data idle) c (two w' (h, now, req, p') t used)"
    and "pool_reachable L hosts srt (appendable data idle) c (two w t (h, now, req, p) used) \<Longrightarrow>
      \<exists>p' w'. kv_step p (data w) p' (data w') \<and>
        pool_reachable L hosts srt (appendable data idle) c (two w' t (h, now, req, p') used)"
proof -
  have step: "\<exists>p' w'. kv_step p (data w) p' (data w') \<and>
      pool_reachable L hosts srt (appendable data idle) c (d\<lparr>pl_world := w', pl_threads := (pl_threads d)(i \<mapsto> (h, now, req, p'))\<rparr>)"
    if d: "pool_reachable L hosts srt (appendable data idle) c d" "pl_threads d i = Some (h, now, req, p)" "pl_world d = w" for d i
  proof -
    obtain new where "pool_ok winv data hosts tw (log @ new) d" using pool_reachable_ok [OF d(1) assms(1,2)] by blast
    from thread_step [OF this d(2) assms(4,3)] obtain p' w' where
      "prog_step (L h) p (pl_world d) = Some (Inr (p', w'))" "kv_step p (data (pl_world d)) p' (data w')" by blast
    with pool_reachable.step [OF d(1) pool_step.call [OF d(2) assms(4)]] d(3) show ?thesis by blast
  qed
  show "\<exists>p' w'. kv_step p (data w) p' (data w') \<and>
      pool_reachable L hosts srt (appendable data idle) c (two w' (h, now, req, p') t used)"
    if "pool_reachable L hosts srt (appendable data idle) c (two w (h, now, req, p) t used)"
    using step [OF that, of 0] by (simp add: two_def fun_upd_twist)
  show "\<exists>p' w'. kv_step p (data w) p' (data w') \<and>
      pool_reachable L hosts srt (appendable data idle) c (two w' t (h, now, req, p') used)"
    if "pool_reachable L hosts srt (appendable data idle) c (two w t (h, now, req, p) used)"
    using step [OF that, of 1] by (simp add: two_def)
qed

end

inductive_cases kv_step_getE: "kv_step (PGet k f) d p' d'"
inductive_cases kv_step_get_listE: "kv_step (PGetList k f) d p' d'"
inductive_cases kv_step_putE: "kv_step (PPut k v f) d p' d'"
inductive_cases kv_step_deleteE: "kv_step (PDelete k f) d p' d'"
inductive_cases kv_step_removeE: "kv_step (PRemove k v f) d p' d'"

end
