(* ===== verification/Interleave_Props.thy ===== *)
theory Interleave_Props
  imports Stw_Interleave Stw_Props
begin

text \<open>
  The properties of requests that run concurrently on the app servers at \<open>hosts\<close>, over a cluster of storage
  servers with ring \<open>R\<close> and addresses \<open>N\<close>.
\<close>

section \<open>Concurrent requests over a cluster\<close>

interpretation deployed: libstore_pool "cluster_Libstore es" hosts "store_inv R N T es hosts" "store_kv R N" store_idle
  for es hosts R N T
proof (rule libstore_pool.intro)
  fix h assume "h \<in> hosts"
  then have "insert h hosts = hosts" by blast
  then show "libstore_contract (cluster_Libstore es h) (store_inv R N T es hosts) (store_kv R N) store_idle"
    using store.libstore_contract_axioms [of es h R N T hosts] by simp
qed

text \<open>An idle deployment: the data represents \<open>tw\<close>, in which only users follow, are followed and post; \<open>used\<close> are
  post keys that may not be used again, those of \<open>tw\<close> among them.\<close>

definition tw_wf :: "twitter \<Rightarrow> bool" where
  "tw_wf tw \<longleftrightarrow> follows tw \<subseteq> users tw \<times> users tw \<and> (\<forall>u t. posts tw u t \<noteq> None \<longrightarrow> u \<in> users tw)"

definition idle_pool :: "world \<Rightarrow> string set \<Rightarrow> world pool" where
  "idle_pool w used = \<lparr>pl_world = w, pl_threads = Map.empty, pl_used = used, pl_arrived = Map.empty\<rparr>"

definition deployment :: "u32 list \<Rightarrow> addresses \<Rightarrow> int \<Rightarrow> (nat \<Rightarrow> cl_env) \<Rightarrow> string set \<Rightarrow> twitter \<Rightarrow> world \<Rightarrow> string set \<Rightarrow> bool" where
  "deployment R N T es hosts tw w used \<longleftrightarrow>
     reached (store_inv R N T es hosts) (store_kv R N) tw w \<and> tw_wf tw \<and> (\<forall>u. post_keys tw u \<subseteq> used)"

lemma represents_loose:
  assumes "represents d tw" and "tw_wf tw"
  shows "loose d"
proof -
  have users: "kv_users d = users tw" using assms(1) by (auto simp: kv_users_def represents_def)
  have "\<exists>c. S = {c}" if "k \<in> user_post_keys u" "d k = Some S" for u k S
    using that assms(1) by (auto simp: user_post_keys_def represents_def)
  moreover have "k \<in> user_post_keys u \<and> d k \<noteq> None \<and> u \<in> users tw" if "k \<in> items d (FormatPostListKey u)" for u k
  proof -
    from that obtain t c where t: "k = FormatPostKey u t" "posts tw u t = Some c"
      using representsD(4) [OF assms(1)] by (auto simp: post_keys_def)
    with representsD(5,6) [OF assms(1) t(2)] assms(2) show ?thesis by (auto simp: user_post_keys_def tw_wf_def)
  qed
  moreover have "u \<in> users tw \<and> v \<in> users tw" if "v \<in> items d (FormatSubListKey u)" for u v
    using that representsD(3) [OF assms(1)] assms(2) by (auto simp: tw_wf_def)
  ultimately show ?thesis using representsD(1) [OF assms(1)] unfolding loose_def users by blast
qed

lemma deployment_ok:
  assumes "deployment R N T es hosts tw w used"
  shows "pool_ok (store_inv R N T es hosts) (store_kv R N) hosts tw [] (idle_pool w used)"
proof -
  have rep: "represents (store_kv R N w) tw" and "tw_wf tw" using assms by (auto simp: deployment_def reached_def)
  then have l: "loose (store_kv R N w)" by (rule represents_loose)
  have "k \<in> used" if "listed (store_kv R N w) k" for k
    using that assms representsD(4) [OF rep] by (auto simp: listed_def deployment_def)
  moreover have "users tw \<subseteq> kv_users (store_kv R N w)" using representsD(1) [OF rep] by (auto simp: kv_users_def)
  ultimately have "pool_inv (users tw) (store_kv R N w) Map.empty used {}"
    by (intro pool_invI [OF l, where g = "\<lambda>_. NoKey"]) (auto simp: apart_def)
  with assms represents_abs [OF rep] show ?thesis by (simp add: pool_ok_def idle_pool_def deployment_def reached_def)
qed

text \<open>C3: in the interleavings of requests to the app servers that are covered, which are those in which no two posts
  of a user read the same nanosecond (\<open>pl_used\<close>), no call appends to an empty list that an app server has leased
  (\<open>may_call\<close>), every call of the libstore is atomic and the clocks stay within one lease's life of the leases
  (\<open>deployment\<close>): a key in the list of a user's posts is the key of a post of that user and has contents
  (\<open>Post\<close> stores before it lists, \<open>DeletePost\<close> takes off the list before it deletes), follows relate existing users,
  and the next call of every request under way returns, unless it is an append to an empty leased list, which is not
  covered; no handler crashes.  Two posts of a user at one nanosecond share a key, and the deletion of one may then
  leave the other listed without contents.\<close>

theorem concurrent_requests_safe:
  assumes "deployment R N T es hosts tw w used" and "go_sort srt"
    and "pool_reachable (cluster_Libstore es) hosts srt (may_append R N) (idle_pool w used) c"
  shows "(k \<in> items (store_kv R N (pl_world c)) (FormatPostListKey u) \<longrightarrow>
      u \<in> kv_users (store_kv R N (pl_world c)) \<and>
      (\<exists>t v. int64 t \<and> k = FormatPostKey u t \<and> store_kv R N (pl_world c) k = Some {v})) \<and>
    (v \<in> items (store_kv R N (pl_world c)) (FormatSubListKey u) \<longrightarrow> {u, v} \<subseteq> kv_users (store_kv R N (pl_world c))) \<and>
    (pl_threads c i = Some (h, now, req, p) \<and> may_call (may_append R N) p (pl_world c) \<longrightarrow>
      (\<exists>r. p = PRet r) \<or> (\<exists>p' w'. prog_step (cluster_Libstore es h) p (pl_world c) = Some (Inr (p', w'))))"
proof -
  have may: "may_append R N = appendable (store_kv R N) store_idle" by (auto simp: may_append_def fun_eq_iff)
  obtain log where ok: "pool_ok (store_inv R N T es hosts) (store_kv R N) hosts tw log c"
    using deployed.pool_reachable_ok [OF assms(3) [unfolded may] assms(2) deployment_ok [OF assms(1)]] by auto
  then have l: "loose (store_kv R N (pl_world c))" using pool_okD(2) pool_inv_def by blast
  show ?thesis
  proof (intro conjI impI)
    assume k: "k \<in> items (store_kv R N (pl_world c)) (FormatPostListKey u)"
    from loose_listed [OF l k] show "u \<in> kv_users (store_kv R N (pl_world c))" by blast
    from loose_listed [OF l k] l show "\<exists>t v. int64 t \<and> k = FormatPostKey u t \<and> store_kv R N (pl_world c) k = Some {v}"
      unfolding loose_def by (auto simp: user_post_keys_def)
  next
    assume "v \<in> items (store_kv R N (pl_world c)) (FormatSubListKey u)"
    with l show "{u, v} \<subseteq> kv_users (store_kv R N (pl_world c))" unfolding loose_def by blast
  next
    assume "pl_threads c i = Some (h, now, req, p) \<and> may_call (may_append R N) p (pl_world c)"
    then show "(\<exists>r. p = PRet r) \<or> (\<exists>p' w'. prog_step (cluster_Libstore es h) p (pl_world c) = Some (Inr (p', w')))"
      using deployed.thread_step [OF ok] unfolding may by blast
  qed
qed

definition demo_used :: "string set" where
  "demo_used = {FormatPostKey ''bob'' 1, FormatPostKey ''bob'' 2}"

lemma demo_deployment: "deployment demo_ring demo_addresses 100 demo_clock {''a:1''} demo_tw demo_world demo_used"
proof -
  have "post_keys demo_tw u \<subseteq> demo_used" for u by (auto simp: post_keys_def demo_tw_def demo_used_def split: if_splits)
  moreover have "tw_wf demo_tw" by (auto simp: tw_wf_def demo_tw_def split: if_splits)
  ultimately show ?thesis using demo_serves by (simp add: deployment_def serves_def)
qed

abbreviation demo_pool :: "world pool" where
  "demo_pool \<equiv> idle_pool demo_world demo_used"

abbreviation demo_reach :: "world pool \<Rightarrow> bool" where
  "demo_reach \<equiv> pool_reachable (cluster_Libstore demo_clock) {''a:1''} insertionSort (may_append demo_ring demo_addresses) demo_pool"

definition alice_post :: thread where
  "alice_post = (''a:1'', 100, SReqPost \<lparr>pt_UserID = ''alice'', pt_Contents = ''hi''\<rparr>,
     respond_with SRespPost (Post_prog 100 \<lparr>pt_UserID = ''alice'', pt_Contents = ''hi''\<rparr>))"

lemma alice_posts:
  "pool_step (cluster_Libstore demo_clock) {''a:1''} insertionSort (may_append demo_ring demo_addresses) demo_pool
    (demo_pool\<lparr>pl_threads := [1 \<mapsto> alice_post], pl_used := insert (FormatPostKey ''alice'' 100) demo_used,
      pl_arrived := [1 \<mapsto> thread_req alice_post]\<rparr>)"
proof -
  have "set_option (post_key_of 100 (SReqPost \<lparr>pt_UserID = ''alice'', pt_Contents = ''hi''\<rparr>)) \<inter> pl_used demo_pool = {}"
    by (auto simp: idle_pool_def demo_used_def FormatPostKey_inj)
  from pool_step.arrive [where c = demo_pool and i = 1 and h = "''a:1''" and hosts = "{''a:1''}" and srt = insertionSort,
      OF _ _ _ _ this, where L = "cluster_Libstore demo_clock" and ok = "may_append demo_ring demo_addresses"]
  show ?thesis by (simp add: alice_post_def idle_pool_def)
qed

theorem concurrent_requests_safe_witness:
  "\<exists>c. demo_reach c \<and> pl_threads c 1 = Some alice_post \<and>
    (\<exists>p' w'. prog_step (cluster_Libstore demo_clock ''a:1'') (snd (snd (snd alice_post))) (pl_world c) = Some (Inr (p', w')))"
proof -
  let ?c = "demo_pool\<lparr>pl_threads := [1 \<mapsto> alice_post], pl_used := insert (FormatPostKey ''alice'' 100) demo_used,
    pl_arrived := [1 \<mapsto> thread_req alice_post]\<rparr>"
  have run: "demo_reach ?c" by (rule pool_reachable.step [OF pool_reachable.start alice_posts])
  have call: "\<nexists>r. snd (snd (snd alice_post)) = PRet r" "may_call ok (snd (snd (snd alice_post))) w" for ok and w :: world
    by (simp_all add: alice_post_def respond_with_def Post_prog_def may_call_def)
  have "pl_threads ?c 1 = Some (''a:1'', 100, SReqPost \<lparr>pt_UserID = ''alice'', pt_Contents = ''hi''\<rparr>, snd (snd (snd alice_post)))"
    by (simp add: alice_post_def)
  with concurrent_requests_safe [OF demo_deployment insertion.go_sort_axioms run, where i = 1] call
  have "\<exists>p' w'. prog_step (cluster_Libstore demo_clock ''a:1'') (snd (snd (snd alice_post))) (pl_world ?c) = Some (Inr (p', w'))"
    by blast
  with run show ?thesis by (intro exI [of _ ?c]) simp
qed

section \<open>Two requests that create one user\<close>

text \<open>Single calls of the requests below; none of them appends, so that every call is covered.\<close>

definition created :: "string \<Rightarrow> int \<Rightarrow> string \<Rightarrow> thread" where
  "created h now u = (h, now, SReqCreateUser \<lparr>cu_UserID = u\<rparr>, PRet (Inr (SRespCreateUser \<lparr>cur_Status = StwOK\<rparr>)))"

lemma create_calls:
  fixes d :: kv and u :: string
  defines "put \<equiv> PPut (FormatUserKey u) [] (\<lambda>_. PRet (Inr (SRespCreateUser \<lparr>cur_Status = StwOK\<rparr>)))"
  shows "kv_step (respond_with SRespCreateUser (CreateUser_prog \<lparr>cu_UserID = u\<rparr>)) d p' d' \<Longrightarrow> d (FormatUserKey u) = None \<Longrightarrow> p' = put \<and> d' = d"
    and "kv_step put d p' d' \<Longrightarrow> p' = PRet (Inr (SRespCreateUser \<lparr>cur_Status = StwOK\<rparr>))"
  unfolding put_def by (auto simp: respond_with_def CreateUser_prog_def Let_def elim!: kv_step_getE kv_step_putE)

lemma created_twice:
  assumes "deployment R N T es hosts tw w used" and "go_sort srt" and "h \<in> hosts" and "int64 now" and "u \<notin> users tw"
  shows "\<exists>w'. pool_reachable (cluster_Libstore es) hosts srt (appendable (store_kv R N) store_idle) (idle_pool w used)
    (two w' (created h now u) (created h now u) used)"
proof -
  let ?req = "SReqCreateUser \<lparr>cu_UserID = u\<rparr>" and ?get = "respond_with SRespCreateUser (CreateUser_prog \<lparr>cu_UserID = u\<rparr>)"
  let ?put = "PPut (FormatUserKey u) [] (\<lambda>_. PRet (Inr (SRespCreateUser \<lparr>cur_Status = StwOK\<rparr>)))"
  let ?reach = "pool_reachable (cluster_Libstore es) hosts srt (appendable (store_kv R N) store_idle) (idle_pool w used)"
  note call = deployed.two_call [OF assms(2) deployment_ok [OF assms(1)]]
  have get: "\<nexists>r. ?get = PRet r" "may_call ok ?get v" and put: "\<nexists>r. ?put = PRet r" "may_call ok ?put v"
    for ok and v :: world
    by (simp_all add: may_call_def respond_with_def CreateUser_prog_def Let_def)
  have absent: "store_kv R N w (FormatUserKey u) = None"
    using assms(1,5) representsD(2) by (auto simp: deployment_def reached_def)
  have "?reach (two w (h, now, ?req, ?get) (h, now, ?req, ?get) used)"
    unfolding idle_pool_def by (rule deployed.two_arrive) (use assms in auto)
  from call(1) [OF get this] create_calls(1) absent obtain w1 where
    "?reach (two w1 (h, now, ?req, ?put) (h, now, ?req, ?get) used)" "store_kv R N w1 = store_kv R N w" by metis
  from call(2) [OF get this(1)] create_calls(1) absent this(2) obtain w2 where
    "?reach (two w2 (h, now, ?req, ?put) (h, now, ?req, ?put) used)" by metis
  from call(1) [OF put this] create_calls(2) obtain w3 where "?reach (two w3 (created h now u) (h, now, ?req, ?put) used)"
    unfolding created_def by metis
  from call(2) [OF put this] create_calls(2) show ?thesis unfolding created_def by metis
qed

section \<open>Concurrent updates are linearizable\<close>

text \<open>C2: in the covered interleavings (as in C3: atomic calls of the libstore, no two posts of a user at one
  nanosecond, no append to an empty leased list, clocks within one lease's life) updates are linearizable, up to one race.
  Take as abstract state the users, who follows whom and the posts that are listed.
  Then in every reachable state there is an order \<open>log\<close> of the requests that have taken effect, each at most
  once, that leads from the initial state to the present one when the requests are carried out one after the other and each
  is accepted by the specification; for \<open>CreateUser\<close> this means that the user is not there yet.  A request in it is
  answered \<open>OK\<close>, and a request that is answered \<open>OK\<close> is in it, except for a \<open>CreateUser\<close> of a user that another
  \<open>CreateUser\<close> in the order has created, who was not there at the beginning (the race of C33): that one, like all
  that are refused, leaves no trace.  Later states extend
  the order by requests that were not answered yet, so a request that is answered before another arrives precedes it.\<close>

theorem concurrent_updates_linearize:
  assumes "deployment R N T es hosts tw w used" and "go_sort srt"
    and "pool_reachable (cluster_Libstore es) hosts srt (may_append R N) (idle_pool w used) c"
    and "pool_reachable (cluster_Libstore es) hosts srt (may_append R N) c c'"
  shows "\<exists>log new. distinct (log @ new) \<and> set new \<subseteq> unanswered c \<and>
    replay (pl_arrived c) log tw = Some (abs_tw (store_kv R N (pl_world c))) \<and>
    replay (pl_arrived c') (log @ new) tw = Some (abs_tw (store_kv R N (pl_world c'))) \<and>
    (\<forall>i h now req r. pl_threads c i = Some (h, now, req, PRet r) \<longrightarrow> answer_ok (pl_arrived c) tw log i req r) \<and>
    (\<forall>i h now req r. pl_threads c' i = Some (h, now, req, PRet r) \<longrightarrow> answer_ok (pl_arrived c') tw (log @ new) i req r)"
proof -
  have may: "may_append R N = appendable (store_kv R N) store_idle" by (auto simp: may_append_def fun_eq_iff)
  let ?ok = "pool_ok (store_inv R N T es hosts) (store_kv R N) hosts tw"
  obtain log where log: "?ok log c"
    using deployed.pool_reachable_ok [OF assms(3) [unfolded may] assms(2) deployment_ok [OF assms(1)]] by auto
  obtain new where new: "set new \<subseteq> unanswered c" "?ok (log @ new) c'"
    using deployed.pool_reachable_ok [OF assms(4) [unfolded may] assms(2) log] by blast
  show ?thesis
    using new(1) pool_okD(4) [OF log] pool_okD(3,4) [OF new(2)] pool_ok_answered [OF log] pool_ok_answered [OF new(2)] by blast
qed

lemma distinct_of_two:
  assumes "distinct xs" and "set xs \<subseteq> {a, b}" and "xs \<noteq> []"
  shows "xs \<in> {[a], [b], [a, b], [b, a]}"
proof -
  obtain x ys where x: "xs = x # ys" using assms(3) by (cases xs) auto
  then show ?thesis using assms(1,2) by (cases ys; cases "tl ys") auto
qed

text \<open>Two requests create one user, both are answered \<open>OK\<close>, and exactly one of them is in the order.\<close>

theorem concurrent_updates_linearize_witness:
  "\<exists>c log. demo_reach c \<and> pl_threads c = [0 \<mapsto> created ''a:1'' 100 ''carol'', 1 \<mapsto> created ''a:1'' 100 ''carol''] \<and>
    log \<in> {[0], [1]} \<and>
    replay (pl_arrived c) log demo_tw = Some (abs_tw (store_kv demo_ring demo_addresses (pl_world c)))"
proof -
  have may: "may_append demo_ring demo_addresses = appendable (store_kv demo_ring demo_addresses) store_idle"
    by (auto simp: may_append_def fun_eq_iff)
  have carol: "''carol'' \<notin> users demo_tw" by (simp add: demo_tw_def)
  then obtain w where run: "demo_reach (two w (created ''a:1'' 100 ''carol'') (created ''a:1'' 100 ''carol'') demo_used)"
    using created_twice [OF demo_deployment insertion.go_sort_axioms, of "''a:1''" 100 "''carol''"] unfolding may by auto
  let ?c = "two w (created ''a:1'' 100 ''carol'') (created ''a:1'' 100 ''carol'') demo_used"
  from concurrent_updates_linearize [OF demo_deployment insertion.go_sort_axioms run pool_reachable.start] obtain log where
    log: "distinct log" "replay (pl_arrived ?c) log demo_tw = Some (abs_tw (store_kv demo_ring demo_addresses (pl_world ?c)))"
    and ends: "\<And>i h now req r. pl_threads ?c i = Some (h, now, req, PRet r) \<Longrightarrow> answer_ok (pl_arrived ?c) demo_tw log i req r"
    by auto
  have "log \<noteq> []" using ends [of 0] by (auto simp: two_def created_def answer_ok_def)
  moreover have "set log \<subseteq> {0, 1}" using replay_arrived [OF log(2)] by (auto simp: two_def)
  ultimately have "log \<in> {[0], [1], [0, 1], [1, 0]}" using distinct_of_two log(1) by metis
  moreover have "replay (pl_arrived ?c) [0, 1] demo_tw = None" "replay (pl_arrived ?c) [1, 0] demo_tw = None"
    using carol by (simp_all add: two_def created_def tw_create_def)
  ultimately have "log \<in> {[0], [1]}" using log(2) by auto
  moreover have "pl_threads ?c = [0 \<mapsto> created ''a:1'' 100 ''carol'', 1 \<mapsto> created ''a:1'' 100 ''carol'']" by (simp add: two_def)
  ultimately show ?thesis using run log(2) by blast
qed

section \<open>Races\<close>

text \<open>What is left of a \<open>Timeline\<close> before it reads the list and after, and of a \<open>DeletePost\<close> before each write.\<close>

definition tl_list :: "sort_fun \<Rightarrow> string \<Rightarrow> (go_error + stw_response) prog" where
  "tl_list srt u = answer_timeline (PGetList (FormatPostListKey u) (\<lambda>r. case r of
     Inl _ \<Rightarrow> PRet (Inr (zero_TimelineReply\<lparr>tlr_Status := StwOK\<rparr>))
   | Inr postlist \<Rightarrow> prog_bind (timeline_prog 100 (srt ByRevChronological_Less postlist) []) timeline_reply))"

definition tl_posts :: "string list \<Rightarrow> (go_error + stw_response) prog" where
  "tl_posts keys = answer_timeline (prog_bind (timeline_prog 100 keys []) timeline_reply)"

definition del_delete :: "string \<Rightarrow> (go_error + stw_response) prog" where
  "del_delete key = respond_with SRespDeletePost (PDelete key (\<lambda>err2. PRet \<lparr>dpr_Status = (if err2 \<noteq> None then NoSuchPost else StwOK)\<rparr>))"

definition del_remove :: "string \<Rightarrow> string \<Rightarrow> (go_error + stw_response) prog" where
  "del_remove u key = respond_with SRespDeletePost (PRemove (FormatPostListKey u) key (\<lambda>err1.
     if err1 \<noteq> None then PRet \<lparr>dpr_Status = NoSuchPost\<rparr>
     else PDelete key (\<lambda>err2. PRet \<lparr>dpr_Status = (if err2 \<noteq> None then NoSuchPost else StwOK)\<rparr>)))"

lemma timeline_calls:
  "kv_step (answer_timeline (Timeline_prog srt \<lparr>tl_UserID = u\<rparr>)) d p' d' \<Longrightarrow> d (FormatUserKey u) = Some {[]} \<Longrightarrow>
    p' = tl_list srt u \<and> d' = d"
  "kv_step (tl_list srt u) d p' d' \<Longrightarrow> d (FormatPostListKey u) = Some S \<Longrightarrow>
    p' = tl_posts (srt ByRevChronological_Less (sorted_list_of_set S)) \<and> d' = d"
  "kv_step (tl_posts (k # keys)) d p' d' \<Longrightarrow> d k = None \<Longrightarrow> \<exists>e. p' = PRet (Inl e)"
  by (auto simp: answer_timeline_def Timeline_prog_def tl_list_def tl_posts_def timeline_reply_def
      fun_eq_iff split: sum.splits elim!: kv_step_getE kv_step_get_listE)

lemma delete_calls:
  "kv_step (respond_with SRespDeletePost (DeletePost_prog \<lparr>dp_UserID = u, dp_PostKey = key\<rparr>)) d p' d' \<Longrightarrow>
    d (FormatUserKey u) = Some {[]} \<Longrightarrow> parse_post key = (u, t, None) \<Longrightarrow> p' = del_remove u key \<and> d' = d"
  "kv_step (del_remove u key) d p' d' \<Longrightarrow> key \<in> items d (FormatPostListKey u) \<Longrightarrow>
    p' = del_delete key \<and> d' = snd (kv_remove (FormatPostListKey u) key d)"
  "kv_step (del_delete key) d p' d' \<Longrightarrow> p' = PRet (Inr (SRespDeletePost \<lparr>dpr_Status = StwOK\<rparr>)) \<and> d' = d(key := None)"
  by (auto simp: respond_with_def DeletePost_prog_def del_remove_def del_delete_def locally_def ParsePostKey_total
      fun_eq_iff elim!: kv_step_getE kv_step_removeE kv_step_deleteE)

lemma timeline_fails:
  assumes "deployment R N T es hosts tw w used" and "go_sort srt" and "h \<in> hosts" and "int64 now" and "u \<in> users tw"
    and "posts tw u \<noteq> Map.empty" and "CHR '':'' \<notin> set u"
  shows "\<exists>w' err key. pool_reachable (cluster_Libstore es) hosts srt (appendable (store_kv R N) store_idle) (idle_pool w used)
    (two w' (h, now, SReqTimeline \<lparr>tl_UserID = u\<rparr>, PRet (Inl err))
       (h, now, SReqDeletePost \<lparr>dp_UserID = u, dp_PostKey = key\<rparr>, PRet (Inr (SRespDeletePost \<lparr>dpr_Status = StwOK\<rparr>))) used)"
proof -
  let ?reach = "pool_reachable (cluster_Libstore es) hosts srt (appendable (store_kv R N) store_idle) (idle_pool w used)"
  let ?d = "store_kv R N w" and ?lk = "FormatPostListKey u"
  note call = deployed.two_call [OF assms(2) deployment_ok [OF assms(1)]]
  have rep: "represents ?d tw" and inv: "store_inv R N T es hosts w" using assms(1) by (auto simp: deployment_def reached_def)
  have "post_keys tw u \<noteq> {}" using assms(6) by (auto simp: post_keys_def)
  then have S: "?d ?lk = Some (post_keys tw u)" using representsD(4) [OF rep, of u] by (auto simp: items_def split: option.splits)
  then have fin: "finite (post_keys tw u)"
    using libstore_contract.finite_data [OF deployed.contract [OF assms(3)] inv] by blast
  define keys where "keys = srt ByRevChronological_Less (sorted_list_of_set (post_keys tw u))"
  have set: "set keys = post_keys tw u" using go_sort.set_srt [OF assms(2)] fin by (simp add: keys_def)
  then obtain k rest where k: "keys = k # rest" using \<open>post_keys tw u \<noteq> {}\<close> by (cases keys) auto
  then have "k \<in> post_keys tw u" using set by auto
  then obtain t where t: "k = FormatPostKey u t" "int64 t" using representsD(6) [OF rep] by (auto simp: post_keys_def)
  have user: "?d (FormatUserKey u) = Some {[]}" using representsD(1) [OF rep assms(5)] .
  let ?tl = "SReqTimeline \<lparr>tl_UserID = u\<rparr>" and ?del = "SReqDeletePost \<lparr>dp_UserID = u, dp_PostKey = k\<rparr>"
  let ?tA = "answer_timeline (Timeline_prog srt \<lparr>tl_UserID = u\<rparr>)"
  let ?dA = "respond_with SRespDeletePost (DeletePost_prog \<lparr>dp_UserID = u, dp_PostKey = k\<rparr>)"
  let ?dZ = "PRet (Inr (SRespDeletePost \<lparr>dpr_Status = StwOK\<rparr>)) :: (go_error + stw_response) prog"
  have next1: "\<nexists>r. ?tA = PRet r" "\<nexists>r. tl_list srt u = PRet r" "\<nexists>r. tl_posts (k # rest) = PRet r"
    "\<nexists>r. ?dA = PRet r" "\<nexists>r. del_remove u k = PRet r" "\<nexists>r. del_delete k = PRet r"
    by (simp_all add: answer_timeline_def Timeline_prog_def tl_list_def tl_posts_def respond_with_def DeletePost_prog_def
        del_remove_def del_delete_def)
  have may: "may_call ok ?tA v" "may_call ok (tl_list srt u) v" "may_call ok (tl_posts (k # rest)) v"
    "may_call ok ?dA v" "may_call ok (del_remove u k) v" "may_call ok (del_delete k) v" for ok and v :: world
    by (simp_all add: may_call_def answer_timeline_def Timeline_prog_def tl_list_def tl_posts_def respond_with_def DeletePost_prog_def
        del_remove_def del_delete_def)
  have "?reach (two w (h, now, ?tl, ?tA) (h, now, ?del, ?dA) used)"
    unfolding idle_pool_def by (rule deployed.two_arrive) (use assms in auto)
  from call(1) [OF next1(1) may(1) this] timeline_calls(1) user obtain w1 where
    1: "?reach (two w1 (h, now, ?tl, tl_list srt u) (h, now, ?del, ?dA) used)" "store_kv R N w1 = ?d" by metis
  from call(1) [OF next1(2) may(2) 1(1)] timeline_calls(2) S 1(2) keys_def k obtain w2 where
    2: "?reach (two w2 (h, now, ?tl, tl_posts (k # rest)) (h, now, ?del, ?dA) used)" "store_kv R N w2 = ?d" by metis
  from call(2) [OF next1(4) may(4) 2(1)] delete_calls(1) parse_post_Format [OF assms(7) t(2)] t(1) user 2(2) obtain w3 where
    3: "?reach (two w3 (h, now, ?tl, tl_posts (k # rest)) (h, now, ?del, del_remove u k) used)" "store_kv R N w3 = ?d" by metis
  have "k \<in> items ?d ?lk" using set k representsD(4) [OF rep] by auto
  with call(2) [OF next1(5) may(5) 3(1)] delete_calls(2) 3(2) obtain w4 where
    4: "?reach (two w4 (h, now, ?tl, tl_posts (k # rest)) (h, now, ?del, del_delete k) used)" by metis
  from call(2) [OF next1(6) may(6) 4] delete_calls(3) obtain w5 d where
    5: "?reach (two w5 (h, now, ?tl, tl_posts (k # rest)) (h, now, ?del, ?dZ) used)" "store_kv R N w5 = d(k := None)" by metis
  then have "store_kv R N w5 k = None" by simp
  from call(1) [OF next1(3) may(3) 5(1)] timeline_calls(3) this show ?thesis by metis
qed

text \<open>C33: two requests that look before they act can cross, in every deployment.  Two concurrent \<open>CreateUser\<close> of one new
  user can both be answered \<open>OK\<close>.  A \<open>Timeline\<close> of a user with posts fails with an error, instead of leaving the
  post out, when the newest post is deleted after the list was read.\<close>

theorem check_then_act_races:
  assumes "deployment R N T es hosts tw w used" and "go_sort srt" and "h \<in> hosts" and "int64 now"
  shows "(u \<notin> users tw \<longrightarrow>
      (\<exists>w'. pool_reachable (cluster_Libstore es) hosts srt (may_append R N) (idle_pool w used)
        (two w' (created h now u) (created h now u) used))) \<and>
    (u \<in> users tw \<and> posts tw u \<noteq> Map.empty \<and> CHR '':'' \<notin> set u \<longrightarrow>
      (\<exists>w' err key. pool_reachable (cluster_Libstore es) hosts srt (may_append R N) (idle_pool w used)
        (two w' (h, now, SReqTimeline \<lparr>tl_UserID = u\<rparr>, PRet (Inl err))
          (h, now, SReqDeletePost \<lparr>dp_UserID = u, dp_PostKey = key\<rparr>, PRet (Inr (SRespDeletePost \<lparr>dpr_Status = StwOK\<rparr>))) used)))"
proof -
  have may: "may_append R N = appendable (store_kv R N) store_idle" by (auto simp: may_append_def fun_eq_iff)
  show ?thesis unfolding may using created_twice [OF assms] timeline_fails [OF assms] by blast
qed

theorem check_then_act_races_witness:
  "(\<exists>w'. demo_reach (two w' (created ''a:1'' 100 ''carol'') (created ''a:1'' 100 ''carol'') demo_used)) \<and>
   (\<exists>w' err key. demo_reach (two w' (''a:1'', 100, SReqTimeline \<lparr>tl_UserID = ''bob''\<rparr>, PRet (Inl err))
     (''a:1'', 100, SReqDeletePost \<lparr>dp_UserID = ''bob'', dp_PostKey = key\<rparr>, PRet (Inr (SRespDeletePost \<lparr>dpr_Status = StwOK\<rparr>))) demo_used))"
proof -
  note race = check_then_act_races [OF demo_deployment insertion.go_sort_axioms, of "''a:1''" 100]
  have "posts demo_tw ''bob'' \<noteq> Map.empty" by (simp add: demo_tw_def)
  moreover have "''carol'' \<notin> users demo_tw" "''bob'' \<in> users demo_tw" by (simp_all add: demo_tw_def)
  ultimately show ?thesis using race [of "''carol''"] race [of "''bob''"] by simp
qed

end
