(* ===== verification/Http.thy ===== *)
theory Http
  imports Stw_Rpc Go_Strings
begin

section \<open>HTTP messages and JSON\<close>

text \<open>
  What the web server and its clients use of \<open>net/http\<close>, \<open>net/url\<close> and \<open>encoding/json\<close>.  A body is
  modelled by the JSON value it holds, or by its text when it holds none; the query of a URL by its
  pairs in order.  So the texts that the two ends exchange are abstracted to what they mean, and a
  string stands for text that JSON carries unchanged (valid UTF-8).
\<close>

subsection \<open>JSON\<close>

text \<open>\<open>JOther\<close> is a boolean or a number that is not an integer.\<close>

datatype json =
    JNull
  | JNum int
  | JStr string
  | JOther string
  | JArr "json list"
  | JObj "(string \<times> json) list"

text \<open>Decoding into a struct: the fields are taken in order, a later one overwrites an earlier one;
  \<open>null\<close> leaves a field as it is, unknown fields are skipped.  A value of the wrong type is skipped
  too, but makes the decoder report an error at the end.\<close>

type_synonym 's setter = "string \<Rightarrow> json \<Rightarrow> 's \<Rightarrow> 's \<times> bool"

fun set_fields :: "'s setter \<Rightarrow> (string \<times> json) list \<Rightarrow> 's \<Rightarrow> 's \<times> bool" where
  "set_fields f [] s = (s, True)"
| "set_fields f ((k, v) # fs) s =
     (let (s, ok) = f k v s; (s, ok') = set_fields f fs s in (s, ok \<and> ok'))"

definition json_struct :: "'s setter \<Rightarrow> json \<Rightarrow> 's \<Rightarrow> 's \<times> bool" where
  "json_struct f j s = (case j of JObj fs \<Rightarrow> set_fields f fs s | JNull \<Rightarrow> (s, True) | _ \<Rightarrow> (s, False))"

text \<open>Field names match up to the case of ASCII letters.\<close>

definition ascii_lower :: "char \<Rightarrow> char" where
  "ascii_lower c = (let n = of_char c :: nat in if 65 \<le> n \<and> n \<le> 90 then char_of (n + 32) else c)"

definition same_name :: "string \<Rightarrow> string \<Rightarrow> bool" where
  "same_name a b \<longleftrightarrow> map ascii_lower a = map ascii_lower b"

definition json_string :: "json \<Rightarrow> string \<Rightarrow> string \<times> bool" where
  "json_string j s = (case j of JStr t \<Rightarrow> (t, True) | JNull \<Rightarrow> (s, True) | _ \<Rightarrow> (s, False))"

definition json_int :: "json \<Rightarrow> int \<Rightarrow> int \<times> bool" where
  "json_int j i = (case j of JNum n \<Rightarrow> if int64 n then (n, True) else (i, False) | JNull \<Rightarrow> (i, True) | _ \<Rightarrow> (i, False))"

lemma json_string_simps [simp]: "json_string (JStr t) s = (t, True)"
  by (simp add: json_string_def)

lemma json_int_simps [simp]: "int64 n \<Longrightarrow> json_int (JNum n) i = (n, True)"
  by (simp add: json_int_def)

lemma json_struct_simps [simp]: "json_struct f (JObj fs) s = set_fields f fs s"
  by (simp add: json_struct_def)

lemma same_name_refl [simp]: "same_name a a"
  by (simp add: same_name_def)

lemma different_names [simp]:
  "\<not> same_name ''Contents'' ''UserID''" "\<not> same_name ''Status'' ''PostKey''" "\<not> same_name ''Posts'' ''Status''"
  "\<not> same_name ''Posted'' ''UserID''" "\<not> same_name ''Contents'' ''Posted''"
  by code_simp+

subsection \<open>The statuses as numbers\<close>

primrec status_code :: "StwStatus \<Rightarrow> int" where
  "status_code StwUnset = 0"
| "status_code StwOK = 1"
| "status_code NoSuchUser = 2"
| "status_code NoSuchPost = 3"
| "status_code NoSuchTargetUser = 4"
| "status_code Exists = 5"
| "status_code StwNotReady = 6"

lemma status_code_int64 [simp]: "int64 (status_code s)"
  by (cases s) (simp_all add: int64_def)

lemma status_code_inj [simp]: "status_code s = status_code t \<longleftrightarrow> s = t"
  by (cases s; cases t) simp_all

subsection \<open>Bodies\<close>

datatype body = Json json | Text string | Unreadable

text \<open>A decoder reads the first value of what was written; writing nothing leaves no trace.\<close>

fun message_body :: "body list \<Rightarrow> body" where
  "message_body [] = Text []"
| "message_body (b # bs) = (if b = Text [] then message_body bs else b)"

text \<open>\<open>json.NewDecoder(b).Decode(&s)\<close>, and whether it returned no error.\<close>

definition Decode :: "'s setter \<Rightarrow> body \<Rightarrow> 's \<Rightarrow> 's \<times> bool" where
  "Decode f b s = (case b of Json j \<Rightarrow> json_struct f j s | _ \<Rightarrow> (s, False))"

lemma Decode_simps [simp]:
  "Decode f (Json j) s = json_struct f j s" "Decode f (Text t) s = (s, False)"
  by (simp_all add: Decode_def)

subsection \<open>Requests and responses\<close>

text \<open>\<open>rq_Rest\<close> is what is left of the body when a decoder has given up on it; \<open>rq_Cookies\<close> are the names
  of the cookies.\<close>

record http_request =
  rq_Method :: string
  rq_Path :: string
  rq_Query :: "(string \<times> string) list"
  rq_Body :: body
  rq_Rest :: body
  rq_Cookies :: "string list"
  rq_RemoteAddr :: string

text \<open>\<open>r.URL.Query()[key]\<close>: no value means that the key is absent.\<close>

definition query_values :: "http_request \<Rightarrow> string \<Rightarrow> string list" where
  "query_values r key = map snd (filter (\<lambda>(k, v). k = key) (rq_Query r))"

text \<open>The response as it is written: the status is \<open>0\<close> until the header goes out, with the first
  \<open>WriteHeader\<close> or \<open>Write\<close>.\<close>

record http_response =
  rs_Status :: int
  rs_Body :: "body list"
  rs_SetCookies :: "string list"

definition new_response :: http_response where
  "new_response = \<lparr>rs_Status = 0, rs_Body = [], rs_SetCookies = []\<rparr>"

definition WriteHeader :: "int \<Rightarrow> http_response \<Rightarrow> http_response" where
  "WriteHeader code rs = (if rs_Status rs = 0 then rs\<lparr>rs_Status := code\<rparr> else rs)"

definition http_Write :: "body \<Rightarrow> http_response \<Rightarrow> http_response" where
  "http_Write b rs = (WriteHeader 200 rs)\<lparr>rs_Body := rs_Body rs @ [b]\<rparr>"

definition http_Error :: "string \<Rightarrow> int \<Rightarrow> http_response \<Rightarrow> http_response" where
  "http_Error msg code rs = http_Write (Text (msg @ [CHR 0x0A])) (WriteHeader code rs)"

definition SetCookie :: "string \<Rightarrow> http_response \<Rightarrow> http_response" where
  "SetCookie name rs = (if rs_Status rs = 0 then rs\<lparr>rs_SetCookies := rs_SetCookies rs @ [name]\<rparr> else rs)"

text \<open>When the handler returns, a header that was not written goes out with status 200.\<close>

definition finish :: "http_response \<Rightarrow> http_response" where
  "finish rs = WriteHeader 200 rs"

definition StatusBadRequest :: int where
  "StatusBadRequest = 400"

definition StatusInternalServerError :: int where
  "StatusInternalServerError = 500"

lemmas response_defs = new_response_def WriteHeader_def http_Write_def http_Error_def SetCookie_def finish_def
  StatusBadRequest_def StatusInternalServerError_def

subsection \<open>The structs of the application protocol in JSON\<close>

text \<open>A nil slice is \<open>null\<close>; the handlers never make an empty one.\<close>

definition json_slice :: "('a \<Rightarrow> json) \<Rightarrow> 'a list \<Rightarrow> json" where
  "json_slice f xs = (if xs = [] then JNull else JArr (map f xs))"

definition json_CreateUserArgs :: "CreateUserArgs \<Rightarrow> json" where
  "json_CreateUserArgs a = JObj [(''UserID'', JStr (cu_UserID a))]"

definition json_PostArgs :: "PostArgs \<Rightarrow> json" where
  "json_PostArgs a = JObj [(''UserID'', JStr (pt_UserID a)), (''Contents'', JStr (pt_Contents a))]"

definition json_DeletePostArgs :: "DeletePostArgs \<Rightarrow> json" where
  "json_DeletePostArgs a = JObj [(''UserID'', JStr (dp_UserID a)), (''PostKey'', JStr (dp_PostKey a))]"

definition json_status :: "StwStatus \<Rightarrow> json" where
  "json_status s = JObj [(''Status'', JNum (status_code s))]"

definition json_PostReply :: "PostReply \<Rightarrow> json" where
  "json_PostReply r = JObj [(''PostKey'', JStr (ptr_PostKey r)), (''Status'', JNum (status_code (ptr_Status r)))]"

definition json_Post :: "Post \<Rightarrow> json" where
  "json_Post p =
     JObj [(''UserID'', JStr (po_UserID p)), (''Posted'', JStr (po_Posted p)), (''Contents'', JStr (po_Contents p))]"

definition json_TimelineReply :: "TimelineReply \<Rightarrow> json" where
  "json_TimelineReply r =
     JObj [(''Status'', JNum (status_code (tlr_Status r))), (''Posts'', json_slice json_Post (tlr_Posts r))]"

definition set_PostArgs :: "PostArgs setter" where
  "set_PostArgs k v a =
     (if same_name k ''UserID'' then let (s, ok) = json_string v (pt_UserID a) in (a\<lparr>pt_UserID := s\<rparr>, ok)
      else if same_name k ''Contents'' then let (s, ok) = json_string v (pt_Contents a) in (a\<lparr>pt_Contents := s\<rparr>, ok)
      else (a, True))"

definition zero_PostArgs :: PostArgs where
  "zero_PostArgs = \<lparr>pt_UserID = [], pt_Contents = []\<rparr>"

lemma decode_PostArgs [simp]:
  "json_struct set_PostArgs (json_PostArgs a) zero_PostArgs = (a, True)"
  "json_struct set_PostArgs (json_CreateUserArgs c) zero_PostArgs = (\<lparr>pt_UserID = cu_UserID c, pt_Contents = []\<rparr>, True)"
  by (simp_all add: json_PostArgs_def json_CreateUserArgs_def set_PostArgs_def zero_PostArgs_def)

end
