(* ===== verification/Backend.thy ===== *)
theory Backend
  imports Stw_Timelines
begin

section \<open>The app servers as their clients see them\<close>

text \<open>
  A client of the app servers dials one of them and calls its methods by \<open>net/rpc\<close>.  The record \<open>Backend\<close> has
  the two operations on a state \<open>'a\<close> that stands for the app servers and everything behind them; a
  connection is named by the address it leads to.  The locale states what the web server relies on; the
  theory \<open>App_Tier\<close> interprets it on the app servers over a cluster of storage servers.
\<close>

record 'a Backend =
  be_dial :: "string \<Rightarrow> 'a \<Rightarrow> bool"
  be_call :: "string \<Rightarrow> stw_request \<Rightarrow> 'a \<Rightarrow> (go_error + stw_response) \<times> 'a"

subsection \<open>Typed calls\<close>

text \<open>A call decodes the response into the reply of the method; the decoder refuses a response of another
  type.\<close>

definition typed :: "(stw_response \<Rightarrow> 'r option) \<Rightarrow> (go_error + stw_response) \<times> 'a \<Rightarrow> (go_error + 'r) \<times> 'a" where
  "typed f res =
     (case fst res of
        Inl err \<Rightarrow> Inl err
      | Inr x \<Rightarrow> (case f x of None \<Rightarrow> Inl (Err ''reading body'') | Some r \<Rightarrow> Inr r),
      snd res)"

fun as_create :: "stw_response \<Rightarrow> CreateUserReply option" where
  "as_create (SRespCreateUser r) = Some r"
| "as_create _ = None"

fun as_subscription :: "stw_response \<Rightarrow> SubscriptionReply option" where
  "as_subscription (SRespSubscription r) = Some r"
| "as_subscription _ = None"

fun as_post :: "stw_response \<Rightarrow> PostReply option" where
  "as_post (SRespPost r) = Some r"
| "as_post _ = None"

fun as_delete :: "stw_response \<Rightarrow> DeletePostReply option" where
  "as_delete (SRespDeletePost r) = Some r"
| "as_delete _ = None"

fun as_timeline :: "stw_response \<Rightarrow> TimelineReply option" where
  "as_timeline (SRespTimeline r) = Some r"
| "as_timeline _ = None"

fun as_servers :: "stw_response \<Rightarrow> StwGetServersReply option" where
  "as_servers (SRespGetServers r) = Some r"
| "as_servers _ = None"

lemma typed_simps [simp]:
  "typed f (Inl err, a) = (Inl err, a)"
  "f x = Some r \<Longrightarrow> typed f (Inr x, a) = (Inr r, a)"
  by (simp_all add: typed_def)

subsection \<open>The contract\<close>

text \<open>\<open>rep tw a\<close>: the state \<open>a\<close> represents the abstract state \<open>tw\<close>; \<open>may a u\<close>: the lists of the user \<open>u\<close> may be
  appended to.\<close>

locale backend_contract =
  fixes B :: "'a Backend" and hosts :: "string set" and rep :: "twitter \<Rightarrow> 'a \<Rightarrow> bool" and may :: "'a \<Rightarrow> string \<Rightarrow> bool"
  assumes dials: "rep tw a \<Longrightarrow> h \<in> hosts \<Longrightarrow> be_dial B h a"
    and create: "rep tw a \<Longrightarrow> h \<in> hosts \<Longrightarrow>
      \<exists>a'. be_call B h (SReqCreateUser \<lparr>cu_UserID = u\<rparr>) a = (Inr (SRespCreateUser \<lparr>cur_Status = fst (tw_create u tw)\<rparr>), a') \<and>
        rep (snd (tw_create u tw)) a' \<and> (\<forall>v. may a v \<longrightarrow> may a' v)"
    and subscribe: "rep tw a \<Longrightarrow> h \<in> hosts \<Longrightarrow> may a u \<Longrightarrow>
      \<exists>a'. be_call B h (SReqSubscribe \<lparr>su_UserID = u, su_TargetUserID = v\<rparr>) a =
          (Inr (SRespSubscription \<lparr>sur_Status = fst (tw_subscribe u v tw)\<rparr>), a') \<and> rep (snd (tw_subscribe u v tw)) a'"
    and unsubscribe: "rep tw a \<Longrightarrow> h \<in> hosts \<Longrightarrow>
      \<exists>a'. be_call B h (SReqUnsubscribe \<lparr>su_UserID = u, su_TargetUserID = v\<rparr>) a =
          (Inr (SRespSubscription \<lparr>sur_Status = fst (tw_unsubscribe u v tw)\<rparr>), a') \<and> rep (snd (tw_unsubscribe u v tw)) a'"
    and post: "rep tw a \<Longrightarrow> h \<in> hosts \<Longrightarrow> may a u \<Longrightarrow>
      \<exists>t a'. be_call B h (SReqPost \<lparr>pt_UserID = u, pt_Contents = c\<rparr>) a =
          (Inr (SRespPost \<lparr>ptr_PostKey = (if u \<in> users tw then FormatPostKey u t else []),
                            ptr_Status = fst (tw_post t u c tw)\<rparr>), a') \<and> rep (snd (tw_post t u c tw)) a'"
    and delete: "rep tw a \<Longrightarrow> h \<in> hosts \<Longrightarrow>
      \<exists>a'. be_call B h (SReqDeletePost \<lparr>dp_UserID = u, dp_PostKey = key\<rparr>) a =
          (Inr (SRespDeletePost \<lparr>dpr_Status = fst (tw_delete u key tw)\<rparr>), a') \<and> rep (snd (tw_delete u key tw)) a'"
    and timeline: "rep tw a \<Longrightarrow> h \<in> hosts \<Longrightarrow> plain_names {u} tw \<Longrightarrow> u \<in> users tw \<Longrightarrow>
      \<exists>a' ks. be_call B h (SReqTimeline \<lparr>tl_UserID = u\<rparr>) a =
          (Inr (SRespTimeline \<lparr>tlr_Status = StwOK, tlr_Posts = map (post_of tw) ks\<rparr>), a') \<and> rep tw a' \<and>
        smallest 100 (\<lambda>k. - post_time k) (post_keys tw u) ks"
    and home: "rep tw a \<Longrightarrow> h \<in> hosts \<Longrightarrow> plain_names (follows tw `` {u}) tw \<Longrightarrow> u \<in> users tw \<Longrightarrow>
      \<exists>a' ks. be_call B h (SReqHomeTimeline \<lparr>tl_UserID = u\<rparr>) a =
          (Inr (SRespTimeline \<lparr>tlr_Status = StwOK, tlr_Posts = map (post_of tw) ks\<rparr>), a') \<and> rep tw a' \<and>
        smallest 100 (\<lambda>k. - post_time k) (\<Union>v\<in>follows tw `` {u}. post_keys tw v) ks"

end
