(* ===== verification/Web_Server.thy ===== *)
theory Web_Server
  imports Complex_Main Http Backend
begin

section \<open>The web server\<close>

text \<open>
  \<open>webserver/webserver_impl.go\<close> and \<open>webserver/webserver_api.go\<close>.  The web server turns HTTP requests into calls of
  the app servers, which it chooses by a hash of the user, and shields itself from load with a puzzle page.  The
  Bloom filter is \<open>github.com/willf/bloom\<close>, an argument here.  A handler returns the response and the new states;
  a panic, which \<open>net/http\<close> recovers from, and a call of \<open>log.Fatal\<close>, which ends the process, are reported beside
  them.  The average latency is a real number: the rounding of \<open>float64\<close> is left out, and so is logging.
\<close>

record 'f bloom =
  bl_New :: 'f
  bl_Test :: "string \<Rightarrow> 'f \<Rightarrow> bool"
  bl_Add :: "string \<Rightarrow> 'f \<Rightarrow> 'f"
  bl_Remove :: "string \<Rightarrow> 'f \<Rightarrow> 'f"

record 'f webServer =
  ws_stwServers :: "string list"
  ws_stwConns :: "string \<rightharpoonup> string"
  ws_zombieFilter :: 'f
  ws_underHighLoad :: bool
  ws_avgLatency :: real

type_synonym ('f, 'a) handled = "crash option \<times> http_response \<times> 'f webServer \<times> 'a"

subsection \<open>Choosing the app server\<close>

definition RequestHash :: "string \<Rightarrow> u32" where
  "RequestHash userID = fnv32 userID"

definition getStwConn :: "'a Backend \<Rightarrow> string \<Rightarrow> 'f webServer \<Rightarrow> 'a \<Rightarrow> (string \<times> 'f webServer) go" where
  "getStwConn B key ws a =
     (let n = of_nat (length (ws_stwServers ws)) :: u32 in
      if n = 0 then Inl DivideByZero
      else
        go_bind (go_index (ws_stwServers ws) (uint (RequestHash key mod n))) (\<lambda>host.
          case ws_stwConns ws host of
            None \<Rightarrow>
              if be_dial B host a then Inr (host, ws\<lparr>ws_stwConns := (ws_stwConns ws)(host \<mapsto> host)\<rparr>)
              else Inl (LogFatal ''rpc error:'')
          | Some cli \<Rightarrow> Inr (cli, ws)))"

text \<open>The rest of a handler after \<open>cli := ws.getStwConn(key)\<close>.\<close>

definition with_conn ::
  "'a Backend \<Rightarrow> string \<Rightarrow> http_response \<Rightarrow> 'f webServer \<Rightarrow> 'a
     \<Rightarrow> (string \<Rightarrow> 'f webServer \<Rightarrow> ('f, 'a) handled) \<Rightarrow> ('f, 'a) handled" where
  "with_conn B key rs ws a rest =
     (case getStwConn B key ws a of
        Inl c \<Rightarrow> (Some c, rs, ws, a)
      | Inr (cli, ws) \<Rightarrow> rest cli ws)"

subsection \<open>The handlers\<close>

definition echoHandler :: "body \<Rightarrow> http_response \<Rightarrow> http_response" where
  "echoHandler b rs = (if b = Unreadable then http_Error ''can't read body'' StatusBadRequest rs else http_Write b rs)"

text \<open>A reply that the call did not fill in stays zero.\<close>

definition or_zero :: "'r \<Rightarrow> go_error + 'r \<Rightarrow> 'r" where
  "or_zero z r = (case r of Inl _ \<Rightarrow> z | Inr x \<Rightarrow> x)"

definition usersHandler ::
  "'a Backend \<Rightarrow> http_request \<Rightarrow> http_response \<Rightarrow> 'f webServer \<Rightarrow> 'a \<Rightarrow> ('f, 'a) handled" where
  "usersHandler B r rs ws a =
     (if rq_Method r = ''GET'' then (None, echoHandler (rq_Body r) rs, ws, a)
      else if rq_Method r = ''POST'' then
        let (args, ok) = Decode set_PostArgs (rq_Body r) zero_PostArgs in
        if \<not> ok then (None, echoHandler (rq_Rest r) (WriteHeader StatusBadRequest rs), ws, a)
        else
          let uid = pt_UserID args in
          with_conn B uid rs ws a (\<lambda>cli ws.
            let (reply, a) = typed as_create (be_call B cli (SReqCreateUser \<lparr>cu_UserID = uid\<rparr>) a) in
            (None, http_Write (Json (json_status (cur_Status (or_zero \<lparr>cur_Status = StwUnset\<rparr> reply)))) rs, ws, a))
      else (None, rs, ws, a))"

definition subscriptionHandler ::
  "'a Backend \<Rightarrow> http_request \<Rightarrow> http_response \<Rightarrow> 'f webServer \<Rightarrow> 'a \<Rightarrow> ('f, 'a) handled" where
  "subscriptionHandler B r rs ws a =
     (case query_values r ''UserID'' of
        [] \<Rightarrow> (None, WriteHeader StatusBadRequest rs, ws, a)
      | s # _ \<Rightarrow>
          (case query_values r ''TargetUserID'' of
             [] \<Rightarrow> (None, WriteHeader StatusBadRequest rs, ws, a)
           | t # _ \<Rightarrow>
               with_conn B s rs ws a (\<lambda>cli ws.
                 let args = \<lparr>su_UserID = s, su_TargetUserID = t\<rparr>;
                     answer = (\<lambda>req.
                       let (reply, a) = typed as_subscription (be_call B cli req a) in
                       (None, http_Write (Json (json_status (sur_Status (or_zero \<lparr>sur_Status = StwUnset\<rparr> reply)))) rs, ws, a)) in
                 if rq_Method r = ''GET'' then (None, echoHandler (rq_Body r) rs, ws, a)
                 else if rq_Method r = ''POST'' then answer (SReqSubscribe args)
                 else if rq_Method r = ''DELETE'' then answer (SReqUnsubscribe args)
                 else (None, echoHandler (rq_Body r) (WriteHeader StatusBadRequest rs), ws, a))))"

definition postsHandler ::
  "'a Backend \<Rightarrow> http_request \<Rightarrow> http_response \<Rightarrow> 'f webServer \<Rightarrow> 'a \<Rightarrow> ('f, 'a) handled" where
  "postsHandler B r rs ws a =
     (if rq_Method r = ''POST'' then
        let (args, ok) = Decode set_PostArgs (rq_Body r) zero_PostArgs in
        if \<not> ok then (None, echoHandler (rq_Rest r) (WriteHeader StatusBadRequest rs), ws, a)
        else
          let uid = pt_UserID args in
          with_conn B uid rs ws a (\<lambda>cli ws.
            let (_, a) = typed as_create (be_call B cli (SReqCreateUser \<lparr>cu_UserID = uid\<rparr>) a);
                (reply, a) = typed as_post (be_call B cli (SReqPost args) a) in
            case reply of
              Inl _ \<Rightarrow> (None, WriteHeader StatusInternalServerError rs, ws, a)
            | Inr reply \<Rightarrow> (None, http_Write (Json (json_PostReply reply)) rs, ws, a))
      else if rq_Method r = ''DELETE'' then
        (case query_values r ''UserID'' of
           [] \<Rightarrow> (None, WriteHeader StatusBadRequest rs, ws, a)
         | uid # _ \<Rightarrow>
             (case query_values r ''PostKey'' of
                [] \<Rightarrow> (None, WriteHeader StatusBadRequest rs, ws, a)
              | postKey # _ \<Rightarrow>
                  with_conn B uid rs ws a (\<lambda>cli ws.
                    let (reply, a) =
                      typed as_delete (be_call B cli (SReqDeletePost \<lparr>dp_UserID = uid, dp_PostKey = postKey\<rparr>) a) in
                    case reply of
                      Inl _ \<Rightarrow> (None, WriteHeader StatusBadRequest rs, ws, a)
                    | Inr reply \<Rightarrow> (None, http_Write (Json (json_status (dpr_Status reply))) rs, ws, a))))
      else (None, echoHandler (rq_Body r) (WriteHeader StatusBadRequest rs), ws, a))"

definition timelineHandler ::
  "'a Backend \<Rightarrow> http_request \<Rightarrow> http_response \<Rightarrow> 'f webServer \<Rightarrow> 'a \<Rightarrow> ('f, 'a) handled" where
  "timelineHandler B r rs ws a =
     (case query_values r ''UserID'' of
        [] \<Rightarrow> (None, echoHandler (rq_Body r) (WriteHeader StatusBadRequest rs), ws, a)
      | uid # _ \<Rightarrow>
          with_conn B uid rs ws a (\<lambda>cli ws.
            let (_, a) = typed as_create (be_call B cli (SReqCreateUser \<lparr>cu_UserID = uid\<rparr>) a);
                (reply, a) = typed as_timeline (be_call B cli (SReqTimeline \<lparr>tl_UserID = uid\<rparr>) a) in
            case reply of
              Inl _ \<Rightarrow> (None, WriteHeader StatusInternalServerError rs, ws, a)
            | Inr reply \<Rightarrow> (None, http_Write (Json (json_TimelineReply reply)) rs, ws, a)))"

definition homeHandler ::
  "'a Backend \<Rightarrow> http_request \<Rightarrow> http_response \<Rightarrow> 'f webServer \<Rightarrow> 'a \<Rightarrow> ('f, 'a) handled" where
  "homeHandler B r rs ws a =
     (case query_values r ''UserID'' of
        [] \<Rightarrow> (None, echoHandler (rq_Body r) (WriteHeader StatusBadRequest rs), ws, a)
      | uid # _ \<Rightarrow>
          with_conn B uid rs ws a (\<lambda>cli ws.
            let (_, a) = typed as_create (be_call B cli (SReqCreateUser \<lparr>cu_UserID = uid\<rparr>) a);
                (_, a) = typed as_subscription
                  (be_call B cli (SReqSubscribe \<lparr>su_UserID = uid, su_TargetUserID = uid\<rparr>) a);
                (reply, a) = typed as_timeline (be_call B cli (SReqHomeTimeline \<lparr>tl_UserID = uid\<rparr>) a) in
            case reply of
              Inl _ \<Rightarrow> (None, WriteHeader StatusInternalServerError rs, ws, a)
            | Inr reply \<Rightarrow> (None, http_Write (Json (json_TimelineReply reply)) rs, ws, a)))"

text \<open>The patterns of the \<open>ServeMux\<close>.  Every other path is served from a file or redirected by \<open>net/http\<close>:
  \<open>files r\<close> is what it writes then.\<close>

definition mux_ServeHTTP ::
  "(http_request \<Rightarrow> http_response \<Rightarrow> http_response) \<Rightarrow> 'a Backend \<Rightarrow> http_request \<Rightarrow> http_response \<Rightarrow> 'f webServer \<Rightarrow> 'a
     \<Rightarrow> ('f, 'a) handled" where
  "mux_ServeHTTP files B r rs ws a =
     (if rq_Path r = ''/users'' then usersHandler B r rs ws a
      else if rq_Path r = ''/subscriptions'' then subscriptionHandler B r rs ws a
      else if rq_Path r = ''/posts'' then postsHandler B r rs ws a
      else if rq_Path r = ''/timeline'' then timelineHandler B r rs ws a
      else if rq_Path r = ''/home'' then homeHandler B r rs ws a
      else (None, files r rs, ws, a))"

subsection \<open>Protection from load\<close>

definition remoteIP :: "http_request \<Rightarrow> string" where
  "remoteIP r = hd (split_on CHR '':'' (rq_RemoteAddr r))"

definition puzzle_page :: string where
  "puzzle_page =
     ''<html><head>Confirm you are not Bot</head><body><form method='post'>'' @
     ''<input type='submit' value='ImNotBot'></form></body></html>''"

definition servePuzzle ::
  "'f bloom \<Rightarrow> (http_request \<Rightarrow> http_response \<Rightarrow> http_response) \<Rightarrow> 'a Backend \<Rightarrow> http_request \<Rightarrow> http_response
     \<Rightarrow> 'f webServer \<Rightarrow> 'a \<Rightarrow> ('f, 'a) handled" where
  "servePuzzle bl files B r rs ws a =
     (let ip = remoteIP r in
      if rq_Method r = ''POST'' then
        let isZombie = bl_Test bl ip (ws_zombieFilter ws);
            ws = (if isZombie then ws\<lparr>ws_zombieFilter := bl_Remove bl ip (ws_zombieFilter ws)\<rparr> else ws);
            rs = SetCookie ''passcode'' rs in
        mux_ServeHTTP files B r rs ws a
      else if rq_Method r = ''GET'' then
        (None, http_Write (Text puzzle_page) rs, ws\<lparr>ws_zombieFilter := bl_Add bl ip (ws_zombieFilter ws)\<rparr>, a)
      else (None, rs, ws, a))"

text \<open>\<open>delta\<close> is the time the handler took, in nanoseconds.\<close>

definition update_load :: "int \<Rightarrow> 'f webServer \<Rightarrow> 'f webServer" where
  "update_load delta ws =
     (let avg = 9 / 10 * ws_avgLatency ws + 1 / 10 * real_of_int delta in
      ws\<lparr>ws_avgLatency := avg, ws_underHighLoad := (20 \<le> avg / 1000000)\<rparr>)"

definition ddosProtectionWrapper ::
  "'f bloom \<Rightarrow> (http_request \<Rightarrow> http_response \<Rightarrow> http_response) \<Rightarrow> 'a Backend \<Rightarrow> int \<Rightarrow> http_request \<Rightarrow> http_response
     \<Rightarrow> 'f webServer \<Rightarrow> 'a \<Rightarrow> ('f, 'a) handled" where
  "ddosProtectionWrapper bl files B delta r rs ws a =
     (if ''passcode'' \<notin> set (rq_Cookies r) \<and>
         (ws_underHighLoad ws \<or> bl_Test bl (remoteIP r) (ws_zombieFilter ws))
      then servePuzzle bl files B r rs ws a
      else
        (case mux_ServeHTTP files B r rs ws a of
           (None, rs, ws, a) \<Rightarrow> (None, rs, update_load delta ws, a)
         | crashed \<Rightarrow> crashed))"

subsection \<open>Starting a web server\<close>

text \<open>The master is asked at most five times; \<open>call n\<close> is the outcome of the \<open>n\<close>-th call.\<close>

function await_apps :: "(nat \<Rightarrow> go_error + StwGetServersReply) \<Rightarrow> nat \<Rightarrow> (go_error + string list) go" where
  "await_apps call re =
     (if 5 \<le> re then Inr (Inl (Err ''Timeout when waiting Appserver ready.''))
      else
        case call re of
          Inl err \<Rightarrow> Inl (LogFatal ''rpc error:'')
        | Inr reply \<Rightarrow>
            if sgs_Status reply = StwOK then Inr (Inr (map stw_HostPort (sgs_Servers reply)))
            else await_apps call (re + 1))"
  by pat_completeness auto
termination
  by (relation "measure (\<lambda>(call, re). 5 - re)") auto

declare await_apps.simps [simp del]

definition new_webServer :: "'f bloom \<Rightarrow> 'f webServer" where
  "new_webServer bl =
     \<lparr>ws_stwServers = [], ws_stwConns = Map.empty, ws_zombieFilter = bl_New bl, ws_underHighLoad = False, ws_avgLatency = 0\<rparr>"

definition NewWebServer ::
  "'f bloom \<Rightarrow> go_error option \<Rightarrow> (nat \<Rightarrow> go_error + StwGetServersReply) \<Rightarrow> string \<Rightarrow> (go_error + 'f webServer) go" where
  "NewWebServer bl dialErr call masterStwServer =
     (let ws = new_webServer bl in
      if masterStwServer \<noteq> [] then
        (case dialErr of
           Some err \<Rightarrow> Inr (Inl err)
         | None \<Rightarrow>
             go_bind (await_apps call 0) (\<lambda>r.
               case r of Inl err \<Rightarrow> Inr (Inl err) | Inr servers \<Rightarrow> Inr (Inr (ws\<lparr>ws_stwServers := servers\<rparr>))))
      else Inr (Inr ws))"

end
