(* ===== verification/Web_Clients.thy ===== *)
theory Web_Clients
  imports Web_Server
begin

text \<open>
  The two client libraries: \<open>stwclient/stwclient_impl.go\<close>, which calls an app server by \<open>net/rpc\<close>, and
  \<open>httpclient/httpclient_impl.go\<close>, which goes through the web server.  The theory ends with the web server as
  the network its HTTP clients see.
\<close>

section \<open>The RPC client\<close>

record stwClient =
  sc_client :: string
  sc_closed :: bool

definition NewStwClient :: "'a Backend \<Rightarrow> string \<Rightarrow> int \<Rightarrow> 'a \<Rightarrow> go_error + stwClient" where
  "NewStwClient B serverHost serverPort a =
     (let addr = JoinHostPort serverHost (Itoa serverPort) in
      if be_dial B addr a then Inr \<lparr>sc_client = addr, sc_closed = False\<rparr>
      else Inl (Err ''connection refused''))"

definition client_Call :: "'a Backend \<Rightarrow> stwClient \<Rightarrow> stw_request \<Rightarrow> 'a \<Rightarrow> (go_error + stw_response) \<times> 'a" where
  "client_Call B tc req a =
     (if sc_closed tc then (Inl (Err ''connection is shut down''), a) else be_call B (sc_client tc) req a)"

text \<open>A method returns what it reads from the reply, or the error of the call.\<close>

definition of_reply :: "('r \<Rightarrow> 's) \<Rightarrow> (go_error + 'r) \<times> 'a \<Rightarrow> (go_error + 's) \<times> 'a" where
  "of_reply f res = ((case fst res of Inl err \<Rightarrow> Inl err | Inr reply \<Rightarrow> Inr (f reply)), snd res)"

definition sc_CreateUser :: "'a Backend \<Rightarrow> stwClient \<Rightarrow> string \<Rightarrow> 'a \<Rightarrow> (go_error + StwStatus) \<times> 'a" where
  "sc_CreateUser B tc userID a =
     of_reply cur_Status (typed as_create (client_Call B tc (SReqCreateUser \<lparr>cu_UserID = userID\<rparr>) a))"

definition sc_doSub ::
  "'a Backend \<Rightarrow> stwClient \<Rightarrow> (SubscriptionArgs \<Rightarrow> stw_request) \<Rightarrow> string \<Rightarrow> string \<Rightarrow> 'a \<Rightarrow> (go_error + StwStatus) \<times> 'a" where
  "sc_doSub B tc func userID targetUserID a =
     of_reply sur_Status
       (typed as_subscription (client_Call B tc (func \<lparr>su_UserID = userID, su_TargetUserID = targetUserID\<rparr>) a))"

definition sc_Subscribe :: "'a Backend \<Rightarrow> stwClient \<Rightarrow> string \<Rightarrow> string \<Rightarrow> 'a \<Rightarrow> (go_error + StwStatus) \<times> 'a" where
  "sc_Subscribe B tc = sc_doSub B tc SReqSubscribe"

definition sc_Unsubscribe :: "'a Backend \<Rightarrow> stwClient \<Rightarrow> string \<Rightarrow> string \<Rightarrow> 'a \<Rightarrow> (go_error + StwStatus) \<times> 'a" where
  "sc_Unsubscribe B tc = sc_doSub B tc SReqUnsubscribe"

definition sc_Timeline :: "'a Backend \<Rightarrow> stwClient \<Rightarrow> string \<Rightarrow> 'a \<Rightarrow> (go_error + Post list \<times> StwStatus) \<times> 'a" where
  "sc_Timeline B tc userID a =
     of_reply (\<lambda>reply. (tlr_Posts reply, tlr_Status reply))
       (typed as_timeline (client_Call B tc (SReqTimeline \<lparr>tl_UserID = userID\<rparr>) a))"

definition sc_HomeTimeline :: "'a Backend \<Rightarrow> stwClient \<Rightarrow> string \<Rightarrow> 'a \<Rightarrow> (go_error + Post list \<times> StwStatus) \<times> 'a" where
  "sc_HomeTimeline B tc userID a =
     of_reply (\<lambda>reply. (tlr_Posts reply, tlr_Status reply))
       (typed as_timeline (client_Call B tc (SReqHomeTimeline \<lparr>tl_UserID = userID\<rparr>) a))"

text \<open>\<open>Post\<close> returns the reply beside the error.\<close>

definition sc_Post :: "'a Backend \<Rightarrow> stwClient \<Rightarrow> string \<Rightarrow> string \<Rightarrow> 'a \<Rightarrow> (PostReply \<times> go_error option) \<times> 'a" where
  "sc_Post B tc userID contents a =
     (let (reply, a) =
        typed as_post (client_Call B tc (SReqPost \<lparr>pt_UserID = userID, pt_Contents = contents\<rparr>) a) in
      case reply of
        Inl err \<Rightarrow> ((zero_PostReply, Some err), a)
      | Inr reply \<Rightarrow> ((reply, None), a))"

definition sc_DeletePost :: "'a Backend \<Rightarrow> stwClient \<Rightarrow> string \<Rightarrow> string \<Rightarrow> 'a \<Rightarrow> (go_error + StwStatus) \<times> 'a" where
  "sc_DeletePost B tc userID postKey a =
     of_reply dpr_Status
       (typed as_delete (client_Call B tc (SReqDeletePost \<lparr>dp_UserID = userID, dp_PostKey = postKey\<rparr>) a))"

definition sc_Close :: "stwClient \<Rightarrow> go_error option \<times> stwClient" where
  "sc_Close tc =
     (if sc_closed tc then (Some (Err ''connection is shut down''), tc) else (None, tc\<lparr>sc_closed := True\<rparr>))"

section \<open>The HTTP client\<close>

text \<open>The network of the client: which URLs \<open>http.NewRequest\<close> accepts, and what \<open>client.Do\<close> returns.\<close>

record 'b http_net =
  hn_parses :: "string \<Rightarrow> bool"
  hn_do :: "string \<Rightarrow> http_request \<Rightarrow> 'b \<Rightarrow> (go_error + http_response) \<times> 'b"

record httpClient =
  hc_serverAddr :: string

definition NewHttpClient :: "string \<Rightarrow> int \<Rightarrow> httpClient" where
  "NewHttpClient serverHost serverPort =
     \<lparr>hc_serverAddr = ''http://'' @ JoinHostPort serverHost (Itoa serverPort)\<rparr>"

text \<open>The error of \<open>http.NewRequest\<close> is not looked at; the request is nil then.\<close>

definition http_send ::
  "'b http_net \<Rightarrow> httpClient \<Rightarrow> string \<Rightarrow> string \<Rightarrow> (string \<times> string) list \<Rightarrow> body \<Rightarrow> 'b
     \<Rightarrow> ((go_error + http_response) \<times> 'b) go" where
  "http_send net tc method path query b s =
     (if hn_parses net (hc_serverAddr tc @ path) then
        Inr (hn_do net (hc_serverAddr tc)
          \<lparr>rq_Method = method, rq_Path = path, rq_Query = query, rq_Body = b, rq_Rest = Text [],
           rq_Cookies = [], rq_RemoteAddr = []\<rparr> s)
      else Inl NilDereference)"

text \<open>The replies as the client decodes them; a status is a number.\<close>

definition set_status :: "int setter" where
  "set_status k v st = (if same_name k ''Status'' then json_int v st else (st, True))"

definition set_PostReply :: "(string \<times> int) setter" where
  "set_PostReply k v r =
     (if same_name k ''PostKey'' then let (s, ok) = json_string v (fst r) in ((s, snd r), ok)
      else if same_name k ''Status'' then let (st, ok) = json_int v (snd r) in ((fst r, st), ok)
      else (r, True))"

definition set_Post :: "Post setter" where
  "set_Post k v p =
     (if same_name k ''UserID'' then let (s, ok) = json_string v (po_UserID p) in (p\<lparr>po_UserID := s\<rparr>, ok)
      else if same_name k ''Posted'' then let (s, ok) = json_string v (po_Posted p) in (p\<lparr>po_Posted := s\<rparr>, ok)
      else if same_name k ''Contents'' then let (s, ok) = json_string v (po_Contents p) in (p\<lparr>po_Contents := s\<rparr>, ok)
      else (p, True))"

definition zero_Post :: Post where
  "zero_Post = \<lparr>po_UserID = [], po_Posted = [], po_Contents = []\<rparr>"

fun decode_posts :: "json list \<Rightarrow> Post list \<Rightarrow> Post list \<times> bool" where
  "decode_posts [] ps = ([], True)"
| "decode_posts (j # js) ps =
     (let (p, ok) = json_struct set_Post j (case ps of [] \<Rightarrow> zero_Post | p # _ \<Rightarrow> p);
          (rest, ok') = decode_posts js (tl ps) in (p # rest, ok \<and> ok'))"

definition json_posts :: "json \<Rightarrow> Post list \<Rightarrow> Post list \<times> bool" where
  "json_posts j ps = (case j of JArr js \<Rightarrow> decode_posts js ps | JNull \<Rightarrow> ([], True) | _ \<Rightarrow> (ps, False))"

definition set_TimelineReply :: "(int \<times> Post list) setter" where
  "set_TimelineReply k v r =
     (if same_name k ''Status'' then let (st, ok) = json_int v (fst r) in ((st, snd r), ok)
      else if same_name k ''Posts'' then let (ps, ok) = json_posts v (snd r) in ((fst r, ps), ok)
      else (r, True))"

text \<open>What the other methods do with a response: decode the body, and drop the value when the decoder fails.\<close>

definition of_response ::
  "'s setter \<Rightarrow> 's \<Rightarrow> ((go_error + http_response) \<times> 'b) go \<Rightarrow> ((go_error + 's) \<times> 'b) go" where
  "of_response f z m =
     go_bind m (\<lambda>(resp, s).
       case resp of
         Inl err \<Rightarrow> Inr (Inl err, s)
       | Inr resp \<Rightarrow>
           let (reply, ok) = Decode f (message_body (rs_Body resp)) z in
           if ok then Inr (Inr reply, s) else Inr (Inl (Err ''json''), s))"

definition hc_CreateUser :: "'b http_net \<Rightarrow> httpClient \<Rightarrow> string \<Rightarrow> 'b \<Rightarrow> ((go_error + int) \<times> 'b) go" where
  "hc_CreateUser net tc userID s =
     of_response set_status 0
       (http_send net tc ''POST'' ''/users'' [] (Json (json_CreateUserArgs \<lparr>cu_UserID = userID\<rparr>)) s)"

definition hc_doSub :: "'b http_net \<Rightarrow> httpClient \<Rightarrow> string \<Rightarrow> string \<Rightarrow> string \<Rightarrow> 'b \<Rightarrow> ((go_error + int) \<times> 'b) go" where
  "hc_doSub net tc method userID targetUserID s =
     of_response set_status 0
       (http_send net tc method ''/subscriptions'' [(''UserID'', userID), (''TargetUserID'', targetUserID)] (Text []) s)"

definition hc_Subscribe :: "'b http_net \<Rightarrow> httpClient \<Rightarrow> string \<Rightarrow> string \<Rightarrow> 'b \<Rightarrow> ((go_error + int) \<times> 'b) go" where
  "hc_Subscribe net tc = hc_doSub net tc ''POST''"

definition hc_Unsubscribe :: "'b http_net \<Rightarrow> httpClient \<Rightarrow> string \<Rightarrow> string \<Rightarrow> 'b \<Rightarrow> ((go_error + int) \<times> 'b) go" where
  "hc_Unsubscribe net tc = hc_doSub net tc ''DELETE''"

definition hc_Timeline :: "'b http_net \<Rightarrow> httpClient \<Rightarrow> string \<Rightarrow> 'b \<Rightarrow> ((go_error + int \<times> Post list) \<times> 'b) go" where
  "hc_Timeline net tc userID s =
     of_response set_TimelineReply (0, []) (http_send net tc ''GET'' ''/timeline'' [(''UserID'', userID)] (Text []) s)"

definition hc_HomeTimeline :: "'b http_net \<Rightarrow> httpClient \<Rightarrow> string \<Rightarrow> 'b \<Rightarrow> ((go_error + int \<times> Post list) \<times> 'b) go" where
  "hc_HomeTimeline net tc userID s =
     of_response set_TimelineReply (0, []) (http_send net tc ''GET'' ''/home'' [(''UserID'', userID)] (Text []) s)"

definition hc_Post ::
  "'b http_net \<Rightarrow> httpClient \<Rightarrow> string \<Rightarrow> string \<Rightarrow> 'b \<Rightarrow> (((string \<times> int) \<times> go_error option) \<times> 'b) go" where
  "hc_Post net tc userID contents s =
     go_bind
       (http_send net tc ''POST'' ''/posts'' []
         (Json (json_PostArgs \<lparr>pt_UserID = userID, pt_Contents = contents\<rparr>)) s) (\<lambda>(resp, s).
       case resp of
         Inl err \<Rightarrow> Inr ((([], 0), Some err), s)
       | Inr resp \<Rightarrow>
           let (reply, ok) = Decode set_PostReply (message_body (rs_Body resp)) ([], 0) in
           Inr ((reply, if ok then None else Some (Err ''json'')), s))"

definition hc_DeletePost :: "'b http_net \<Rightarrow> httpClient \<Rightarrow> string \<Rightarrow> string \<Rightarrow> 'b \<Rightarrow> ((go_error + int) \<times> 'b) go" where
  "hc_DeletePost net tc userID postKey s =
     of_response set_status 0
       (http_send net tc ''DELETE'' ''/posts'' []
         (Json (json_DeletePostArgs \<lparr>dp_UserID = userID, dp_PostKey = postKey\<rparr>)) s)"

text \<open>\<open>contentLength\<close> is the \<open>ContentLength\<close> that \<open>net/http\<close> finds for a response, \<open>-1\<close> when it is not known; the
  buffer of that length is dropped.\<close>

definition hc_DownloadIMG ::
  "'b http_net \<Rightarrow> (http_response \<Rightarrow> int) \<Rightarrow> httpClient \<Rightarrow> 'b \<Rightarrow> (go_error option \<times> 'b) go" where
  "hc_DownloadIMG net contentLength tc s =
     go_bind (http_send net tc ''GET'' ''/assets/images/clock.png'' [] (Text []) s) (\<lambda>(resp, s).
       case resp of
         Inl err \<Rightarrow> Inr (Some err, s)
       | Inr resp \<Rightarrow> if contentLength resp < 0 then Inl MakeSliceLength else Inr (None, s))"

definition hc_Close :: "httpClient \<Rightarrow> go_error option" where
  "hc_Close tc = None"

section \<open>The web server as its clients see it\<close>

text \<open>The process of the web server, if it runs, the app servers behind it and the number of requests so far;
  \<open>lat n\<close> is how long the \<open>n\<close>-th request took.  \<open>net/http\<close> recovers from a panic of a handler and closes the
  connection.\<close>

record ('f, 'a) site =
  si_web :: "'f webServer option"
  si_app :: 'a
  si_count :: nat

definition serve_request ::
  "'f bloom \<Rightarrow> (http_request \<Rightarrow> http_response \<Rightarrow> http_response) \<Rightarrow> 'a Backend \<Rightarrow> (nat \<Rightarrow> int) \<Rightarrow> http_request
     \<Rightarrow> ('f, 'a) site \<Rightarrow> (go_error + http_response) \<times> ('f, 'a) site" where
  "serve_request bl files B lat r s =
     (case si_web s of
        None \<Rightarrow> (Inl (Err ''connection refused''), s)
      | Some ws \<Rightarrow>
          (case ddosProtectionWrapper bl files B (lat (si_count s)) r new_response ws (si_app s) of
             (None, rs, ws, a) \<Rightarrow> (Inr (finish rs), s\<lparr>si_web := Some ws, si_app := a, si_count := Suc (si_count s)\<rparr>)
           | (Some (LogFatal _), rs, ws, a) \<Rightarrow>
               (Inl (Err ''EOF''), s\<lparr>si_web := None, si_app := a, si_count := Suc (si_count s)\<rparr>)
           | (Some _, rs, ws, a) \<Rightarrow>
               (Inl (Err ''EOF''), s\<lparr>si_web := Some ws, si_app := a, si_count := Suc (si_count s)\<rparr>)))"

text \<open>The network of a client at the address \<open>ip\<close> that reaches the web server, whatever its URL.\<close>

definition site_net ::
  "'f bloom \<Rightarrow> (http_request \<Rightarrow> http_response \<Rightarrow> http_response) \<Rightarrow> 'a Backend \<Rightarrow> (nat \<Rightarrow> int) \<Rightarrow> string
     \<Rightarrow> ('f, 'a) site http_net" where
  "site_net bl files B lat ip =
     \<lparr>hn_parses = (\<lambda>_. True), hn_do = (\<lambda>_ r. serve_request bl files B lat (r\<lparr>rq_RemoteAddr := ip\<rparr>))\<rparr>"

section \<open>What the client decodes is what the server encoded\<close>

lemma decode_status [simp]: "json_struct set_status (json_status st) z = (status_code st, True)"
  by (simp add: json_status_def set_status_def)

lemma decode_PostReply [simp]:
  "json_struct set_PostReply (json_PostReply r) z = ((ptr_PostKey r, status_code (ptr_Status r)), True)"
  by (simp add: json_PostReply_def set_PostReply_def)

lemma decode_Post [simp]: "json_struct set_Post (json_Post p) z = (p, True)"
  by (simp add: json_Post_def set_Post_def)

lemma decode_posts_map [simp]: "decode_posts (map json_Post ps) zs = (ps, True)"
  by (induction ps arbitrary: zs) simp_all

lemma decode_TimelineReply [simp]:
  "json_struct set_TimelineReply (json_TimelineReply r) z = ((status_code (tlr_Status r), tlr_Posts r), True)"
  by (simp add: json_TimelineReply_def set_TimelineReply_def json_posts_def json_slice_def)

lemma http_send_site [simp]:
  "http_send (site_net bl files B lat ip) tc method path query b s =
     Inr (serve_request bl files B lat
       \<lparr>rq_Method = method, rq_Path = path, rq_Query = query, rq_Body = b, rq_Rest = Text [], rq_Cookies = [],
        rq_RemoteAddr = ip\<rparr> s)"
  by (simp add: http_send_def site_net_def)

end
