(* ===== verification/Web_Correct.thy ===== *)
theory Web_Correct
  imports Web_Clients
begin

text \<open>
  The web server against the abstract specification, over any backend that keeps its contract: which requests
  stand for which operations, and what each of them answers and does.
\<close>

section \<open>Choosing the app server\<close>

definition web_wf :: "string set \<Rightarrow> 'f webServer \<Rightarrow> bool" where
  "web_wf hosts ws \<longleftrightarrow> ws_stwServers ws \<noteq> [] \<and> length (ws_stwServers ws) < 2 ^ 32 \<and> set (ws_stwServers ws) \<subseteq> hosts \<and>
     (\<forall>h c. ws_stwConns ws h = Some c \<longrightarrow> c = h)"

lemma update_load_sel [simp]:
  "ws_stwServers (update_load d ws) = ws_stwServers ws" "ws_stwConns (update_load d ws) = ws_stwConns ws"
  "ws_zombieFilter (update_load d ws) = ws_zombieFilter ws"
  by (simp_all add: update_load_def Let_def)

lemma web_wf_update_load [simp]: "web_wf hosts (update_load d ws) \<longleftrightarrow> web_wf hosts ws"
  by (simp add: web_wf_def)

text \<open>The reference: the server whose index is the hash modulo the number of servers.\<close>

definition app_for :: "'f webServer \<Rightarrow> string \<Rightarrow> string" where
  "app_for ws key = ws_stwServers ws ! (unat (fnv32 key) mod length (ws_stwServers ws))"

lemma app_for_member: "web_wf hosts ws \<Longrightarrow> app_for ws key \<in> hosts"
  unfolding app_for_def web_wf_def by (metis length_greater_0_conv mod_less_divisor nth_mem subsetD)

lemma getStwConn_result:
  assumes "web_wf hosts ws"
  shows "getStwConn B key ws a =
    (if ws_stwConns ws (app_for ws key) = None \<and> \<not> be_dial B (app_for ws key) a then Inl (LogFatal ''rpc error:'')
     else Inr (app_for ws key, ws\<lparr>ws_stwConns := (ws_stwConns ws)(app_for ws key \<mapsto> app_for ws key)\<rparr>))"
proof -
  let ?l = "length (ws_stwServers ws)" and ?h = "app_for ws key"
  let ?n = "of_nat ?l :: u32"
  have l: "0 < ?l" "?l < 2 ^ 32" using assms by (auto simp: web_wf_def)
  have n: "unat ?n = ?l" using l(2) by (simp add: unat_of_nat take_bit_nat_eq_self)
  then have nz: "?n \<noteq> 0" using l(1) by (metis less_irrefl unat_0)
  have "uint (RequestHash key mod ?n) = int (unat (fnv32 key) mod ?l)"
    using n by (metis RequestHash_def uint_mod uint_nat zmod_int)
  then have i: "go_index (ws_stwServers ws) (uint (RequestHash key mod ?n)) = Inr ?h"
    using l(1) by (simp add: go_index_nat app_for_def)
  show ?thesis
  proof (cases "ws_stwConns ws ?h")
    case None
    then show ?thesis using nz i by (simp add: getStwConn_def Let_def)
  next
    case (Some c)
    then have "c = ?h" using assms by (simp add: web_wf_def)
    with Some have "(ws_stwConns ws)(?h \<mapsto> ?h) = ws_stwConns ws" by (simp add: fun_upd_idem)
    with Some \<open>c = ?h\<close> show ?thesis using nz i by (simp add: getStwConn_def Let_def)
  qed
qed

section \<open>What a handler leaves alone\<close>

text \<open>A handler changes nothing of the web server but its connections.\<close>

definition keeps :: "'f webServer \<Rightarrow> ('f, 'a) handled \<Rightarrow> bool" where
  "keeps ws res \<longleftrightarrow> (\<exists>conns. fst (snd (snd res)) = ws\<lparr>ws_stwConns := conns\<rparr>)"

lemma keeps_self [simp]: "keeps ws (c, rs, ws, a)"
  unfolding keeps_def by (rule exI [of _ "ws_stwConns ws"]) simp

lemma with_conn_keeps:
  assumes "\<And>h ws'. fst (snd (snd (rest h ws'))) = ws'"
  shows "keeps ws (with_conn B key rs ws a rest)"
proof (cases "getStwConn B key ws a")
  case (Inl c)
  then show ?thesis by (simp add: with_conn_def)
next
  case (Inr res)
  have "\<exists>conns. ws = ws\<lparr>ws_stwConns := conns\<rparr>" by (rule exI [of _ "ws_stwConns ws"]) simp
  with Inr have "\<exists>h conns. res = (h, ws\<lparr>ws_stwConns := conns\<rparr>)"
    by (auto simp: getStwConn_def Let_def go_bind_eq_Inr split: option.splits if_splits)
  with Inr show ?thesis using assms by (auto simp: with_conn_def keeps_def)
qed

lemma mux_keeps: "keeps ws (mux_ServeHTTP files B r rs ws a)"
  by (auto simp: mux_ServeHTTP_def usersHandler_def subscriptionHandler_def postsHandler_def timelineHandler_def
      homeHandler_def Let_def split: list.splits prod.splits sum.splits intro!: with_conn_keeps)

section \<open>Requests as operations\<close>

datatype web_op =
    WCreate string
  | WSubscribe string string
  | WUnsubscribe string string
  | WPost string string
  | WDelete string string
  | WTimeline string
  | WHome string

fun op_user :: "web_op \<Rightarrow> string" where
  "op_user (WCreate u) = u"
| "op_user (WSubscribe u v) = u"
| "op_user (WUnsubscribe u v) = u"
| "op_user (WPost u c) = u"
| "op_user (WDelete u k) = u"
| "op_user (WTimeline u) = u"
| "op_user (WHome u) = u"

text \<open>The operations that append to a list of their user, and the users whose posts an operation reads.\<close>

fun op_appends :: "web_op \<Rightarrow> bool" where
  "op_appends (WSubscribe u v) = True"
| "op_appends (WPost u c) = True"
| "op_appends (WHome u) = True"
| "op_appends _ = False"

fun op_reads :: "web_op \<Rightarrow> twitter \<Rightarrow> string set" where
  "op_reads (WTimeline u) tw = {u}"
| "op_reads (WHome u) tw = insert u (follows tw `` {u})"
| "op_reads _ tw = {}"

definition query_op :: "http_request \<Rightarrow> string \<Rightarrow> (string \<Rightarrow> string \<Rightarrow> web_op) \<Rightarrow> web_op option" where
  "query_op r key f =
     (case (query_values r ''UserID'', query_values r key) of (u # _, v # _) \<Rightarrow> Some (f u v) | _ \<Rightarrow> None)"

definition body_op :: "http_request \<Rightarrow> (PostArgs \<Rightarrow> web_op) \<Rightarrow> web_op option" where
  "body_op r f = (let (args, ok) = Decode set_PostArgs (rq_Body r) zero_PostArgs in if ok then Some (f args) else None)"

definition op_of :: "http_request \<Rightarrow> web_op option" where
  "op_of r =
     (if rq_Path r = ''/users'' \<and> rq_Method r = ''POST'' then body_op r (\<lambda>a. WCreate (pt_UserID a))
      else if rq_Path r = ''/posts'' \<and> rq_Method r = ''POST'' then body_op r (\<lambda>a. WPost (pt_UserID a) (pt_Contents a))
      else if rq_Path r = ''/posts'' \<and> rq_Method r = ''DELETE'' then query_op r ''PostKey'' WDelete
      else if rq_Path r = ''/subscriptions'' \<and> rq_Method r = ''POST'' then query_op r ''TargetUserID'' WSubscribe
      else if rq_Path r = ''/subscriptions'' \<and> rq_Method r = ''DELETE'' then query_op r ''TargetUserID'' WUnsubscribe
      else if rq_Path r = ''/timeline'' then query_op r ''UserID'' (\<lambda>u _. WTimeline u)
      else if rq_Path r = ''/home'' then query_op r ''UserID'' (\<lambda>u _. WHome u)
      else None)"

text \<open>The paths of the web server's API.\<close>

definition web_paths :: "string set" where
  "web_paths = {''/users'', ''/subscriptions'', ''/posts'', ''/timeline'', ''/home''}"

text \<open>What an operation may answer, and the state it leads to.  The web server creates the user of a post and of
  a timeline that does not exist, and lets a user who asks for the home timeline follow themselves.\<close>

definition newest :: "twitter \<Rightarrow> string set \<Rightarrow> TimelineReply \<Rightarrow> bool" where
  "newest tw us reply \<longleftrightarrow> (\<exists>ks. smallest 100 (\<lambda>k. - post_time k) (\<Union>u\<in>us. post_keys tw u) ks \<and>
     reply = \<lparr>tlr_Status = StwOK, tlr_Posts = map (post_of tw) ks\<rparr>)"

fun web_spec :: "web_op \<Rightarrow> twitter \<Rightarrow> json \<Rightarrow> twitter \<Rightarrow> bool" where
  "web_spec (WCreate u) tw j tw' \<longleftrightarrow> tw' = snd (tw_create u tw) \<and> j = json_status (fst (tw_create u tw))"
| "web_spec (WSubscribe u v) tw j tw' \<longleftrightarrow> tw' = snd (tw_subscribe u v tw) \<and> j = json_status (fst (tw_subscribe u v tw))"
| "web_spec (WUnsubscribe u v) tw j tw' \<longleftrightarrow> tw' = snd (tw_unsubscribe u v tw) \<and> j = json_status (fst (tw_unsubscribe u v tw))"
| "web_spec (WDelete u k) tw j tw' \<longleftrightarrow> tw' = snd (tw_delete u k tw) \<and> j = json_status (fst (tw_delete u k tw))"
| "web_spec (WPost u c) tw j tw' \<longleftrightarrow> (\<exists>t. tw_post t u c (snd (tw_create u tw)) = (StwOK, tw') \<and>
     j = json_PostReply \<lparr>ptr_PostKey = FormatPostKey u t, ptr_Status = StwOK\<rparr>)"
| "web_spec (WTimeline u) tw j tw' \<longleftrightarrow> tw' = snd (tw_create u tw) \<and>
     (\<exists>reply. newest tw {u} reply \<and> j = json_TimelineReply reply)"
| "web_spec (WHome u) tw j tw' \<longleftrightarrow> tw' = tw\<lparr>users := insert u (users tw), follows := insert (u, u) (follows tw)\<rparr> \<and>
     (\<exists>reply. newest tw (insert u (follows tw `` {u})) reply \<and> j = json_TimelineReply reply)"

lemma create_then [simp]:
  "posts (snd (tw_create u tw)) = posts tw" "follows (snd (tw_create u tw)) = follows tw"
  "users (snd (tw_create u tw)) = insert u (users tw)"
  by (auto simp: tw_create_def)

lemma subscribe_self:
  "snd (tw_subscribe u u (snd (tw_create u tw))) = tw\<lparr>users := insert u (users tw), follows := insert (u, u) (follows tw)\<rparr>"
proof -
  have "tw\<lparr>users := users tw\<rparr> = tw" "tw\<lparr>follows := follows tw\<rparr> = tw" by simp_all
  then show ?thesis
    by (cases "u \<in> users tw"; cases "(u, u) \<in> follows tw") (simp_all add: tw_subscribe_def tw_create_def insert_absorb)
qed

text \<open>A timeline depends on the posts alone.\<close>

lemma posts_only:
  assumes "posts tw' = posts tw"
  shows "plain_names U tw' = plain_names U tw" "post_keys tw' = post_keys tw" "post_of tw' = post_of tw"
  using assms by (simp_all add: plain_names_def post_keys_def [abs_def] post_of_def [abs_def])

section \<open>The handlers, over any backend that keeps the contract\<close>

definition served ::
  "string set \<Rightarrow> (twitter \<Rightarrow> 'a \<Rightarrow> bool) \<Rightarrow> web_op \<Rightarrow> twitter \<Rightarrow> http_response \<Rightarrow> 'f webServer \<Rightarrow> ('f, 'a) handled \<Rightarrow> bool" where
  "served hosts rep op tw rs ws res \<longleftrightarrow> (\<exists>j tw' conns a'. res = (None, http_Write (Json j) rs, ws\<lparr>ws_stwConns := conns\<rparr>, a') \<and>
     web_spec op tw j tw' \<and> rep tw' a' \<and> web_wf hosts (ws\<lparr>ws_stwConns := conns\<rparr>))"

lemma op_of_cases:
  "op_of r = Some (WCreate u) \<Longrightarrow> rq_Path r = ''/users'' \<and> rq_Method r = ''POST'' \<and>
     (\<exists>c. Decode set_PostArgs (rq_Body r) zero_PostArgs = (\<lparr>pt_UserID = u, pt_Contents = c\<rparr>, True))"
  "op_of r = Some (WPost u c) \<Longrightarrow> rq_Path r = ''/posts'' \<and> rq_Method r = ''POST'' \<and>
     Decode set_PostArgs (rq_Body r) zero_PostArgs = (\<lparr>pt_UserID = u, pt_Contents = c\<rparr>, True)"
  "op_of r = Some (WDelete u k) \<Longrightarrow> rq_Path r = ''/posts'' \<and> rq_Method r = ''DELETE'' \<and>
     (\<exists>us ks. query_values r ''UserID'' = u # us \<and> query_values r ''PostKey'' = k # ks)"
  "op_of r = Some (WSubscribe u v) \<Longrightarrow> rq_Path r = ''/subscriptions'' \<and> rq_Method r = ''POST'' \<and>
     (\<exists>us vs. query_values r ''UserID'' = u # us \<and> query_values r ''TargetUserID'' = v # vs)"
  "op_of r = Some (WUnsubscribe u v) \<Longrightarrow> rq_Path r = ''/subscriptions'' \<and> rq_Method r = ''DELETE'' \<and>
     (\<exists>us vs. query_values r ''UserID'' = u # us \<and> query_values r ''TargetUserID'' = v # vs)"
  "op_of r = Some (WTimeline u) \<Longrightarrow> rq_Path r = ''/timeline'' \<and> (\<exists>us. query_values r ''UserID'' = u # us)"
  "op_of r = Some (WHome u) \<Longrightarrow> rq_Path r = ''/home'' \<and> (\<exists>us. query_values r ''UserID'' = u # us)"
  by (auto simp: op_of_def body_op_def query_op_def split: if_splits prod.splits list.splits) (metis PostArgs.surjective old.unit.exhaust)+

context backend_contract
begin

lemma with_conn_served:
  assumes "web_wf hosts ws" and "rep tw a"
    and "\<And>h ws'. h \<in> hosts \<Longrightarrow> \<exists>j tw' a'. rest h ws' = (None, http_Write (Json j) rs, ws', a') \<and> web_spec op tw j tw' \<and> rep tw' a'"
  shows "served hosts rep op tw rs ws (with_conn B key rs ws a rest)"
proof -
  let ?h = "app_for ws key"
  let ?ws = "ws\<lparr>ws_stwConns := (ws_stwConns ws)(?h \<mapsto> ?h)\<rparr>"
  have h: "?h \<in> hosts" by (rule app_for_member [OF assms(1)])
  then have w: "with_conn B key rs ws a rest = rest ?h ?ws"
    using dials [OF assms(2)] by (simp add: with_conn_def getStwConn_result [OF assms(1)])
  have wf: "web_wf hosts ?ws" using assms(1) by (simp add: web_wf_def)
  obtain j tw' a' where "rest ?h ?ws = (None, http_Write (Json j) rs, ?ws, a')" "web_spec op tw j tw'" "rep tw' a'"
    using assms(3) [OF h] by blast
  with w wf show ?thesis unfolding served_def by metis
qed

text \<open>The calls, with their replies decoded.\<close>

lemma calls:
  assumes "rep tw a" and "h \<in> hosts"
  shows create_call: "\<exists>a'. typed as_create (be_call B h (SReqCreateUser \<lparr>cu_UserID = u\<rparr>) a) =
      (Inr \<lparr>cur_Status = fst (tw_create u tw)\<rparr>, a') \<and> rep (snd (tw_create u tw)) a' \<and> (\<forall>v. may a v \<longrightarrow> may a' v)"
    and subscribe_call: "may a u \<Longrightarrow> \<exists>a'. typed as_subscription (be_call B h (SReqSubscribe \<lparr>su_UserID = u, su_TargetUserID = v\<rparr>) a) =
      (Inr \<lparr>sur_Status = fst (tw_subscribe u v tw)\<rparr>, a') \<and> rep (snd (tw_subscribe u v tw)) a'"
    and unsubscribe_call: "\<exists>a'. typed as_subscription (be_call B h (SReqUnsubscribe \<lparr>su_UserID = u, su_TargetUserID = v\<rparr>) a) =
      (Inr \<lparr>sur_Status = fst (tw_unsubscribe u v tw)\<rparr>, a') \<and> rep (snd (tw_unsubscribe u v tw)) a'"
    and post_call: "may a u \<Longrightarrow> \<exists>t a'. typed as_post (be_call B h (SReqPost \<lparr>pt_UserID = u, pt_Contents = c\<rparr>) a) =
      (Inr \<lparr>ptr_PostKey = (if u \<in> users tw then FormatPostKey u t else []), ptr_Status = fst (tw_post t u c tw)\<rparr>, a') \<and>
      rep (snd (tw_post t u c tw)) a'"
    and delete_call: "\<exists>a'. typed as_delete (be_call B h (SReqDeletePost \<lparr>dp_UserID = u, dp_PostKey = key\<rparr>) a) =
      (Inr \<lparr>dpr_Status = fst (tw_delete u key tw)\<rparr>, a') \<and> rep (snd (tw_delete u key tw)) a'"
    and timeline_call: "plain_names {u} tw \<Longrightarrow> u \<in> users tw \<Longrightarrow>
      \<exists>a' reply. typed as_timeline (be_call B h (SReqTimeline \<lparr>tl_UserID = u\<rparr>) a) = (Inr reply, a') \<and> rep tw a' \<and>
        newest tw {u} reply"
    and home_call: "plain_names (follows tw `` {u}) tw \<Longrightarrow> u \<in> users tw \<Longrightarrow>
      \<exists>a' reply. typed as_timeline (be_call B h (SReqHomeTimeline \<lparr>tl_UserID = u\<rparr>) a) = (Inr reply, a') \<and> rep tw a' \<and>
        newest tw (follows tw `` {u}) reply"
  subgoal using create [OF assms, of u] by auto
  subgoal using subscribe [OF assms, of u v] by auto
  subgoal using unsubscribe [OF assms, of u v] by auto
  subgoal using post [OF assms, of u c] by fastforce
  subgoal using delete [OF assms, of u key] by auto
  subgoal using timeline [OF assms, of u] by (fastforce simp: newest_def)
  subgoal using home [OF assms, of u] by (fastforce simp: newest_def)
  done

lemma create_served:
  assumes "web_wf hosts ws" and "rep tw a" and "op_of r = Some (WCreate u)"
  shows "served hosts rep (WCreate u) tw rs ws (usersHandler B r rs ws a)"
proof -
  obtain c where d: "Decode set_PostArgs (rq_Body r) zero_PostArgs = (\<lparr>pt_UserID = u, pt_Contents = c\<rparr>, True)"
    and m: "rq_Method r = ''POST''" using op_of_cases(1) [OF assms(3)] by blast
  show ?thesis
    unfolding usersHandler_def m d Let_def
  proof (simp, rule with_conn_served [OF assms(1,2)])
    fix h ws' assume "h \<in> hosts"
    from create_call [OF assms(2) this, of u]
    show "\<exists>j tw' a'. (case typed as_create (be_call B h (SReqCreateUser \<lparr>cu_UserID = u\<rparr>) a) of (reply, a) \<Rightarrow>
        (None, http_Write (Json (json_status (cur_Status (or_zero \<lparr>cur_Status = StwUnset\<rparr> reply)))) rs, ws', a)) =
        (None, http_Write (Json j) rs, ws', a') \<and> web_spec (WCreate u) tw j tw' \<and> rep tw' a'"
      by (auto simp: or_zero_def)
  qed
qed

lemma subscription_served:
  assumes "web_wf hosts ws" and "rep tw a" and "op_appends op \<Longrightarrow> may a u"
    and "op = WSubscribe u v \<or> op = WUnsubscribe u v" and "op_of r = Some op"
  shows "served hosts rep op tw rs ws (subscriptionHandler B r rs ws a)"
  using assms(4)
proof
  assume op: "op = WSubscribe u v"
  then show ?thesis
    using op_of_cases(4) [of r u v] assms(5) unfolding subscriptionHandler_def Let_def
    by (auto intro!: with_conn_served [OF assms(1,2)])
      (use assms(3) op in \<open>auto dest!: subscribe_call [OF assms(2), where v = v] simp: or_zero_def\<close>)
next
  assume op: "op = WUnsubscribe u v"
  then show ?thesis
    using op_of_cases(5) [of r u v] assms(5) unfolding subscriptionHandler_def Let_def
    by (auto intro!: with_conn_served [OF assms(1,2)])
      (auto dest!: unsubscribe_call [OF assms(2), where u = u and v = v] simp: or_zero_def)
qed

lemma delete_served:
  assumes "web_wf hosts ws" and "rep tw a" and "op_of r = Some (WDelete u k)"
  shows "served hosts rep (WDelete u k) tw rs ws (postsHandler B r rs ws a)"
  using op_of_cases(3) [OF assms(3)] unfolding postsHandler_def Let_def
  by (auto intro!: with_conn_served [OF assms(1,2)])
    (auto dest!: delete_call [OF assms(2), where u = u and key = k])

lemma post_served:
  assumes "web_wf hosts ws" and "rep tw a" and "may a u" and "op_of r = Some (WPost u c)"
  shows "served hosts rep (WPost u c) tw rs ws (postsHandler B r rs ws a)"
proof -
  let ?tw = "snd (tw_create u tw)"
  have call: "\<exists>a1 t a2. typed as_create (be_call B h (SReqCreateUser \<lparr>cu_UserID = u\<rparr>) a) =
      (Inr \<lparr>cur_Status = fst (tw_create u tw)\<rparr>, a1) \<and>
      typed as_post (be_call B h (SReqPost \<lparr>pt_UserID = u, pt_Contents = c\<rparr>) a1) =
      (Inr \<lparr>ptr_PostKey = FormatPostKey u t, ptr_Status = StwOK\<rparr>, a2) \<and>
      rep (snd (tw_post t u c ?tw)) a2" if h: "h \<in> hosts" for h
  proof -
    obtain a1 where 1: "typed as_create (be_call B h (SReqCreateUser \<lparr>cu_UserID = u\<rparr>) a) =
        (Inr \<lparr>cur_Status = fst (tw_create u tw)\<rparr>, a1)" "rep ?tw a1" "may a1 u"
      using create_call [OF assms(2) h, of u] assms(3) by blast
    from post_call [OF 1(2) h 1(3), of c] 1(1) show ?thesis by (auto simp: tw_post_def)
  qed
  have "tw_post t u c ?tw = (StwOK, snd (tw_post t u c ?tw))" for t by (simp add: tw_post_def)
  then show ?thesis
    using op_of_cases(2) [OF assms(4)] unfolding postsHandler_def Let_def
    by (auto intro!: with_conn_served [OF assms(1,2)]) (auto dest!: call, blast)
qed

lemma timeline_served:
  assumes "web_wf hosts ws" and "rep tw a" and "plain_names {u} tw" and "op_of r = Some (WTimeline u)"
  shows "served hosts rep (WTimeline u) tw rs ws (timelineHandler B r rs ws a)"
proof -
  let ?tw = "snd (tw_create u tw)"
  note po = posts_only [OF create_then(1) [of u tw]]
  have call: "\<exists>a1 a2 reply. typed as_create (be_call B h (SReqCreateUser \<lparr>cu_UserID = u\<rparr>) a) =
      (Inr \<lparr>cur_Status = fst (tw_create u tw)\<rparr>, a1) \<and>
      typed as_timeline (be_call B h (SReqTimeline \<lparr>tl_UserID = u\<rparr>) a1) = (Inr reply, a2) \<and>
      rep ?tw a2 \<and> newest tw {u} reply" if h: "h \<in> hosts" for h
  proof -
    obtain a1 where 1: "typed as_create (be_call B h (SReqCreateUser \<lparr>cu_UserID = u\<rparr>) a) =
        (Inr \<lparr>cur_Status = fst (tw_create u tw)\<rparr>, a1)" "rep ?tw a1"
      using create_call [OF assms(2) h, of u] by blast
    from timeline_call [OF 1(2) h, of u] 1(1) show ?thesis using assms(3) po by (auto simp: newest_def)
  qed
  show ?thesis
    using op_of_cases(6) [OF assms(4)] unfolding timelineHandler_def Let_def
    by (auto intro!: with_conn_served [OF assms(1,2)]) (auto dest!: call, blast)
qed

lemma home_served:
  assumes "web_wf hosts ws" and "rep tw a" and "plain_names (insert u (follows tw `` {u})) tw" and "may a u" and "op_of r = Some (WHome u)"
  shows "served hosts rep (WHome u) tw rs ws (homeHandler B r rs ws a)"
proof -
  let ?tw = "snd (tw_create u tw)"
  let ?tw2 = "tw\<lparr>users := insert u (users tw), follows := insert (u, u) (follows tw)\<rparr>"
  have "posts ?tw2 = posts tw" "follows ?tw2 `` {u} = insert u (follows tw `` {u})" by auto
  note po = posts_only [OF this(1)] this(2)
  have call: "\<exists>a1 r2 a2 reply a3. typed as_create (be_call B h (SReqCreateUser \<lparr>cu_UserID = u\<rparr>) a) =
      (Inr \<lparr>cur_Status = fst (tw_create u tw)\<rparr>, a1) \<and>
      typed as_subscription (be_call B h (SReqSubscribe \<lparr>su_UserID = u, su_TargetUserID = u\<rparr>) a1) = (r2, a2) \<and>
      typed as_timeline (be_call B h (SReqHomeTimeline \<lparr>tl_UserID = u\<rparr>) a2) = (Inr reply, a3) \<and>
      rep ?tw2 a3 \<and> newest tw (insert u (follows tw `` {u})) reply" if h: "h \<in> hosts" for h
  proof -
    obtain a1 where 1: "typed as_create (be_call B h (SReqCreateUser \<lparr>cu_UserID = u\<rparr>) a) =
        (Inr \<lparr>cur_Status = fst (tw_create u tw)\<rparr>, a1)" "rep ?tw a1" "may a1 u"
      using create_call [OF assms(2) h, of u] assms(4) by blast
    obtain r2 a2 where 2: "typed as_subscription (be_call B h (SReqSubscribe \<lparr>su_UserID = u, su_TargetUserID = u\<rparr>) a1) =
        (r2, a2)" "rep ?tw2 a2"
      using subscribe_call [OF 1(2) h 1(3), of u] unfolding subscribe_self by blast
    have "plain_names (follows ?tw2 `` {u}) ?tw2" "u \<in> users ?tw2" unfolding po(4) using assms(3) po(1) by simp_all
    from home_call [OF 2(2) h this] obtain reply a3 where
      "typed as_timeline (be_call B h (SReqHomeTimeline \<lparr>tl_UserID = u\<rparr>) a2) = (Inr reply, a3)" "rep ?tw2 a3"
      "newest ?tw2 (follows ?tw2 `` {u}) reply" by blast
    with 1(1) 2(1) show ?thesis unfolding newest_def po(2-4) by blast
  qed
  show ?thesis
    using op_of_cases(7) [OF assms(5)] unfolding homeHandler_def Let_def
    by (auto intro!: with_conn_served [OF assms(1,2)]) (auto dest!: call, blast)
qed

lemma mux_serves:
  assumes "web_wf hosts ws" and "rep tw a" and "plain_names (op_reads op tw) tw" and "op_appends op \<Longrightarrow> may a (op_user op)"
    and "op_of r = Some op"
  shows "served hosts rep op tw rs ws (mux_ServeHTTP files B r rs ws a)"
proof (cases op)
  case (WCreate u)
  then show ?thesis using create_served op_of_cases(1) assms by (metis mux_ServeHTTP_def)
next
  case (WSubscribe u v)
  then show ?thesis using subscription_served [OF assms(1,2), of op u v r rs] op_of_cases(4) assms by (simp add: mux_ServeHTTP_def)
next
  case (WUnsubscribe u v)
  then show ?thesis using subscription_served [OF assms(1,2), of op u v r rs] op_of_cases(5) assms by (simp add: mux_ServeHTTP_def)
next
  case (WPost u c)
  then show ?thesis using post_served [OF assms(1,2)] op_of_cases(2) assms by (simp add: mux_ServeHTTP_def)
next
  case (WDelete u k)
  then show ?thesis using delete_served [OF assms(1,2)] op_of_cases(3) assms by (simp add: mux_ServeHTTP_def)
next
  case (WTimeline u)
  then show ?thesis using timeline_served [OF assms(1,2)] op_of_cases(6) assms by (simp add: mux_ServeHTTP_def)
next
  case (WHome u)
  then show ?thesis using home_served [OF assms(1,2)] op_of_cases(7) assms by (simp add: mux_ServeHTTP_def)
qed

text \<open>A request that stands for no operation: an unknown path or method, a body that cannot be decoded, a parameter
  that is missing.\<close>

lemma with_conn_up:
  assumes "web_wf hosts ws" and "rep tw a"
  obtains ws' where "\<And>rest. with_conn B key rs ws a rest = rest (app_for ws key) ws'" and "web_wf hosts ws'"
proof (rule that)
  let ?ws = "ws\<lparr>ws_stwConns := (ws_stwConns ws)(app_for ws key \<mapsto> app_for ws key)\<rparr>"
  show "with_conn B key rs ws a rest = rest (app_for ws key) ?ws" for rest
    using dials [OF assms(2) app_for_member [OF assms(1)]] by (simp add: with_conn_def getStwConn_result [OF assms(1)])
  show "web_wf hosts ?ws" using assms(1) by (simp add: web_wf_def)
qed

lemma mux_idle:
  assumes "web_wf hosts ws" and "rep tw a" and "op_of r = None" and "rs_Status rs = 0"
  shows "\<exists>rs' ws'. mux_ServeHTTP files B r rs ws a = (None, rs', ws', a) \<and> web_wf hosts ws' \<and>
    (rq_Path r \<in> web_paths \<longrightarrow> rs_Status rs' \<in> {0, 200, 400})"
proof -
  have echo: "rs_Status (echoHandler b rs') \<in> {0, 200, 400}" if "rs_Status rs' \<in> {0, 400}" for b rs'
    using that by (auto simp: echoHandler_def response_defs)
  have head: "rs_Status (WriteHeader StatusBadRequest rs) = 400" using assms(4) by (simp add: response_defs)
  consider "rq_Path r = ''/users''" | "rq_Path r = ''/subscriptions''" | "rq_Path r = ''/posts''"
    | "rq_Path r = ''/timeline''" | "rq_Path r = ''/home''" | "rq_Path r \<notin> web_paths"
    by (auto simp: web_paths_def)
  then show ?thesis
  proof cases
    case 1
    with assms echo head show ?thesis
      by (auto simp: mux_ServeHTTP_def usersHandler_def op_of_def body_op_def Let_def split: prod.splits if_splits)
  next
    case 2
    show ?thesis
    proof (cases "query_values r ''UserID'' = [] \<or> query_values r ''TargetUserID'' = []")
      case True
      with 2 assms(1) head show ?thesis by (auto simp: mux_ServeHTTP_def subscriptionHandler_def split: list.splits)
    next
      case False
      then obtain u us v vs where q: "query_values r ''UserID'' = u # us" "query_values r ''TargetUserID'' = v # vs"
        by (auto simp: neq_Nil_conv)
      then have m: "rq_Method r \<noteq> ''POST''" "rq_Method r \<noteq> ''DELETE''"
        using assms(3) 2 by (auto simp: op_of_def query_op_def)
      obtain ws' where conn: "\<And>rest. with_conn B u rs ws a rest = rest (app_for ws u) ws'" "web_wf hosts ws'"
        by (rule with_conn_up [OF assms(1,2), of u rs]) blast
      have "subscriptionHandler B r rs ws a =
          (None, echoHandler (rq_Body r) (if rq_Method r = ''GET'' then rs else WriteHeader StatusBadRequest rs), ws', a)"
        using m by (simp add: subscriptionHandler_def q conn(1) Let_def)
      with 2 conn(2) echo [of rs] echo [of "WriteHeader StatusBadRequest rs"] head assms(4) show ?thesis
        by (auto simp: mux_ServeHTTP_def)
    qed
  next
    case 3
    with assms echo head show ?thesis
      by (auto simp: mux_ServeHTTP_def postsHandler_def op_of_def body_op_def query_op_def Let_def split: prod.splits if_splits list.splits)
  next
    case 4
    with assms echo head show ?thesis
      by (auto simp: mux_ServeHTTP_def timelineHandler_def op_of_def query_op_def split: list.splits)
  next
    case 5
    with assms echo head show ?thesis
      by (auto simp: mux_ServeHTTP_def homeHandler_def op_of_def query_op_def split: list.splits)
  next
    case 6
    with assms(1) show ?thesis by (auto simp: mux_ServeHTTP_def web_paths_def)
  qed
qed

end

end
