(* ===== verification/App_Tier.thy ===== *)
theory App_Tier
  imports Web_Correct Cluster_Store
begin

text \<open>
  The app servers of a deployment as a backend: the servers by address, the world they share, and the calls of
  their RPC interface.  They keep the contract of the web server while their libstores keep theirs.
\<close>

section \<open>Calls of an app server\<close>

record 'w tier =
  tr_servers :: "string \<rightharpoonup> 'w stwServer"
  tr_world :: 'w
  tr_calls :: nat

text \<open>The clock of the \<open>n\<close>-th call, the sort of the standard library, and what is left of the world when an
  app server crashes in the middle of a call.\<close>

record 'w tier_env =
  te_now :: "nat \<Rightarrow> int"
  te_sort :: sort_fun
  te_crash :: "'w \<Rightarrow> 'w"

definition tier_call :: "'w tier_env \<Rightarrow> string \<Rightarrow> stw_request \<Rightarrow> 'w tier \<Rightarrow> (go_error + stw_response) \<times> 'w tier" where
  "tier_call env h req tr =
     (case tr_servers tr h of
        None \<Rightarrow> (Inl (Err ''connection is shut down''), tr)
      | Some ts \<Rightarrow>
          (case stw_serve (te_now env (tr_calls tr)) (te_sort env) req ts (tr_world tr) of
             Inl c \<Rightarrow>
               (Inl (Err ''unexpected EOF''),
                \<lparr>tr_servers = (tr_servers tr)(h := None), tr_world = te_crash env (tr_world tr), tr_calls = Suc (tr_calls tr)\<rparr>)
           | Inr (r, ts, w) \<Rightarrow>
               (r, \<lparr>tr_servers = (tr_servers tr)(h \<mapsto> ts), tr_world = w, tr_calls = Suc (tr_calls tr)\<rparr>)))"

definition tier_Backend :: "'w tier_env \<Rightarrow> 'w tier Backend" where
  "tier_Backend env = \<lparr>be_dial = (\<lambda>h tr. tr_servers tr h \<noteq> None), be_call = tier_call env\<rparr>"

section \<open>The contract\<close>

definition tier_rep ::
  "u32 list \<Rightarrow> addresses \<Rightarrow> int \<Rightarrow> (nat \<Rightarrow> cl_env) \<Rightarrow> string set \<Rightarrow> world tier_env \<Rightarrow> twitter \<Rightarrow> world tier \<Rightarrow> bool" where
  "tier_rep R N T es hosts env tw tr \<longleftrightarrow> go_sort (te_sort env) \<and> (\<forall>n. int64 (te_now env n)) \<and>
     (\<forall>h\<in>hosts. \<exists>ts. tr_servers tr h = Some ts \<and> ts_storage ts = cluster_Libstore es h) \<and>
     reached (store_inv R N T es hosts) (store_kv R N) tw (tr_world tr)"

definition tier_may :: "u32 list \<Rightarrow> addresses \<Rightarrow> world tier \<Rightarrow> string \<Rightarrow> bool" where
  "tier_may R N tr u \<longleftrightarrow>
     (\<forall>k\<in>{FormatSubListKey u, FormatPostListKey u}. appendable (store_kv R N) store_idle (tr_world tr) k)"

lemma tier_repE:
  assumes "tier_rep R N T es hosts env tw tr" and "h \<in> hosts"
  obtains ts where "tr_servers tr h = Some ts" and "ts_storage ts = cluster_Libstore es h"
    and "reached (store_inv R N T es (insert h hosts)) (store_kv R N) tw (tr_world tr)"
    and "go_sort (te_sort env)" and "int64 (te_now env (tr_calls tr))"
  using assms unfolding tier_rep_def by (metis insert_absorb)

text \<open>A call whose handler returns leaves the app servers and puts its world in place.\<close>

lemma tier_outcome:
  assumes "tier_rep R N T es hosts env tw tr" and "h \<in> hosts" and "tr_servers tr h = Some ts"
    and "stw_serve (te_now env (tr_calls tr)) (te_sort env) req ts (tr_world tr) = Inr (Inr resp, ts, w')"
    and "reached (store_inv R N T es (insert h hosts)) (store_kv R N) tw' w'"
  shows "\<exists>tr'. be_call (tier_Backend env) h req tr = (Inr resp, tr') \<and> tier_rep R N T es hosts env tw' tr' \<and> tr_world tr' = w'"
  using assms by (auto simp: tier_Backend_def tier_call_def tier_rep_def insert_absorb)

lemma tier_create:
  assumes "tier_rep R N T es hosts env tw tr" and "h \<in> hosts"
  shows "\<exists>tr'. be_call (tier_Backend env) h (SReqCreateUser \<lparr>cu_UserID = u\<rparr>) tr =
      (Inr (SRespCreateUser \<lparr>cur_Status = fst (tw_create u tw)\<rparr>), tr') \<and>
    tier_rep R N T es hosts env (snd (tw_create u tw)) tr' \<and> (\<forall>v. tier_may R N tr v \<longrightarrow> tier_may R N tr' v)"
proof (rule tier_repE [OF assms])
  fix ts assume ts: "tr_servers tr h = Some ts" "ts_storage ts = cluster_Libstore es h"
    "reached (store_inv R N T es (insert h hosts)) (store_kv R N) tw (tr_world tr)"
  obtain w' where w: "CreateUser ts \<lparr>cu_UserID = u\<rparr> (tr_world tr) = Inr (\<lparr>cur_Status = fst (tw_create u tw)\<rparr>, w')"
    "reached (store_inv R N T es (insert h hosts)) (store_kv R N) (snd (tw_create u tw)) w'"
    "\<forall>k. k \<noteq> FormatUserKey u \<longrightarrow> appendable (store_kv R N) store_idle (tr_world tr) k \<longrightarrow> appendable (store_kv R N) store_idle w' k"
    using store.CreateUser_step [OF ts(2,3), of u] by blast
  have "stw_serve (te_now env (tr_calls tr)) (te_sort env) (SReqCreateUser \<lparr>cu_UserID = u\<rparr>) ts (tr_world tr) =
      Inr (Inr (SRespCreateUser \<lparr>cur_Status = fst (tw_create u tw)\<rparr>), ts, w')"
    using w(1) by (simp add: stw_reply_def)
  from tier_outcome [OF assms ts(1) this w(2)] show ?thesis
    using w(3) by (fastforce simp: tier_may_def)
qed

text \<open>The other methods: it is enough that the handler returns and keeps the representation.\<close>

lemma tier_refines:
  assumes "tier_rep R N T es hosts env tw tr" and "h \<in> hosts"
    and "\<And>ts. \<lbrakk>ts_storage ts = cluster_Libstore es h; go_sort (te_sort env); int64 (te_now env (tr_calls tr));
          reached (store_inv R N T es (insert h hosts)) (store_kv R N) tw (tr_world tr)\<rbrakk> \<Longrightarrow>
      \<exists>w'. stw_serve (te_now env (tr_calls tr)) (te_sort env) req ts (tr_world tr) = Inr (Inr resp, ts, w') \<and>
        reached (store_inv R N T es (insert h hosts)) (store_kv R N) tw' w'"
  shows "\<exists>tr'. be_call (tier_Backend env) h req tr = (Inr resp, tr') \<and> tier_rep R N T es hosts env tw' tr'"
proof (rule tier_repE [OF assms(1,2)])
  fix ts assume ts: "tr_servers tr h = Some ts" "ts_storage ts = cluster_Libstore es h"
    "reached (store_inv R N T es (insert h hosts)) (store_kv R N) tw (tr_world tr)" "go_sort (te_sort env)"
    "int64 (te_now env (tr_calls tr))"
  obtain w' where "stw_serve (te_now env (tr_calls tr)) (te_sort env) req ts (tr_world tr) = Inr (Inr resp, ts, w')"
    "reached (store_inv R N T es (insert h hosts)) (store_kv R N) tw' w'"
    using assms(3) [OF ts(2,4,5,3)] by blast
  from tier_outcome [OF assms(1,2) ts(1) this] show ?thesis by blast
qed

lemma tier_subscribe:
  assumes "tier_rep R N T es hosts env tw tr" and "h \<in> hosts" and "tier_may R N tr u"
  shows "\<exists>tr'. be_call (tier_Backend env) h (SReqSubscribe \<lparr>su_UserID = u, su_TargetUserID = v\<rparr>) tr =
      (Inr (SRespSubscription \<lparr>sur_Status = fst (tw_subscribe u v tw)\<rparr>), tr') \<and>
    tier_rep R N T es hosts env (snd (tw_subscribe u v tw)) tr'"
proof (rule tier_refines [OF assms(1,2)])
  fix ts :: "world stwServer"
  assume ts: "ts_storage ts = cluster_Libstore es h"
    "reached (store_inv R N T es (insert h hosts)) (store_kv R N) tw (tr_world tr)"
  have "appendable (store_kv R N) store_idle (tr_world tr) (FormatSubListKey u)" using assms(3) by (simp add: tier_may_def)
  from store.Subscribe_refines [OF ts this, of v]
  show "\<exists>w'. stw_serve (te_now env (tr_calls tr)) (te_sort env) (SReqSubscribe \<lparr>su_UserID = u, su_TargetUserID = v\<rparr>) ts
      (tr_world tr) = Inr (Inr (SRespSubscription \<lparr>sur_Status = fst (tw_subscribe u v tw)\<rparr>), ts, w') \<and>
    reached (store_inv R N T es (insert h hosts)) (store_kv R N) (snd (tw_subscribe u v tw)) w'"
    by (auto simp: stw_reply_def)
qed

lemma tier_post:
  assumes "tier_rep R N T es hosts env tw tr" and "h \<in> hosts" and "tier_may R N tr u"
  shows "\<exists>tr'. be_call (tier_Backend env) h (SReqPost \<lparr>pt_UserID = u, pt_Contents = c\<rparr>) tr =
      (Inr (SRespPost \<lparr>ptr_PostKey = (if u \<in> users tw then FormatPostKey u (te_now env (tr_calls tr)) else []),
                        ptr_Status = fst (tw_post (te_now env (tr_calls tr)) u c tw)\<rparr>), tr') \<and>
    tier_rep R N T es hosts env (snd (tw_post (te_now env (tr_calls tr)) u c tw)) tr'"
proof (rule tier_refines [OF assms(1,2)])
  fix ts :: "world stwServer"
  assume ts: "ts_storage ts = cluster_Libstore es h" "int64 (te_now env (tr_calls tr))"
    "reached (store_inv R N T es (insert h hosts)) (store_kv R N) tw (tr_world tr)"
  have "appendable (store_kv R N) store_idle (tr_world tr) (FormatPostListKey u)" using assms(3) by (simp add: tier_may_def)
  from store.Post_refines [OF ts(1,3) this ts(2), of c]
  show "\<exists>w'. stw_serve (te_now env (tr_calls tr)) (te_sort env) (SReqPost \<lparr>pt_UserID = u, pt_Contents = c\<rparr>) ts
      (tr_world tr) = Inr (Inr (SRespPost \<lparr>ptr_PostKey = (if u \<in> users tw then FormatPostKey u (te_now env (tr_calls tr)) else []),
                        ptr_Status = fst (tw_post (te_now env (tr_calls tr)) u c tw)\<rparr>), ts, w') \<and>
    reached (store_inv R N T es (insert h hosts)) (store_kv R N) (snd (tw_post (te_now env (tr_calls tr)) u c tw)) w'"
    by (auto simp: stw_reply_def)
qed

lemma tier_timeline:
  assumes "tier_rep R N T es hosts env tw tr" and "h \<in> hosts" and "plain_names us tw" and "u \<in> users tw"
    and "req = SReqTimeline \<lparr>tl_UserID = u\<rparr> \<and> us = {u} \<or> req = SReqHomeTimeline \<lparr>tl_UserID = u\<rparr> \<and> us = follows tw `` {u}"
  shows "\<exists>tr' ks. be_call (tier_Backend env) h req tr =
      (Inr (SRespTimeline \<lparr>tlr_Status = StwOK, tlr_Posts = map (post_of tw) ks\<rparr>), tr') \<and>
    tier_rep R N T es hosts env tw tr' \<and> smallest 100 (\<lambda>k. - post_time k) (\<Union>v\<in>us. post_keys tw v) ks"
proof (rule tier_repE [OF assms(1,2)])
  fix ts assume ts: "tr_servers tr h = Some ts" "ts_storage ts = cluster_Libstore es h"
    "reached (store_inv R N T es (insert h hosts)) (store_kv R N) tw (tr_world tr)" "go_sort (te_sort env)"
  have "\<exists>w' ks. stw_serve (te_now env (tr_calls tr)) (te_sort env) req ts (tr_world tr) =
      Inr (Inr (SRespTimeline \<lparr>tlr_Status = StwOK, tlr_Posts = map (post_of tw) ks\<rparr>), ts, w') \<and>
    reached (store_inv R N T es (insert h hosts)) (store_kv R N) tw w' \<and>
    smallest 100 (\<lambda>k. - post_time k) (\<Union>v\<in>us. post_keys tw v) ks"
    using assms(5)
  proof
    assume "req = SReqTimeline \<lparr>tl_UserID = u\<rparr> \<and> us = {u}"
    with store.Timeline_result [OF ts(2,3) _ ts(4), of u] assms(3,4) show ?thesis
      by (fastforce simp: stw_timeline_reply_def)
  next
    assume "req = SReqHomeTimeline \<lparr>tl_UserID = u\<rparr> \<and> us = follows tw `` {u}"
    with store.HomeTimeline_result [OF ts(2,3) _ ts(4), of u] assms(3,4) show ?thesis
      by (fastforce simp: stw_timeline_reply_def)
  qed
  then obtain w' ks where w: "stw_serve (te_now env (tr_calls tr)) (te_sort env) req ts (tr_world tr) =
      Inr (Inr (SRespTimeline \<lparr>tlr_Status = StwOK, tlr_Posts = map (post_of tw) ks\<rparr>), ts, w')"
    "reached (store_inv R N T es (insert h hosts)) (store_kv R N) tw w'"
    "smallest 100 (\<lambda>k. - post_time k) (\<Union>v\<in>us. post_keys tw v) ks" by blast
  from tier_outcome [OF assms(1,2) ts(1) w(1,2)] w(3) show ?thesis by blast
qed

interpretation tier: backend_contract "tier_Backend env" hosts "tier_rep R N T es hosts env" "tier_may R N"
  for env hosts R N T es
proof (unfold_locales, goal_cases)
  case (1 tw a h)
  then show ?case by (auto simp: tier_Backend_def tier_rep_def)
next
  case (2 tw a h u)
  then show ?case by (rule tier_create)
next
  case (3 tw a h u v)
  then show ?case by (rule tier_subscribe)
next
  case (4 tw a h u v)
  show ?case
    apply (rule tier_refines [OF 4])
    subgoal premises p for ts using store.Unsubscribe_refines [OF p(1,4), of u v] by (auto simp: stw_reply_def)
    done
next
  case (5 tw a h u c)
  then show ?case using tier_post by blast
next
  case (6 tw a h u key)
  show ?case
    apply (rule tier_refines [OF 6])
    subgoal premises p for ts using store.DeletePost_refines [OF p(1,4), of u key] by (auto simp: stw_reply_def)
    done
next
  case (7 tw a h u)
  then show ?case using tier_timeline [OF 7] by simp
next
  case (8 tw a h u)
  then show ?case using tier_timeline [OF 8] by simp
qed

end
