(* ===== verification/Web_Props.thy ===== *)
theory Web_Props
  imports App_Tier Stw_Props
begin

text \<open>
  The properties of the web server and of the two client libraries, the requests running through the web server, an
  app server, its libstore and the storage servers.
\<close>

section \<open>A site\<close>

text \<open>A request that the load protection lets through to its handler.\<close>

definition admits :: "'f bloom \<Rightarrow> http_request \<Rightarrow> 'f webServer \<Rightarrow> bool" where
  "admits bl r ws \<longleftrightarrow> ''passcode'' \<in> set (rq_Cookies r) \<or>
     \<not> (ws_underHighLoad ws \<or> bl_Test bl (remoteIP r) (ws_zombieFilter ws))"

lemma wrapper_admits:
  "admits bl r ws \<Longrightarrow> ddosProtectionWrapper bl files B delta r rs ws a =
     (case mux_ServeHTTP files B r rs ws a of (None, rs, ws, a) \<Rightarrow> (None, rs, update_load delta ws, a) | c \<Rightarrow> c)"
  by (auto simp: ddosProtectionWrapper_def admits_def)

text \<open>A set is a Bloom filter without false positives.\<close>

definition set_bloom :: "string set bloom" where
  "set_bloom = \<lparr>bl_New = {}, bl_Test = (\<lambda>x F. x \<in> F), bl_Add = insert, bl_Remove = (\<lambda>x F. F - {x})\<rparr>"

definition demo_env :: "world tier_env" where
  "demo_env = \<lparr>te_now = (\<lambda>_. 100), te_sort = insertionSort, te_crash = id\<rparr>"

definition demo_site :: "(string set, world tier) site" where
  "demo_site =
     \<lparr>si_web = Some ((new_webServer set_bloom)\<lparr>ws_stwServers := [''a:1'']\<rparr>),
      si_app = \<lparr>tr_servers = [''a:1'' \<mapsto> demo_ts], tr_world = demo_world, tr_calls = 0\<rparr>, si_count = 0\<rparr>"

definition no_files :: "http_request \<Rightarrow> http_response \<Rightarrow> http_response" where
  "no_files r = http_Error ''404 page not found'' 404"

definition demo_web :: "string set webServer" where
  "demo_web = (new_webServer set_bloom)\<lparr>ws_stwServers := [''a:1'']\<rparr>"

lemma demo_site_facts [simp]:
  "si_web demo_site = Some demo_web" "web_wf {''a:1''} demo_web" "\<not> ws_underHighLoad demo_web"
  "\<not> bl_Test set_bloom ip (ws_zombieFilter demo_web)" "app_for demo_web u = ''a:1''"
  "be_dial (tier_Backend demo_env) ''a:1'' (si_app demo_site)"
  by (simp_all add: web_wf_def new_webServer_def demo_site_def set_bloom_def demo_web_def app_for_def tier_Backend_def)

lemma demo_site_rep:
  "tier_rep demo_ring demo_addresses 100 demo_clock {''a:1''} demo_env demo_tw (si_app demo_site)"
  "tier_may demo_ring demo_addresses (si_app demo_site) u"
  using demo_serves demo_ts_app demo_may_append insertion.go_sort_axioms
  by (simp_all add: tier_rep_def demo_site_def demo_env_def serves_def app_server_def tier_may_def may_append_def)

section \<open>Requests through the whole system\<close>

lemma site_serves:
  assumes "si_web s = Some ws" and "web_wf hosts ws" and "tier_rep R N T es hosts env tw (si_app s)"
    and "plain_names (op_reads op tw) tw" and "op_appends op \<Longrightarrow> tier_may R N (si_app s) (op_user op)"
    and "op_of r = Some op" and "admits bl r ws"
  obtains j tw' ws' s' where
    "serve_request bl files (tier_Backend env) lat r s = (Inr \<lparr>rs_Status = 200, rs_Body = [Json j], rs_SetCookies = []\<rparr>, s')"
    "web_spec op tw j tw'" "tier_rep R N T es hosts env tw' (si_app s')" "si_web s' = Some ws'" "web_wf hosts ws'"
    "ws_stwServers ws' = ws_stwServers ws" "ws_zombieFilter ws' = ws_zombieFilter ws"
proof -
  obtain j tw' conns a' where m: "mux_ServeHTTP files (tier_Backend env) r new_response ws (si_app s) =
      (None, http_Write (Json j) new_response, ws\<lparr>ws_stwConns := conns\<rparr>, a')"
    and t: "web_spec op tw j tw'" "tier_rep R N T es hosts env tw' a'" "web_wf hosts (ws\<lparr>ws_stwConns := conns\<rparr>)"
    using tier.mux_serves [OF assms(2-6), of new_response files] unfolding served_def by blast
  let ?ws = "update_load (lat (si_count s)) (ws\<lparr>ws_stwConns := conns\<rparr>)"
  have sv: "serve_request bl files (tier_Backend env) lat r s = (Inr \<lparr>rs_Status = 200, rs_Body = [Json j], rs_SetCookies = []\<rparr>,
      s\<lparr>si_web := Some ?ws, si_app := a', si_count := Suc (si_count s)\<rparr>)"
    using assms(1) m by (simp add: serve_request_def wrapper_admits [OF assms(7)] response_defs)
  show thesis by (rule that [OF sv t(1), where ws' = ?ws]) (use t in simp_all)
qed

lemma site_idles:
  assumes "si_web s = Some ws" and "web_wf hosts ws" and "tier_rep R N T es hosts env tw (si_app s)"
    and "op_of r = None" and "admits bl r ws"
  shows "\<exists>rs ws' s'. serve_request bl files (tier_Backend env) lat r s = (Inr rs, s') \<and> si_app s' = si_app s \<and>
    si_web s' = Some ws' \<and> web_wf hosts ws' \<and> (rq_Path r \<in> web_paths \<longrightarrow> rs_Status rs \<in> {200, 400})"
proof -
  obtain rs ws1 where m: "mux_ServeHTTP files (tier_Backend env) r new_response ws (si_app s) = (None, rs, ws1, si_app s)"
    "web_wf hosts ws1" "rq_Path r \<in> web_paths \<longrightarrow> rs_Status rs \<in> {0, 200, 400}"
    using tier.mux_idle [OF assms(2-4), of new_response files] by (auto simp: new_response_def)
  let ?ws = "update_load (lat (si_count s)) ws1"
  have "serve_request bl files (tier_Backend env) lat r s =
      (Inr (finish rs), s\<lparr>si_web := Some ?ws, si_app := si_app s, si_count := Suc (si_count s)\<rparr>)"
    using assms(1) m(1) by (simp add: serve_request_def wrapper_admits [OF assms(5)])
  moreover have "rq_Path r \<in> web_paths \<longrightarrow> rs_Status (finish rs) \<in> {200, 400}"
    using m(3) by (auto simp: finish_def response_defs)
  moreover have "web_wf hosts ?ws" using m(2) by simp
  ultimately show ?thesis by auto
qed

text \<open>C1: the web server runs (\<open>web_wf\<close>), its app servers can be reached and use one cluster of storage servers whose
  clocks stay within one lease's life (\<open>tier_rep\<close>), and the load protection admits the request (\<open>admits\<close>; C25 has
  the others).  A request that stands for an operation, which has a known path and method, a body that can be decoded
  and all parameters, is answered with status 200 and the JSON reply of the abstract
  specification, and changes what the whole system represents exactly as the specification says: it runs through the web
  server, an app server chosen by the user's hash, its libstore and the storage servers.  In particular
  \<open>GET /home\<close> returns the newest posts of all followed users and of the user themselves.  Two conditions are on the
  operation: no user with posts that a timeline looks at has a colon in the name (\<open>plain_names\<close>), and an operation that
  appends to a list does not meet an empty list that an app server has leased (\<open>tier_may\<close>).  Any other request is answered too
  and reaches no app server's data: on the paths of the API with status 400 or an empty or echoed answer of status 200.\<close>

theorem web_requests_refine:
  assumes "si_web s = Some ws" and "web_wf hosts ws" and "tier_rep R N T es hosts env tw (si_app s)"
    and "admits bl r ws"
  shows "case op_of r of
      Some op \<Rightarrow> plain_names (op_reads op tw) tw \<and> (op_appends op \<longrightarrow> tier_may R N (si_app s) (op_user op)) \<longrightarrow>
        (\<exists>j tw' ws' s'. serve_request bl files (tier_Backend env) lat r s =
            (Inr \<lparr>rs_Status = 200, rs_Body = [Json j], rs_SetCookies = []\<rparr>, s') \<and>
          web_spec op tw j tw' \<and> tier_rep R N T es hosts env tw' (si_app s') \<and> si_web s' = Some ws' \<and> web_wf hosts ws')
    | None \<Rightarrow> \<exists>rs ws' s'. serve_request bl files (tier_Backend env) lat r s = (Inr rs, s') \<and> si_app s' = si_app s \<and>
        si_web s' = Some ws' \<and> web_wf hosts ws' \<and> (rq_Path r \<in> web_paths \<longrightarrow> rs_Status rs \<in> {200, 400})"
proof (cases "op_of r")
  case None
  with site_idles [OF assms(1-3) None assms(4), of files lat] show ?thesis by simp
next
  case (Some op)
  have "\<exists>j tw' ws' s'. serve_request bl files (tier_Backend env) lat r s =
            (Inr \<lparr>rs_Status = 200, rs_Body = [Json j], rs_SetCookies = []\<rparr>, s') \<and>
          web_spec op tw j tw' \<and> tier_rep R N T es hosts env tw' (si_app s') \<and> si_web s' = Some ws' \<and> web_wf hosts ws'"
    if "plain_names (op_reads op tw) tw" "op_appends op \<longrightarrow> tier_may R N (si_app s) (op_user op)"
    by (rule site_serves [OF assms(1-3) that(1) _ Some assms(4), of files lat]) (use that(2) in blast)+
  with Some show ?thesis by simp
qed

text \<open>Alice, who follows Bob, opens her home page; and a request for a home page that does not name its user.\<close>

theorem web_requests_refine_witness:
  "(\<exists>j s'. serve_request set_bloom no_files (tier_Backend demo_env) (\<lambda>_. 5)
      \<lparr>rq_Method = ''GET'', rq_Path = ''/home'', rq_Query = [(''UserID'', ''alice'')], rq_Body = Text [], rq_Rest = Text [],
       rq_Cookies = [], rq_RemoteAddr = ''10.0.0.1:80''\<rparr> demo_site =
      (Inr \<lparr>rs_Status = 200, rs_Body = [Json j], rs_SetCookies = []\<rparr>, s') \<and>
    tier_rep demo_ring demo_addresses 100 demo_clock {''a:1''} demo_env
      (demo_tw\<lparr>users := insert ''alice'' (users demo_tw), follows := insert (''alice'', ''alice'') (follows demo_tw)\<rparr>) (si_app s')) \<and>
   (\<exists>rs s'. serve_request set_bloom no_files (tier_Backend demo_env) (\<lambda>_. 5)
      \<lparr>rq_Method = ''GET'', rq_Path = ''/home'', rq_Query = [], rq_Body = Text [], rq_Rest = Text [],
       rq_Cookies = [], rq_RemoteAddr = ''10.0.0.1:80''\<rparr> demo_site = (Inr rs, s') \<and>
    rs_Status rs \<in> {200, 400} \<and> si_app s' = si_app demo_site)"
proof -
  let ?r = "\<lambda>q. \<lparr>rq_Method = ''GET'', rq_Path = ''/home'', rq_Query = q, rq_Body = Text [], rq_Rest = Text [],
       rq_Cookies = [], rq_RemoteAddr = ''10.0.0.1:80''\<rparr>"
  have "op_of (?r [(''UserID'', ''alice'')]) = Some (WHome ''alice'')" "op_of (?r []) = None"
    by (simp_all add: op_of_def query_op_def query_values_def)
  moreover have "admits set_bloom (?r q) demo_web" for q by (simp add: admits_def)
  note web_requests_refine [OF demo_site_facts(1,2) demo_site_rep(1) this, of no_files "\<lambda>_. 5"]
  from this [of "[(''UserID'', ''alice'')]"] this [of "[]"] calculation show ?thesis
    using demo_site_rep(2) demo_plain by (fastforce simp: web_paths_def)
qed

section \<open>The clients\<close>

text \<open>A client at the address \<open>ip\<close> that the web server does not ask to solve the puzzle.\<close>

definition unhindered :: "'f bloom \<Rightarrow> string \<Rightarrow> 'f webServer \<Rightarrow> bool" where
  "unhindered bl ip ws \<longleftrightarrow> \<not> ws_underHighLoad ws \<and> \<not> bl_Test bl (hd (split_on CHR '':'' ip)) (ws_zombieFilter ws)"

lemma unhindered_admits [simp]: "unhindered bl (rq_RemoteAddr r) ws \<Longrightarrow> admits bl r ws"
  by (simp add: unhindered_def admits_def remoteIP_def)

text \<open>C13: through the HTTP client of a client that the load protection does not hinder (\<open>unhindered\<close>: no high load, and
  the client not marked), \<open>Post\<close> returns the key under which the post is stored, and \<open>Timeline\<close> and
  \<open>HomeTimeline\<close> return the very posts that the app server found: the newest hundred of the user, and of the user and
  all followed users; the JSON on the way loses nothing.  As in C1 the app servers are reachable and the storage
  clocks stay within one lease's life (\<open>tier_rep\<close>); \<open>Post\<close> and \<open>HomeTimeline\<close>, which append, meet no empty list
  of the user that is leased (\<open>tier_may\<close>); and the users whose posts a timeline reads have no colon in the name
  (\<open>plain_names\<close>).\<close>

theorem http_client_roundtrip:
  assumes "si_web s = Some ws" and "web_wf hosts ws" and "tier_rep R N T es hosts env tw (si_app s)"
    and "unhindered bl ip ws"
  shows "(tier_may R N (si_app s) u \<longrightarrow>
      (\<exists>t tw' s'. hc_Post (site_net bl files (tier_Backend env) lat ip) tc u c s =
        Inr (((FormatPostKey u t, status_code StwOK), None), s') \<and>
      tw_post t u c (snd (tw_create u tw)) = (StwOK, tw') \<and> tier_rep R N T es hosts env tw' (si_app s'))) \<and>
    (plain_names {u} tw \<longrightarrow>
      (\<exists>reply s'. hc_Timeline (site_net bl files (tier_Backend env) lat ip) tc u s =
        Inr (Inr (status_code StwOK, tlr_Posts reply), s') \<and> newest tw {u} reply)) \<and>
    (tier_may R N (si_app s) u \<and> plain_names (insert u (follows tw `` {u})) tw \<longrightarrow>
      (\<exists>reply s'. hc_HomeTimeline (site_net bl files (tier_Backend env) lat ip) tc u s =
        Inr (Inr (status_code StwOK, tlr_Posts reply), s') \<and> newest tw (insert u (follows tw `` {u})) reply))"
proof (intro conjI impI)
  let ?r = "\<lambda>m p q b. \<lparr>rq_Method = m, rq_Path = p, rq_Query = q, rq_Body = b, rq_Rest = Text [], rq_Cookies = [],
      rq_RemoteAddr = ip\<rparr>"
  have adm: "admits bl (?r m p q b) ws" for m p q b using assms(4) by simp
  have serves: "\<exists>j tw' s'. serve_request bl files (tier_Backend env) lat (?r m p q b) s =
      (Inr \<lparr>rs_Status = 200, rs_Body = [Json j], rs_SetCookies = []\<rparr>, s') \<and> web_spec op tw j tw' \<and>
      tier_rep R N T es hosts env tw' (si_app s')" if "op_of (?r m p q b) = Some op"
      "plain_names (op_reads op tw) tw" "op_appends op \<Longrightarrow> tier_may R N (si_app s) (op_user op)" for m p q b op
    by (rule site_serves [OF assms(1-3) that(2,3,1) adm, of files lat]) auto
  show "\<exists>t tw' s'. hc_Post (site_net bl files (tier_Backend env) lat ip) tc u c s =
        Inr (((FormatPostKey u t, status_code StwOK), None), s') \<and>
      tw_post t u c (snd (tw_create u tw)) = (StwOK, tw') \<and> tier_rep R N T es hosts env tw' (si_app s')"
    if "tier_may R N (si_app s) u"
    using that serves [of "''POST''" "''/posts''" "[]" "Json (json_PostArgs \<lparr>pt_UserID = u, pt_Contents = c\<rparr>)" "WPost u c"]
    by (auto simp: op_of_def body_op_def hc_Post_def plain_names_def) blast
  show "\<exists>reply s'. hc_Timeline (site_net bl files (tier_Backend env) lat ip) tc u s =
        Inr (Inr (status_code StwOK, tlr_Posts reply), s') \<and> newest tw {u} reply"
    if pn: "plain_names {u} tw"
  proof -
    obtain reply s' where sv: "serve_request bl files (tier_Backend env) lat (?r ''GET'' ''/timeline'' [(''UserID'', u)] (Text [])) s =
        (Inr \<lparr>rs_Status = 200, rs_Body = [Json (json_TimelineReply reply)], rs_SetCookies = []\<rparr>, s')" "newest tw {u} reply"
      using pn serves [of "''GET''" "''/timeline''" "[(''UserID'', u)]" "Text []" "WTimeline u"]
      by (auto simp: op_of_def query_op_def query_values_def)
    then have "tlr_Status reply = StwOK" by (auto simp: newest_def)
    with sv show ?thesis by (auto simp: hc_Timeline_def of_response_def)
  qed
  show "\<exists>reply s'. hc_HomeTimeline (site_net bl files (tier_Backend env) lat ip) tc u s =
        Inr (Inr (status_code StwOK, tlr_Posts reply), s') \<and> newest tw (insert u (follows tw `` {u})) reply"
    if pn: "tier_may R N (si_app s) u \<and> plain_names (insert u (follows tw `` {u})) tw"
  proof -
    obtain reply s' where sv: "serve_request bl files (tier_Backend env) lat (?r ''GET'' ''/home'' [(''UserID'', u)] (Text [])) s =
        (Inr \<lparr>rs_Status = 200, rs_Body = [Json (json_TimelineReply reply)], rs_SetCookies = []\<rparr>, s')" "newest tw (insert u (follows tw `` {u})) reply"
      using pn serves [of "''GET''" "''/home''" "[(''UserID'', u)]" "Text []" "WHome u"]
      by (auto simp: op_of_def query_op_def query_values_def)
    then have "tlr_Status reply = StwOK" by (auto simp: newest_def)
    with sv show ?thesis by (auto simp: hc_HomeTimeline_def of_response_def)
  qed
qed

theorem http_client_roundtrip_witness:
  "(\<exists>t s'. hc_Post (site_net set_bloom no_files (tier_Backend demo_env) (\<lambda>_. 5) ''10.0.0.1:80'')
     (NewHttpClient ''localhost'' 80) ''alice'' ''hi'' demo_site = Inr (((FormatPostKey ''alice'' t, 1), None), s')) \<and>
   (\<exists>reply s'. hc_HomeTimeline (site_net set_bloom no_files (tier_Backend demo_env) (\<lambda>_. 5) ''10.0.0.1:80'')
     (NewHttpClient ''localhost'' 80) ''alice'' demo_site = Inr (Inr (1, tlr_Posts reply), s') \<and>
     newest demo_tw {''alice'', ''bob''} reply)"
proof -
  have "insert ''alice'' (follows demo_tw `` {''alice''}) = {''alice'', ''bob''}" by (auto simp: demo_tw_def)
  then show ?thesis
    using http_client_roundtrip [OF demo_site_facts(1,2) demo_site_rep(1),
      where bl = set_bloom and ip = "''10.0.0.1:80''" and files = no_files and lat = "\<lambda>_. 5"
        and tc = "NewHttpClient ''localhost'' 80" and c = "''hi''" and u = "''alice''"] demo_site_rep(2) demo_plain
    by (auto simp: unhindered_def)
qed

text \<open>C37: \<open>DeletePost\<close> of the HTTP client never deletes anything: it sends the user and the key in the body, the web
  server looks for them in the query, and whatever the web server answers, the call returns an error and no app
  server is called.\<close>

theorem http_client_never_deletes:
  assumes "si_web s = Some ws"
  shows "\<exists>s'. hc_DeletePost (site_net bl files B lat ip) tc u key s = Inr (Inl (Err ''json''), s') \<and> si_app s' = si_app s"
  using assms
  by (auto simp: hc_DeletePost_def of_response_def serve_request_def ddosProtectionWrapper_def servePuzzle_def
      mux_ServeHTTP_def postsHandler_def query_values_def response_defs Let_def)

theorem http_client_never_deletes_witness:
  "\<exists>s'. hc_DeletePost (site_net set_bloom no_files (tier_Backend demo_env) (\<lambda>_. 5) ''10.0.0.1:80'')
     (NewHttpClient ''localhost'' 80) ''bob'' (FormatPostKey ''bob'' 1) demo_site = Inr (Inl (Err ''json''), s') \<and>
     si_app s' = si_app demo_site"
  using http_client_never_deletes [OF demo_site_facts(1)] .

text \<open>What the HTTP client makes of an answer of the app server: an error of the call is reported as status
  \<open>0\<close> without an error.\<close>

definition seen_status :: "go_error + StwStatus \<Rightarrow> int" where
  "seen_status r = (case r of Inl _ \<Rightarrow> 0 | Inr st \<Rightarrow> status_code st)"

lemma with_conn_dialled:
  assumes "web_wf hosts ws" and "be_dial B (app_for ws key) a"
  shows "with_conn B key rs ws a rest = rest (app_for ws key) (ws\<lparr>ws_stwConns := (ws_stwConns ws)(app_for ws key \<mapsto> app_for ws key)\<rparr>)"
  using assms by (simp add: with_conn_def getStwConn_result [OF assms(1)])

text \<open>C14: when the load protection does not hinder the client (\<open>unhindered\<close>; otherwise C25) and the web server can dial the
  app server to which the hash of the user's name assigns the user (otherwise C38), then for \<open>CreateUser\<close>,
  \<open>Subscribe\<close> and \<open>Unsubscribe\<close> the HTTP client does to the app servers what an RPC client connected to that same
  server does, whatever the server holds and answers, and returns the same status;
  only an error of the call is not passed on: it becomes status \<open>0\<close>.\<close>

theorem clients_agree:
  assumes "si_web s = Some ws" and "web_wf hosts ws" and "unhindered bl ip ws" and "be_dial B (app_for ws u) (si_app s)"
    and "rc = \<lparr>sc_client = app_for ws u, sc_closed = False\<rparr>" and "net = site_net bl files B lat ip"
  shows "(\<exists>s'. hc_CreateUser net tc u s = Inr (Inr (seen_status (fst (sc_CreateUser B rc u (si_app s)))), s') \<and>
      si_app s' = snd (sc_CreateUser B rc u (si_app s))) \<and>
    (\<exists>s'. hc_Subscribe net tc u v s = Inr (Inr (seen_status (fst (sc_Subscribe B rc u v (si_app s)))), s') \<and>
      si_app s' = snd (sc_Subscribe B rc u v (si_app s))) \<and>
    (\<exists>s'. hc_Unsubscribe net tc u v s = Inr (Inr (seen_status (fst (sc_Unsubscribe B rc u v (si_app s)))), s') \<and>
      si_app s' = snd (sc_Unsubscribe B rc u v (si_app s)))"
proof -
  let ?r = "\<lambda>m p q b. \<lparr>rq_Method = m, rq_Path = p, rq_Query = q, rq_Body = b, rq_Rest = Text [], rq_Cookies = [],
      rq_RemoteAddr = ip\<rparr>"
  have adm: "admits bl (?r m p q b) ws" for m p q b using assms(3) by simp
  note conn = with_conn_dialled [OF assms(2,4)]
  show ?thesis
    unfolding assms(5,6) hc_CreateUser_def hc_Subscribe_def hc_Unsubscribe_def hc_doSub_def http_send_site
      sc_CreateUser_def sc_Subscribe_def sc_Unsubscribe_def sc_doSub_def client_Call_def of_reply_def of_response_def
    using assms(1)
    by (auto simp: serve_request_def wrapper_admits [OF adm] mux_ServeHTTP_def usersHandler_def subscriptionHandler_def
        query_values_def conn response_defs seen_status_def or_zero_def Let_def split: prod.split sum.split)
qed

theorem clients_agree_witness:
  "\<exists>s'. hc_Subscribe (site_net set_bloom no_files (tier_Backend demo_env) (\<lambda>_. 5) ''10.0.0.1:80'')
     (NewHttpClient ''localhost'' 80) ''bob'' ''alice'' demo_site =
     Inr (Inr (seen_status (fst (sc_Subscribe (tier_Backend demo_env) \<lparr>sc_client = ''a:1'', sc_closed = False\<rparr>
       ''bob'' ''alice'' (si_app demo_site)))), s')"
  using clients_agree [OF demo_site_facts(1,2), where B = "tier_Backend demo_env" and u = "''bob''" and v = "''alice''"
      and bl = set_bloom and ip = "''10.0.0.1:80''" and rc = "\<lparr>sc_client = ''a:1'', sc_closed = False\<rparr>"
      and files = no_files and lat = "\<lambda>_. 5" and tc = "NewHttpClient ''localhost'' 80", OF _ _ _ refl]
  by (auto simp: unhindered_def)

section \<open>Load\<close>

text \<open>The site after a sequence of requests.\<close>

definition serve_all ::
  "'f bloom \<Rightarrow> (http_request \<Rightarrow> http_response \<Rightarrow> http_response) \<Rightarrow> 'a Backend \<Rightarrow> (nat \<Rightarrow> int) \<Rightarrow> http_request list
     \<Rightarrow> ('f, 'a) site \<Rightarrow> ('f, 'a) site" where
  "serve_all bl files B lat rs s = fold (\<lambda>r s. snd (serve_request bl files B lat r s)) rs s"

text \<open>The load of the web server, unless its process has ended.\<close>

definition site_load :: "('f, 'a) site \<Rightarrow> (bool \<times> real) option" where
  "site_load s = map_option (\<lambda>ws. (ws_underHighLoad ws, ws_avgLatency ws)) (si_web s)"

lemma servePuzzle_load:
  assumes "servePuzzle bl files B r rs ws a = (c, rs', ws', a')"
  shows "ws_underHighLoad ws' = ws_underHighLoad ws" and "ws_avgLatency ws' = ws_avgLatency ws"
proof -
  have mux: "ws_underHighLoad ws' = ws_underHighLoad ws0 \<and> ws_avgLatency ws' = ws_avgLatency ws0"
    if "mux_ServeHTTP files B r rs0 ws0 a = (c, rs', ws', a')" for rs0 ws0
    using mux_keeps [of ws0 files B r rs0 a] that by (auto simp: keeps_def)
  show "ws_underHighLoad ws' = ws_underHighLoad ws" "ws_avgLatency ws' = ws_avgLatency ws"
    using assms by (auto simp: servePuzzle_def Let_def split: if_splits dest!: mux)
qed

lemma busy_without_passcode:
  assumes "site_load s = Some (True, avg)" and "''passcode'' \<notin> set (rq_Cookies r)"
  shows "site_load (snd (serve_request bl files B lat r s)) \<in> {None, Some (True, avg)}"
proof -
  obtain ws where ws: "si_web s = Some ws" "ws_underHighLoad ws" "ws_avgLatency ws = avg"
    using assms(1) by (auto simp: site_load_def)
  obtain c rs ws' a where p: "servePuzzle bl files B r new_response ws (si_app s) = (c, rs, ws', a)"
    by (metis prod_cases4)
  with ws assms(2) servePuzzle_load [OF p] show ?thesis
    by (auto simp: serve_request_def ddosProtectionWrapper_def site_load_def split: option.split crash.split)
qed

lemma busy_sequence:
  assumes "site_load s \<in> {None, Some (True, avg)}" and "\<forall>r\<in>set rs. ''passcode'' \<notin> set (rq_Cookies r)"
  shows "site_load (serve_all bl files B lat rs s) \<in> {None, Some (True, avg)}"
  using assms
proof (induction rs arbitrary: s)
  case (Cons r rs)
  have "site_load (snd (serve_request bl files B lat r s)) \<in> {None, Some (True, avg)}"
  proof (cases "site_load s")
    case None
    then show ?thesis by (simp add: site_load_def serve_request_def)
  next
    case (Some l)
    then show ?thesis using busy_without_passcode [of s avg r] Cons.prems by auto
  qed
  from Cons.IH [OF this] Cons.prems(2) show ?case by (simp add: serve_all_def)
qed (simp add: serve_all_def)

text \<open>C25: while the web server is under high load, or for a client it has marked, a request without the passcode
  cookie never reaches an app server unless it is a \<open>POST\<close>: a \<open>GET\<close> is answered with the puzzle page and marks the
  client, and any other request, such as the deletion of a post, is dropped with an empty answer of status 200.
  High load is never left by requests without the cookie, however many there are and however long they take.\<close>

theorem puzzle_shields_app_servers:
  assumes "si_web s = Some ws" and "\<not> admits bl r ws" and "rq_Method r \<noteq> ''POST''"
  shows "(\<exists>rs ws' s'. serve_request bl files B lat r s = (Inr rs, s') \<and> rs_Status rs = 200 \<and> si_app s' = si_app s \<and>
      si_web s' = Some ws' \<and>
      (if rq_Method r = ''GET'' then rs_Body rs = [Text puzzle_page] \<and>
          ws_zombieFilter ws' = bl_Add bl (remoteIP r) (ws_zombieFilter ws)
       else rs_Body rs = [] \<and> ws' = ws)) \<and>
    (ws_underHighLoad ws \<and> (\<forall>r\<in>set rs. ''passcode'' \<notin> set (rq_Cookies r)) \<longrightarrow>
      site_load (serve_all bl files B lat rs s) \<in> {None, Some (True, ws_avgLatency ws)})"
proof
  show "\<exists>rs ws' s'. serve_request bl files B lat r s = (Inr rs, s') \<and> rs_Status rs = 200 \<and> si_app s' = si_app s \<and>
      si_web s' = Some ws' \<and>
      (if rq_Method r = ''GET'' then rs_Body rs = [Text puzzle_page] \<and>
          ws_zombieFilter ws' = bl_Add bl (remoteIP r) (ws_zombieFilter ws)
       else rs_Body rs = [] \<and> ws' = ws)"
    using assms
    by (auto simp: serve_request_def ddosProtectionWrapper_def admits_def servePuzzle_def response_defs Let_def)
  show "ws_underHighLoad ws \<and> (\<forall>r\<in>set rs. ''passcode'' \<notin> set (rq_Cookies r)) \<longrightarrow>
      site_load (serve_all bl files B lat rs s) \<in> {None, Some (True, ws_avgLatency ws)}"
    using busy_sequence [of s "ws_avgLatency ws" rs] assms(1) by (simp add: site_load_def)
qed

definition busy_site :: "(string set, world tier) site" where
  "busy_site = demo_site\<lparr>si_web := Some (demo_web\<lparr>ws_underHighLoad := True\<rparr>)\<rparr>"

theorem puzzle_shields_app_servers_witness:
  "\<exists>rs s'. serve_request set_bloom no_files (tier_Backend demo_env) (\<lambda>_. 5)
     \<lparr>rq_Method = ''DELETE'', rq_Path = ''/posts'', rq_Query = [(''UserID'', ''bob''), (''PostKey'', FormatPostKey ''bob'' 1)],
      rq_Body = Text [], rq_Rest = Text [], rq_Cookies = [], rq_RemoteAddr = ''10.0.0.1:80''\<rparr> busy_site = (Inr rs, s') \<and>
     rs_Status rs = 200 \<and> rs_Body rs = [] \<and> si_app s' = si_app demo_site"
  using puzzle_shields_app_servers [where s = busy_site and ws = "demo_web\<lparr>ws_underHighLoad := True\<rparr>" and bl = set_bloom
      and files = no_files and B = "tier_Backend demo_env" and lat = "\<lambda>_. 5" and r = "\<lparr>rq_Method = ''DELETE'',
      rq_Path = ''/posts'', rq_Query = [(''UserID'', ''bob''), (''PostKey'', FormatPostKey ''bob'' 1)],
      rq_Body = Text [], rq_Rest = Text [], rq_Cookies = [], rq_RemoteAddr = ''10.0.0.1:80''\<rparr>"]
  by (fastforce simp: busy_site_def admits_def)

text \<open>C26: the average latency is bounded by the slowest request and forgets the past at a fixed rate: after \<open>n\<close>
  requests that take at most \<open>d\<close> nanoseconds each, it is at most \<open>0.9\<^sup>n\<close> of what it was plus \<open>d\<close>.  So high load ends
  after enough requests with the passcode that take less than 20 milliseconds.\<close>

theorem average_latency_recovers:
  assumes "\<forall>x\<in>set xs. real_of_int x \<le> d" and "0 \<le> d" and "0 \<le> ws_avgLatency ws"
  shows "ws_avgLatency (fold update_load xs ws) \<le> (9 / 10) ^ length xs * ws_avgLatency ws + d \<and>
    (xs \<noteq> [] \<longrightarrow> (9 / 10) ^ length xs * ws_avgLatency ws + d < 20000000 \<longrightarrow> \<not> ws_underHighLoad (fold update_load xs ws))"
proof -
  let ?q = "9 / 10 :: real"
  have avg: "ws_avgLatency (fold update_load xs ws) \<le> ?q ^ length xs * ws_avgLatency ws + (1 - ?q ^ length xs) * d"
    if "\<forall>x\<in>set xs. real_of_int x \<le> d" for xs and ws :: "'f webServer"
    using that
  proof (induction xs arbitrary: ws)
    case (Cons x xs)
    have "ws_avgLatency (update_load x ws) \<le> ?q * ws_avgLatency ws + 1 / 10 * d"
      using Cons.prems by (simp add: update_load_def Let_def)
    then have "?q ^ length xs * ws_avgLatency (update_load x ws) \<le> ?q ^ length xs * (?q * ws_avgLatency ws + 1 / 10 * d)"
      by (intro mult_left_mono) auto
    with Cons.IH [of "update_load x ws"] Cons.prems show ?case by (simp add: algebra_simps)
  qed simp
  have "(1 - ?q ^ length xs) * d \<le> 1 * d" using assms(2) by (intro mult_right_mono) auto
  with avg [OF assms(1), of ws] have bound: "ws_avgLatency (fold update_load xs ws) \<le> ?q ^ length xs * ws_avgLatency ws + d"
    by simp
  have "ws_underHighLoad (fold update_load xs ws) \<longleftrightarrow> 20000000 \<le> ws_avgLatency (fold update_load xs ws)" if "xs \<noteq> []"
    using that by (cases xs rule: rev_cases) (simp_all add: update_load_def Let_def)
  with bound show ?thesis by auto
qed

theorem average_latency_recovers_witness:
  "\<not> ws_underHighLoad (fold update_load [5, 5] (demo_web\<lparr>ws_underHighLoad := True, ws_avgLatency := 20000000\<rparr>))"
  using average_latency_recovers [of "[5, 5]" 5 "demo_web\<lparr>ws_underHighLoad := True, ws_avgLatency := 20000000\<rparr>"] by simp

section \<open>Failures and start\<close>

text \<open>C38: one app server that cannot be reached takes the web server down: the first request of one of its users
  ends the process, and every later request, of any user, is refused.\<close>

theorem unreachable_app_server_ends_web_server:
  assumes "si_web s = Some ws" and "web_wf hosts ws" and "unhindered bl ip ws"
    and "ws_stwConns ws (app_for ws u) = None" and "\<not> be_dial B (app_for ws u) (si_app s)" and "net = site_net bl files B lat ip"
  shows "\<exists>s'. hc_CreateUser net tc u s = Inr (Inl (Err ''EOF''), s') \<and> si_web s' = None \<and> si_app s' = si_app s \<and>
    (\<forall>v. hc_HomeTimeline net tc v s' = Inr (Inl (Err ''connection refused''), s'))"
proof -
  have "getStwConn B u ws (si_app s) = Inl (LogFatal ''rpc error:'')"
    using assms(4,5) by (simp add: getStwConn_result [OF assms(2)])
  with assms(1,3) show ?thesis
    unfolding assms(6)
    by (simp add: hc_CreateUser_def hc_HomeTimeline_def of_response_def serve_request_def wrapper_admits mux_ServeHTTP_def
        usersHandler_def with_conn_def)
qed

theorem unreachable_app_server_ends_web_server_witness:
  "\<exists>s'. hc_CreateUser (site_net set_bloom no_files (tier_Backend demo_env) (\<lambda>_. 5) ''10.0.0.1:80'')
     (NewHttpClient ''localhost'' 80) ''bob''
     (demo_site\<lparr>si_app := (si_app demo_site)\<lparr>tr_servers := Map.empty\<rparr>\<rparr>) = Inr (Inl (Err ''EOF''), s') \<and> si_web s' = None"
proof -
  have "ws_stwConns demo_web (app_for demo_web ''bob'') = None" by (simp add: demo_web_def new_webServer_def)
  then show ?thesis
    using unreachable_app_server_ends_web_server [where s = "demo_site\<lparr>si_app := (si_app demo_site)\<lparr>tr_servers := Map.empty\<rparr>\<rparr>"
        and ws = demo_web and hosts = "{''a:1''}" and bl = set_bloom and ip = "''10.0.0.1:80''" and u = "''bob''"
        and B = "tier_Backend demo_env" and files = no_files and lat = "\<lambda>_. 5" and tc = "NewHttpClient ''localhost'' 80", OF _ _ _ _ _ refl]
    by (auto simp: unhindered_def tier_Backend_def)
qed

lemma await_apps_waits:
  assumes "\<forall>i<n. \<exists>r. call i = Inr r \<and> sgs_Status r \<noteq> StwOK" and "n \<le> 5"
  shows "await_apps call 0 = await_apps call n"
  using assms
proof (induction n)
  case (Suc n)
  then obtain r where "call n = Inr r" "sgs_Status r \<noteq> StwOK" by blast
  then have "await_apps call n = await_apps call (Suc n)" using Suc.prems(2) by (subst await_apps.simps) simp
  with Suc show ?case by simp
qed simp

text \<open>C24: a web server that reaches the master app server asks it at most five times.  It fails when the master is
  not ready at all five, and otherwise starts with the master's addresses.  A web server that is started without a
  master knows no app server, and every request for a user panics.\<close>

theorem new_web_server_learns_servers:
  assumes "\<forall>i<n. \<exists>r. call i = Inr r \<and> sgs_Status r \<noteq> StwOK" and "n \<le> 5"
    and "n < 5 \<longrightarrow> call n = Inr (stw_GetServers ts) \<and> ts_numNodes ts \<le> int (length (ts_nodes ts))"
  shows "(master \<noteq> [] \<longrightarrow> NewWebServer bl None call master =
      Inr (if n = 5 then Inl (Err ''Timeout when waiting Appserver ready.'')
           else Inr ((new_webServer bl)\<lparr>ws_stwServers := ts_nodes ts\<rparr>))) \<and>
    (\<exists>ws. NewWebServer bl None call [] = Inr (Inr ws) \<and> (\<forall>B u a. getStwConn B u ws a = Inl DivideByZero))"
proof (intro conjI impI)
  assume m: "master \<noteq> []"
  show "NewWebServer bl None call master = Inr (if n = 5 then Inl (Err ''Timeout when waiting Appserver ready.'')
      else Inr ((new_webServer bl)\<lparr>ws_stwServers := ts_nodes ts\<rparr>))"
  proof (cases "n = 5")
    case True
    have "await_apps call 5 = Inr (Inl (Err ''Timeout when waiting Appserver ready.''))" by (subst await_apps.simps) simp
    with True m await_apps_waits [OF assms(1,2)] show ?thesis by (simp add: NewWebServer_def)
  next
    case False
    then have "call n = Inr (stw_GetServers ts)" "ts_numNodes ts \<le> int (length (ts_nodes ts))" using assms(2,3) by auto
    then have "await_apps call n = Inr (Inr (ts_nodes ts))"
      using False assms(2) by (subst await_apps.simps) (simp add: stw_GetServers_def stw_servers_def comp_def)
    with False m await_apps_waits [OF assms(1,2)] show ?thesis by (simp add: NewWebServer_def)
  qed
qed (simp add: NewWebServer_def getStwConn_def new_webServer_def)

theorem new_web_server_learns_servers_witness:
  "NewWebServer set_bloom None (\<lambda>i. Inr (if i < 2 then \<lparr>sgs_Status = StwNotReady, sgs_Servers = []\<rparr> else stw_GetServers demo_ts))
     ''a:1'' = Inr (Inr demo_web)"
  using new_web_server_learns_servers [where n = 2 and ts = demo_ts and bl = set_bloom and master = "''a:1''"
      and call = "\<lambda>i. Inr (if i < 2 then \<lparr>sgs_Status = StwNotReady, sgs_Servers = []\<rparr> else stw_GetServers demo_ts)"]
  by (auto simp: demo_web_def demo_ts_def)

end
