(* ===== verification/Runners.thy ===== *)
theory Runners
  imports Web_Server Storage_Server Libstore
begin

section \<open>The programs\<close>

text \<open>
  The \<open>main\<close> functions under \<open>runners/\<close>.  The values of the flags are a record, with the remaining arguments
  where the program uses them.  A server that was created runs until the process is stopped, so that its
  \<open>main\<close> gives the server; \<open>None\<close> stands for a constructor that does not return.  A usage message that ends
  the process is the value \<open>Usage\<close>, a call of \<open>log.Fatalln\<close> a crash.
\<close>

subsection \<open>rlibstore\<close>

record rlibstore_flags =
  rl_forceLease :: bool
  rl_serverAddress :: string
  rl_port :: int
  rl_numTimes :: int
  rl_handleLeases :: bool
  rl_args :: "string list"

text \<open>\<open>flag.Arg\<close> gives the empty string for an argument that is not there.\<close>

definition flag_Arg :: "rlibstore_flags \<Rightarrow> nat \<Rightarrow> string" where
  "flag_Arg fl i = (if i < length (rl_args fl) then rl_args fl ! i else [])"

record cmdInfo =
  ci_cmdline :: string
  ci_nargs :: nat

definition cmdList :: "string \<rightharpoonup> nat" where
  "cmdList = [''p'' \<mapsto> 2, ''g'' \<mapsto> 1, ''la'' \<mapsto> 2, ''lr'' \<mapsto> 2, ''lg'' \<mapsto> 1]"

definition cmdmap :: "string \<rightharpoonup> cmdInfo" where
  "cmdmap k = map_option (\<lambda>v. \<lparr>ci_cmdline = k, ci_nargs = v\<rparr>) (cmdList k)"

text \<open>What the process prints.\<close>

datatype printed = Usage | Lines "string list"

definition error_line :: "go_error \<Rightarrow> string" where
  "error_line err = (case err of Err msg \<Rightarrow> ''ERROR: '' @ msg)"

definition rl_leaseMode :: "rlibstore_flags \<Rightarrow> string \<Rightarrow> LeaseMode" where
  "rl_leaseMode fl leaseCallbackAddr =
     (if rl_handleLeases fl \<and> rl_forceLease fl then Always
      else if leaseCallbackAddr = [] then Never
      else Normal)"

text \<open>The body of the loop: one command.\<close>

definition write_line :: "(go_error option \<times> 'w) go \<Rightarrow> (string list \<times> 'w) go" where
  "write_line m = go_bind m (\<lambda>(err, w). Inr ([case err of None \<Rightarrow> ''OK'' | Some e \<Rightarrow> error_line e], w))"

definition rl_command :: "'w Libstore \<Rightarrow> rlibstore_flags \<Rightarrow> 'w \<Rightarrow> (string list \<times> 'w) go" where
  "rl_command ls fl w =
     (let cmd = flag_Arg fl 0 in
      if cmd = ''g'' then
        go_bind (lib_Get ls (flag_Arg fl 1) w) (\<lambda>(r, w).
          Inr ([case r of Inl err \<Rightarrow> error_line err | Inr val \<Rightarrow> val], w))
      else if cmd = ''lg'' then
        go_bind (lib_GetList ls (flag_Arg fl 1) w) (\<lambda>(r, w).
          Inr (case r of Inl err \<Rightarrow> [error_line err] | Inr vals \<Rightarrow> vals, w))
      else if cmd = ''p'' then write_line (lib_Put ls (flag_Arg fl 1) (flag_Arg fl 2) w)
      else if cmd = ''la'' then write_line (lib_AppendToList ls (flag_Arg fl 1) (flag_Arg fl 2) w)
      else if cmd = ''lr'' then write_line (lib_RemoveFromList ls (flag_Arg fl 1) (flag_Arg fl 2) w)
      else Inr ([], w))"

fun rl_loop :: "'w Libstore \<Rightarrow> rlibstore_flags \<Rightarrow> nat \<Rightarrow> 'w \<Rightarrow> (string list \<times> 'w) go" where
  "rl_loop ls fl 0 w = Inr ([], w)"
| "rl_loop ls fl (Suc n) w =
     go_bind (rl_command ls fl w) (\<lambda>(out, w).
     go_bind (rl_loop ls fl n w) (\<lambda>(outs, w). Inr (out @ outs, w)))"

text \<open>\<open>listen\<close> is the outcome of \<open>net.Listen\<close>, with the port; \<open>new\<close> is \<open>NewLibstore\<close>, whose arguments are the
  master, the address for callbacks and the mode.\<close>

definition rlibstore_main ::
  "go_error + string \<Rightarrow> (string \<Rightarrow> string \<Rightarrow> LeaseMode \<Rightarrow> (go_error + 'w Libstore) go) \<Rightarrow> rlibstore_flags \<Rightarrow> 'w
     \<Rightarrow> (printed \<times> 'w) go" where
  "rlibstore_main listen new fl w =
     (if length (rl_args fl) < 2 then Inr (Usage, w)
      else
        case cmdmap (flag_Arg fl 0) of
          None \<Rightarrow> Inr (Usage, w)
        | Some ci \<Rightarrow>
            if length (rl_args fl) < ci_nargs ci + 1 then Inr (Usage, w)
            else
              go_bind
                (if rl_handleLeases fl then
                   (case listen of
                      Inl err \<Rightarrow> Inl (LogFatal ''Failed to listen:'')
                    | Inr listenPort \<Rightarrow> Inr (JoinHostPort ''localhost'' listenPort))
                 else Inr [])
                (\<lambda>leaseCallbackAddr.
              go_bind
                (new (JoinHostPort (rl_serverAddress fl) (Itoa (rl_port fl))) leaseCallbackAddr
                   (rl_leaseMode fl leaseCallbackAddr))
                (\<lambda>r. case r of
                   Inl err \<Rightarrow> Inl (LogFatal ''Failed to create libstore:'')
                 | Inr ls \<Rightarrow>
                     go_bind (rl_loop ls fl (nat (rl_numTimes fl)) w) (\<lambda>(out, w).
                       Inr (Lines (out @ (if rl_handleLeases fl then [''Waiting 20 seconds for lease callbacks...''] else [])),
                            w)))))"

subsection \<open>rstorage\<close>

definition defaultMasterPort :: int where
  "defaultMasterPort = 9009"

text \<open>The flag \<open>id\<close> is a \<open>uint\<close> of 64 bits.\<close>

record rstorage_flags =
  rs_port :: int
  rs_masterHostPort :: string
  rs_numNodes :: int
  rs_nodeID :: "64 word"

text \<open>\<open>random\<close> is the number that \<open>rand.Uint32\<close> gives.\<close>

definition rs_randID :: "u32 \<Rightarrow> rstorage_flags \<Rightarrow> u32" where
  "rs_randID random fl = (let randID = ucast (rs_nodeID fl) in if randID = 0 then random else randID)"

definition rstorage_main :: "startup \<Rightarrow> u32 \<Rightarrow> rstorage_flags \<Rightarrow> storageServer go option" where
  "rstorage_main su random fl =
     (let port = (if rs_masterHostPort fl = [] \<and> rs_port fl = 0 then defaultMasterPort else rs_port fl) in
      map_option (\<lambda>m. go_bind m (\<lambda>r.
          case r of Inl err \<Rightarrow> Inl (LogFatal ''Failed to create storage server:'') | Inr ss \<Rightarrow> Inr ss))
        (NewStorageServer su (rs_masterHostPort fl) (rs_numNodes fl) port (rs_randID random fl)))"

subsection \<open>rstwserver and rwebserver\<close>

record rstwserver_flags =
  ra_port :: int
  ra_masterServer :: string
  ra_masterStorageServer :: string
  ra_numNodes :: int

text \<open>What the constructor meets depends on its address and on the master storage server.\<close>

definition rstwserver_main :: "(string \<Rightarrow> string \<Rightarrow> 'w stw_startup) \<Rightarrow> rstwserver_flags \<Rightarrow> 'w stwServer go option" where
  "rstwserver_main st fl =
     (let hostPort = JoinHostPort ''localhost'' (Itoa (ra_port fl)) in
      map_option (\<lambda>m. go_bind m (\<lambda>r.
          case r of Inl err \<Rightarrow> Inl (LogFatal ''Server could not be created:'') | Inr ts \<Rightarrow> Inr ts))
        (NewStwServer (st hostPort (ra_masterStorageServer fl)) hostPort (ra_masterServer fl) (ra_numNodes fl)))"

record rwebserver_flags =
  rw_serverAddress :: string
  rw_port :: int

text \<open>The web server with the address at which it listens.\<close>

definition rwebserver_main ::
  "'f bloom \<Rightarrow> go_error option \<Rightarrow> (nat \<Rightarrow> go_error + StwGetServersReply) \<Rightarrow> rwebserver_flags \<Rightarrow> (string \<times> 'f webServer) go" where
  "rwebserver_main bl dialErr call fl =
     (let hostPort = JoinHostPort ''0.0.0.0'' (Itoa (rw_port fl)) in
      go_bind (NewWebServer bl dialErr call (rw_serverAddress fl)) (\<lambda>r.
        case r of Inl err \<Rightarrow> Inl (LogFatal ''Server could not be created:'') | Inr ws \<Rightarrow> Inr (hostPort, ws)))"

end
