(* ===== verification/Runner_Props.thy ===== *)
theory Runner_Props
  imports Runners Stw_Props
begin

text \<open>
  The programs at work: the commands of \<open>rlibstore\<close> over a cluster, and a storage node started on its own.
\<close>

section \<open>rlibstore\<close>

lemma rl_loop_const:
  assumes "\<And>w. P w \<Longrightarrow> \<exists>w'. rl_command ls fl w = Inr (out, w') \<and> Q w'" and "\<And>w. Q w \<Longrightarrow> P w" and "P w"
  shows "\<exists>w'. rl_loop ls fl n w = Inr (concat (replicate n out), w') \<and> (if n = 0 then w' = w else Q w')"
  using assms(3)
proof (induction n arbitrary: w)
  case (Suc n)
  obtain w1 where 1: "rl_command ls fl w = Inr (out, w1)" "Q w1" using assms(1) [OF Suc.prems] by blast
  from Suc.IH [OF assms(2) [OF 1(2)]] 1 show ?case by (auto split: if_splits)
qed simp

text \<open>The flags without leases.\<close>

definition plain_flags :: "bool \<Rightarrow> string \<Rightarrow> int \<Rightarrow> nat \<Rightarrow> string list \<Rightarrow> rlibstore_flags" where
  "plain_flags force host port n args =
     \<lparr>rl_forceLease = force, rl_serverAddress = host, rl_port = port, rl_numTimes = int n, rl_handleLeases = False, rl_args = args\<rparr>"

lemma plain_main:
  assumes "new (JoinHostPort host (Itoa port)) [] Never = Inr (Inr L)" and "cmdList (hd args) = Some m" and "length args = Suc m" and "0 < m"
    and "\<exists>w'. rl_loop L (plain_flags force host port n args) n w = Inr (out, w') \<and> P w'"
  shows "\<exists>w'. rlibstore_main listen new (plain_flags force host port n args) w = Inr (Lines out, w') \<and> P w'"
proof -
  have "flag_Arg (plain_flags force host port n args) 0 = hd args"
    using assms(3) by (cases args) (simp_all add: flag_Arg_def plain_flags_def)
  with assms show ?thesis by (auto simp: rlibstore_main_def cmdmap_def plain_flags_def rl_leaseMode_def)
qed

text \<open>Each command over the libstore of a cluster.\<close>

lemma put_command:
  assumes "store_inv R N T es {h} w"
  shows "\<exists>w'. rl_loop (cluster_Libstore es h) (plain_flags force host port n [''p'', k, v]) n w = Inr (replicate n ''OK'', w') \<and>
    store_kv R N w' = (if n = 0 then store_kv R N w else (store_kv R N w)(k \<mapsto> {v}))"
proof -
  let ?P = "\<lambda>u. store_inv R N T es {h} u \<and> (store_kv R N u)(k \<mapsto> {v}) = (store_kv R N w)(k \<mapsto> {v})"
  let ?Q = "\<lambda>u. store_inv R N T es {h} u \<and> store_kv R N u = (store_kv R N w)(k \<mapsto> {v})"
  have "\<exists>w'. rl_loop (cluster_Libstore es h) (plain_flags force host port n [''p'', k, v]) n w =
      Inr (concat (replicate n [''OK'']), w') \<and> (if n = 0 then w' = w else ?Q w')"
  proof (rule rl_loop_const [where P = ?P])
    fix u assume "?P u"
    with store_put [of R N T es h "{}" u k v]
    show "\<exists>w'. rl_command (cluster_Libstore es h) (plain_flags force host port n [''p'', k, v]) u = Inr ([''OK''], w') \<and> ?Q w'"
      by (auto simp: rl_command_def flag_Arg_def plain_flags_def write_line_def lib_step_def Let_def)
  qed (use assms in auto)
  then show ?thesis by (auto split: if_splits)
qed

lemma read_command:
  assumes "store_inv R N T es {h} w"
    and "\<And>u. store_inv R N T es {h} u \<Longrightarrow> store_kv R N u = store_kv R N w \<Longrightarrow>
      \<exists>w'. rl_command (cluster_Libstore es h) fl u = Inr (out, w') \<and> store_inv R N T es {h} w' \<and> store_kv R N w' = store_kv R N w"
  shows "\<exists>w'. rl_loop (cluster_Libstore es h) fl n w = Inr (concat (replicate n out), w') \<and> store_kv R N w' = store_kv R N w"
proof -
  let ?P = "\<lambda>u. store_inv R N T es {h} u \<and> store_kv R N u = store_kv R N w"
  have "\<exists>w'. rl_loop (cluster_Libstore es h) fl n w = Inr (concat (replicate n out), w') \<and> (if n = 0 then w' = w else ?P w')"
    by (rule rl_loop_const [where P = ?P]) (use assms in auto)
  then show ?thesis by (auto split: if_splits)
qed

lemma get_command:
  assumes "store_inv R N T es {h} w" and "store_kv R N w k \<in> {None, Some {v}}"
  shows "\<exists>w'. rl_loop (cluster_Libstore es h) (plain_flags force host port n [''g'', k]) n w =
      Inr (replicate n (if store_kv R N w k = None then ''ERROR: Key '' @ k @ '' not found'' else v), w') \<and>
    store_kv R N w' = store_kv R N w"
proof -
  let ?out = "[if store_kv R N w k = None then ''ERROR: Key '' @ k @ '' not found'' else v]"
  have "\<exists>w'. rl_loop (cluster_Libstore es h) (plain_flags force host port n [''g'', k]) n w = Inr (concat (replicate n ?out), w') \<and>
      store_kv R N w' = store_kv R N w"
  proof (rule read_command [OF assms(1)])
    fix u assume u: "store_inv R N T es {h} u" "store_kv R N u = store_kv R N w"
    then have "store_kv R N u k = None \<or> store_kv R N u k = Some {v}" using assms(2) by auto
    from store_get [of R N T es h "{}" u k v, OF _ this] u assms(2)
    show "\<exists>w'. rl_command (cluster_Libstore es h) (plain_flags force host port n [''g'', k]) u = Inr (?out, w') \<and>
        store_inv R N T es {h} w' \<and> store_kv R N w' = store_kv R N w"
      by (auto simp: rl_command_def flag_Arg_def plain_flags_def lib_step_def error_line_def not_found_def Let_def)
  qed
  then show ?thesis by simp
qed

lemma get_list_command:
  assumes "store_inv R N T es {h} w" and "store_kv R N w k = Some S"
  shows "\<exists>w'. rl_loop (cluster_Libstore es h) (plain_flags force host port n [''lg'', k]) n w =
      Inr (concat (replicate n (sorted_list_of_set S)), w') \<and> store_kv R N w' = store_kv R N w"
proof (rule read_command [OF assms(1)])
  fix u assume u: "store_inv R N T es {h} u" "store_kv R N u = store_kv R N w"
  with store_get_list [of R N T es h "{}" u k] assms(2)
  show "\<exists>w'. rl_command (cluster_Libstore es h) (plain_flags force host port n [''lg'', k]) u = Inr (sorted_list_of_set S, w') \<and>
      store_inv R N T es {h} w' \<and> store_kv R N w' = store_kv R N w"
    by (auto simp: rl_command_def flag_Arg_def plain_flags_def lib_step_def Let_def)
qed

lemma missing_list_command:
  assumes "store_inv R N T es {h} w" and "store_kv R N w k = None"
  shows "\<exists>w'. rl_loop (cluster_Libstore es h) (plain_flags force host port n [''lg'', k]) n w =
      Inr (replicate n (''ERROR: Key '' @ k @ '' not found''), w') \<and> store_kv R N w' = store_kv R N w"
proof -
  let ?out = "[''ERROR: Key '' @ k @ '' not found'']"
  have "\<exists>w'. rl_loop (cluster_Libstore es h) (plain_flags force host port n [''lg'', k]) n w = Inr (concat (replicate n ?out), w') \<and>
      store_kv R N w' = store_kv R N w"
  proof (rule read_command [OF assms(1)])
    fix u assume u: "store_inv R N T es {h} u" "store_kv R N u = store_kv R N w"
    with store_get_list [of R N T es h "{}" u k] assms(2)
    show "\<exists>w'. rl_command (cluster_Libstore es h) (plain_flags force host port n [''lg'', k]) u = Inr (?out, w') \<and>
        store_inv R N T es {h} w' \<and> store_kv R N w' = store_kv R N w"
      by (auto simp: rl_command_def flag_Arg_def plain_flags_def lib_step_def error_line_def not_found_def Let_def)
  qed
  then show ?thesis by simp
qed

text \<open>An item is appended once, or removed once; the libstore names the reason for refusing it.\<close>

lemma append_again:
  assumes "store_inv R N T es {h} w" and "store_kv R N w k = Some S" and "v \<in> S"
  shows "\<exists>w'. lib_AppendToList (cluster_Libstore es h) k v w = Inr (Some (Err (''Item '' @ v @ '' exists under key '' @ k)), w') \<and>
    store_inv R N T es {h} w' \<and> store_kv R N w' = store_kv R N w"
proof -
  have rd: "ready R N h (fst w)" using assms(1) by (simp add: store_inv_def)
  obtain vs where vs: "cl_data R N (fst w) k = Some vs" "set vs = S"
    using assms(2) by (auto simp: store_kv_def abs_kv_def)
  show ?thesis
  proof (rule ls_Append_result [OF rd store_inv_timely [OF assms(1)], where v = v])
    fix cl' assume "ls_AppendToList (es (snd w)) h k v (fst w) =
        Inr (Some (Err (''Item '' @ v @ '' exists under key '' @ k)), cl')"
      "moved R N (es (snd w)) k (cl_data R N (fst w)) (fst w) cl'"
    with store_outcome [where f = "\<lambda>e. ls_AppendToList e h k v", OF assms(1) _ _ refl] show ?thesis
      by (fastforce simp: cluster_Libstore_def lib_step_def simp flip: store_kv_def)
  qed (use vs assms(3) in auto)
qed

lemma remove_again:
  assumes "store_inv R N T es {h} w" and "v \<notin> items (store_kv R N w) k"
  shows "\<exists>w'. lib_RemoveFromList (cluster_Libstore es h) k v w = Inr (Some (Err (''Item '' @ v @ '' not found under key '' @ k)), w') \<and>
    store_inv R N T es {h} w' \<and> store_kv R N w' = store_kv R N w"
proof -
  have rd: "ready R N h (fst w)" using assms(1) by (simp add: store_inv_def)
  show ?thesis
  proof (rule ls_Remove_result [OF rd store_inv_timely [OF assms(1)], where v = v])
    fix cl' assume "ls_RemoveFromList (es (snd w)) h k v (fst w) =
        Inr (Some (Err (''Item '' @ v @ '' not found under key '' @ k)), cl')"
      "moved R N (es (snd w)) k (cl_data R N (fst w)) (fst w) cl'"
    with store_outcome [where f = "\<lambda>e. ls_RemoveFromList e h k v", OF assms(1) _ _ refl] show ?thesis
      by (fastforce simp: cluster_Libstore_def lib_step_def simp flip: store_kv_def)
  qed (use assms(2) in \<open>auto simp: items_def store_kv_def abs_kv_Some\<close>)
qed

text \<open>A command that does something the first time and nothing later.\<close>

lemma rl_loop_once:
  assumes "\<exists>w'. rl_command ls fl w = Inr (first, w') \<and> Q w'" and "\<And>w. Q w \<Longrightarrow> \<exists>w'. rl_command ls fl w = Inr (out, w') \<and> Q w'"
  shows "\<exists>w'. rl_loop ls fl n w = Inr (if n = 0 then [] else first @ concat (replicate (n - 1) out), w') \<and>
    (if n = 0 then w' = w else Q w')"
proof (cases n)
  case (Suc m)
  obtain w1 where 1: "rl_command ls fl w = Inr (first, w1)" "Q w1" using assms(1) by blast
  from rl_loop_const [where P = Q and Q = Q and n = m, OF assms(2) _ 1(2)] 1 Suc show ?thesis by (auto split: if_splits)
qed simp

definition list_lines :: "nat \<Rightarrow> bool \<Rightarrow> string \<Rightarrow> string list" where
  "list_lines n works refusal = (if n = 0 then [] else (if works then ''OK'' else refusal) # replicate (n - 1) refusal)"

lemma append_command:
  assumes "store_inv R N T es {h} w" and "store_kv R N w k = Some {} \<longrightarrow> store_idle w k"
  shows "\<exists>w'. rl_loop (cluster_Libstore es h) (plain_flags force host port n [''la'', k, v]) n w =
      Inr (list_lines n (v \<notin> items (store_kv R N w) k) (''ERROR: Item '' @ v @ '' exists under key '' @ k), w') \<and>
    store_kv R N w' = (if n = 0 then store_kv R N w else snd (kv_append k v (store_kv R N w)))"
proof -
  let ?d = "snd (kv_append k v (store_kv R N w))"
  let ?Q = "\<lambda>u. store_inv R N T es {h} u \<and> store_kv R N u = ?d"
  let ?fl = "plain_flags force host port n [''la'', k, v]" and ?L = "cluster_Libstore es h"
  let ?no = "''ERROR: Item '' @ v @ '' exists under key '' @ k"
  have cmd: "rl_command ?L ?fl u = write_line (lib_AppendToList ?L k v u)" for u
    by (simp add: rl_command_def flag_Arg_def plain_flags_def Let_def)
  have in_d: "\<exists>S. ?d k = Some S \<and> v \<in> S" by (auto simp: kv_append_def split: option.splits)
  have again: "\<exists>u'. rl_command ?L ?fl u = Inr ([?no], u') \<and> ?Q u'" if "?Q u" for u
    using append_again [of R N T es h u k _ v] that in_d by (fastforce simp: cmd write_line_def error_line_def)
  have first: "\<exists>u'. rl_command ?L ?fl w = Inr ([if v \<notin> items (store_kv R N w) k then ''OK'' else ?no], u') \<and> ?Q u'"
  proof (cases "v \<in> items (store_kv R N w) k")
    case True
    then have "?d = store_kv R N w"
      by (auto simp: kv_append_def items_def insert_absorb fun_upd_idem split: option.splits)
    with again [of w] assms(1) True show ?thesis by simp
  next
    case False
    from store_append [of R N T es h "{}" w k v] assms obtain err w' where
      "lib_AppendToList ?L k v w = Inr (err, w')" "err = None \<longleftrightarrow> fst (kv_append k v (store_kv R N w)) = OK"
      "store_inv R N T es {h} w'" "store_kv R N w' = ?d" by (auto simp: lib_step_def)
    with False show ?thesis
      by (auto simp: cmd write_line_def kv_append_def items_def split: option.splits)
  qed
  obtain w' where w': "rl_loop ?L ?fl n w =
      Inr (if n = 0 then [] else [if v \<notin> items (store_kv R N w) k then ''OK'' else ?no] @ concat (replicate (n - 1) [?no]), w')"
    "if n = 0 then w' = w else ?Q w'"
    using rl_loop_once [where Q = ?Q and n = n, OF first again] by blast
  then show ?thesis by (intro exI [of _ w']) (auto simp: list_lines_def)
qed

lemma remove_command:
  assumes "store_inv R N T es {h} w"
  shows "\<exists>w'. rl_loop (cluster_Libstore es h) (plain_flags force host port n [''lr'', k, v]) n w =
      Inr (list_lines n (v \<in> items (store_kv R N w) k) (''ERROR: Item '' @ v @ '' not found under key '' @ k), w') \<and>
    store_kv R N w' = (if n = 0 then store_kv R N w else snd (kv_remove k v (store_kv R N w)))"
proof -
  let ?d = "snd (kv_remove k v (store_kv R N w))"
  let ?Q = "\<lambda>u. store_inv R N T es {h} u \<and> store_kv R N u = ?d"
  let ?fl = "plain_flags force host port n [''lr'', k, v]" and ?L = "cluster_Libstore es h"
  let ?no = "''ERROR: Item '' @ v @ '' not found under key '' @ k"
  have cmd: "rl_command ?L ?fl u = write_line (lib_RemoveFromList ?L k v u)" for u
    by (simp add: rl_command_def flag_Arg_def plain_flags_def Let_def)
  have "v \<notin> items ?d k" by (auto simp: kv_remove_def items_def split: option.splits if_splits)
  then have again: "\<exists>u'. rl_command ?L ?fl u = Inr ([?no], u') \<and> ?Q u'" if "?Q u" for u
    using remove_again [of R N T es h u v k] that by (fastforce simp: cmd write_line_def error_line_def)
  have first: "\<exists>u'. rl_command ?L ?fl w = Inr ([if v \<in> items (store_kv R N w) k then ''OK'' else ?no], u') \<and> ?Q u'"
  proof (cases "v \<in> items (store_kv R N w) k")
    case False
    then have "?d = store_kv R N w"
      by (auto simp: kv_remove_def items_def split: option.splits)
    with again [of w] assms(1) False show ?thesis by simp
  next
    case True
    from store_remove [of R N T es h "{}" w k v] assms obtain err w' where
      "lib_RemoveFromList ?L k v w = Inr (err, w')" "err = None \<longleftrightarrow> fst (kv_remove k v (store_kv R N w)) = OK"
      "store_inv R N T es {h} w'" "store_kv R N w' = ?d" by (auto simp: lib_step_def)
    with True show ?thesis
      by (auto simp: cmd write_line_def kv_remove_def items_def split: option.splits)
  qed
  obtain w' where w': "rl_loop ?L ?fl n w =
      Inr (if n = 0 then [] else [if v \<in> items (store_kv R N w) k then ''OK'' else ?no] @ concat (replicate (n - 1) [?no]), w')"
    "if n = 0 then w' = w else ?Q w'"
    using rl_loop_once [where Q = ?Q and n = n, OF first again] by blast
  then show ?thesis by (intro exI [of _ w']) (auto simp: list_lines_def)
qed

text \<open>C29: \<open>rlibstore\<close> without \<open>-l\<close> makes a libstore without address in mode \<open>Never\<close>, whatever \<open>-fl\<close> says, and executes
  its command as often as \<open>-n\<close> says, over a cluster of storage servers whose clocks stay within one lease's life
  (\<open>store_inv\<close>): \<open>p\<close> prints \<open>OK\<close> each time and stores the value; \<open>g\<close> of a key that is absent or holds one value
  prints the error or the value, \<open>lg\<close> the error or the sorted items of the list, and both leave the data alone.  \<open>la\<close>
  appends the item and prints \<open>OK\<close> the first time, unless it is there, and the error every other time, provided that
  the list is not an empty one that an app server has leased; \<open>lr\<close> likewise removes the item once.
  An unknown command, or one with too few arguments, prints the usage and touches nothing.\<close>

theorem rlibstore_commands:
  assumes "store_inv R N T es {[]} w" and "new (JoinHostPort host (Itoa port)) [] Never = Inr (Inr (cluster_Libstore es []))"
  shows "(\<exists>w'. rlibstore_main listen new (plain_flags force host port n [''p'', k, v]) w = Inr (Lines (replicate n ''OK''), w') \<and>
      store_kv R N w' = (if n = 0 then store_kv R N w else (store_kv R N w)(k \<mapsto> {v}))) \<and>
    (store_kv R N w k \<in> {None, Some {v}} \<longrightarrow>
      (\<exists>w'. rlibstore_main listen new (plain_flags force host port n [''g'', k]) w =
          Inr (Lines (replicate n (if store_kv R N w k = None then ''ERROR: Key '' @ k @ '' not found'' else v)), w') \<and>
        store_kv R N w' = store_kv R N w)) \<and>
    (\<exists>w'. rlibstore_main listen new (plain_flags force host port n [''lg'', k]) w =
        Inr (Lines (concat (replicate n (case store_kv R N w k of None \<Rightarrow> [''ERROR: Key '' @ k @ '' not found'']
                                         | Some S \<Rightarrow> sorted_list_of_set S))), w') \<and>
      store_kv R N w' = store_kv R N w) \<and>
    ((store_kv R N w k = Some {} \<longrightarrow> store_idle w k) \<longrightarrow>
      (\<exists>w'. rlibstore_main listen new (plain_flags force host port n [''la'', k, v]) w =
          Inr (Lines (list_lines n (v \<notin> items (store_kv R N w) k) (''ERROR: Item '' @ v @ '' exists under key '' @ k)), w') \<and>
        store_kv R N w' = (if n = 0 then store_kv R N w else snd (kv_append k v (store_kv R N w))))) \<and>
    (\<exists>w'. rlibstore_main listen new (plain_flags force host port n [''lr'', k, v]) w =
        Inr (Lines (list_lines n (v \<in> items (store_kv R N w) k) (''ERROR: Item '' @ v @ '' not found under key '' @ k)), w') \<and>
      store_kv R N w' = (if n = 0 then store_kv R N w else snd (kv_remove k v (store_kv R N w)))) \<and>
    (cmdList cmd = None \<or> length args < the (cmdList cmd) \<longrightarrow>
      rlibstore_main listen new (plain_flags force host port n (cmd # args)) w = Inr (Usage, w))"
proof (intro conjI impI)
  note main = plain_main [where new = new and host = host and port = port, OF assms(2)]
  show "\<exists>w'. rlibstore_main listen new (plain_flags force host port n [''p'', k, v]) w = Inr (Lines (replicate n ''OK''), w') \<and>
      store_kv R N w' = (if n = 0 then store_kv R N w else (store_kv R N w)(k \<mapsto> {v}))"
    by (rule main [where m = 2, OF _ _ _ put_command [OF assms(1)]]) (simp_all add: cmdList_def)
  show "\<exists>w'. rlibstore_main listen new (plain_flags force host port n [''g'', k]) w =
        Inr (Lines (replicate n (if store_kv R N w k = None then ''ERROR: Key '' @ k @ '' not found'' else v)), w') \<and>
      store_kv R N w' = store_kv R N w" if "store_kv R N w k \<in> {None, Some {v}}"
    by (rule main [where m = 1, OF _ _ _ get_command [OF assms(1) that]]) (simp_all add: cmdList_def)
  have "\<exists>w'. rl_loop (cluster_Libstore es []) (plain_flags force host port n [''lg'', k]) n w =
      Inr (concat (replicate n (case store_kv R N w k of None \<Rightarrow> [''ERROR: Key '' @ k @ '' not found'']
                                | Some S \<Rightarrow> sorted_list_of_set S)), w') \<and> store_kv R N w' = store_kv R N w"
    using get_list_command [OF assms(1), of k] missing_list_command [OF assms(1), of k] by (cases "store_kv R N w k") auto
  then show "\<exists>w'. rlibstore_main listen new (plain_flags force host port n [''lg'', k]) w =
        Inr (Lines (concat (replicate n (case store_kv R N w k of None \<Rightarrow> [''ERROR: Key '' @ k @ '' not found'']
                                         | Some S \<Rightarrow> sorted_list_of_set S))), w') \<and>
      store_kv R N w' = store_kv R N w"
    by (rule main [where m = 1, rotated -1]) (simp_all add: cmdList_def)
  show "\<exists>w'. rlibstore_main listen new (plain_flags force host port n [''la'', k, v]) w =
          Inr (Lines (list_lines n (v \<notin> items (store_kv R N w) k) (''ERROR: Item '' @ v @ '' exists under key '' @ k)), w') \<and>
        store_kv R N w' = (if n = 0 then store_kv R N w else snd (kv_append k v (store_kv R N w)))"
    if "store_kv R N w k = Some {} \<longrightarrow> store_idle w k"
    by (rule main [where m = 2, OF _ _ _ append_command [OF assms(1) that]]) (simp_all add: cmdList_def)
  show "\<exists>w'. rlibstore_main listen new (plain_flags force host port n [''lr'', k, v]) w =
        Inr (Lines (list_lines n (v \<in> items (store_kv R N w) k) (''ERROR: Item '' @ v @ '' not found under key '' @ k)), w') \<and>
      store_kv R N w' = (if n = 0 then store_kv R N w else snd (kv_remove k v (store_kv R N w)))"
    by (rule main [where m = 2, OF _ _ _ remove_command [OF assms(1)]]) (simp_all add: cmdList_def)
  assume "cmdList cmd = None \<or> length args < the (cmdList cmd)"
  then show "rlibstore_main listen new (plain_flags force host port n (cmd # args)) w = Inr (Usage, w)"
    by (auto simp: rlibstore_main_def plain_flags_def flag_Arg_def cmdmap_def split: option.splits)
qed

text \<open>The cluster of the demonstration with the libstore that \<open>NewLibstore\<close> gives \<open>rlibstore\<close> beside those of the app
  servers.\<close>

definition runner_lib :: libstore where
  "runner_lib = (new_libstore [] Never)\<lparr>ls_ring := [5], ls_nodes := [5 \<mapsto> ''s:1'']\<rparr>"

definition runner_world :: world where
  "runner_world = ((fst demo_world)\<lparr>cl_libs := (cl_libs demo_cluster)([] \<mapsto> runner_lib)\<rparr>, 0)"

lemma runner_same [simp]:
  "cl_servers (fst runner_world) = cl_servers (fst demo_world)"
  "cl_data demo_ring demo_addresses (fst runner_world) = demo_data"
  "cl_tenants demo_ring demo_addresses (fst runner_world) k = []"
  by (auto simp: runner_world_def demo_world_def server_for_def cl_data_def cl_tenants_def demo_node_def tenants_of_def fun_eq_iff)

lemma runner_libs:
  assumes "cl_libs (fst runner_world) h = Some ls"
  shows "lib_ok demo_ring demo_addresses h ls" and "\<not> granted ls k"
proof -
  have new: "lib_ok demo_ring demo_addresses [] runner_lib" "\<not> granted runner_lib k" for k
    by (simp_all add: lib_ok_def runner_lib_def new_libstore_def lib_conns_wf_def lib_inv_def granted_def lrec_def)
  have old: "lib_ok demo_ring demo_addresses h ls" "\<not> granted ls k" if "cl_libs demo_cluster h = Some ls" for k
    using that cl_wf_lib [OF demo_wf] demo_libs [OF that] by auto
  show "lib_ok demo_ring demo_addresses h ls" "\<not> granted ls k"
    using assms new old by (auto simp: runner_world_def split: if_splits)
qed

lemma runner_inv: "store_inv demo_ring demo_addresses 100 demo_clock {[]} runner_world"
proof -
  have "cl_wf demo_ring demo_addresses (fst demo_world)" using demo_ready by (simp add: ready_def)
  then have "cl_wf demo_ring demo_addresses (fst runner_world)"
    using runner_libs(1) by (auto simp: cl_wf_def libs_wf_def)
  moreover have "coherent demo_ring demo_addresses (fst runner_world)" using runner_libs(2) unfolding coherent_def by blast
  ultimately have "ready demo_ring demo_addresses [] (fst runner_world)" by (simp add: ready_def runner_world_def)
  then show ?thesis by (simp add: store_inv_def in_window_def demo_clock_def at_time_def)
qed

definition demo_new :: "string \<Rightarrow> string \<Rightarrow> LeaseMode \<Rightarrow> (go_error + world Libstore) go" where
  "demo_new master addr mode =
     Inr (if addr = [] \<and> mode = Never then Inr (cluster_Libstore demo_clock []) else Inl (Err ''no listener''))"

theorem rlibstore_commands_witness:
  "(\<exists>w'. rlibstore_main (Inr ''0'') demo_new (plain_flags True ''localhost'' 9009 2 [''g'', FormatPostKey ''bob'' 1]) runner_world =
     Inr (Lines [''first'', ''first''], w')) \<and>
   (\<exists>w'. rlibstore_main (Inr ''0'') demo_new (plain_flags True ''localhost'' 9009 2 [''la'', FormatSubListKey ''bob'', ''alice'']) runner_world =
     Inr (Lines [''OK'', ''ERROR: Item alice exists under key bob:sublist''], w'))"
proof -
  have kv: "store_kv demo_ring demo_addresses runner_world = abs_kv demo_data" by (simp add: store_kv_def)
  have first: "store_kv demo_ring demo_addresses runner_world (FormatPostKey ''bob'' 1) = Some {''first''}"
    unfolding kv by (simp add: demo_data_def abs_kv_def FormatPostKey_inj)
  have none: "store_kv demo_ring demo_addresses runner_world (FormatSubListKey ''bob'') = None"
    unfolding kv by (simp add: demo_data_def abs_kv_def)
  have new: "demo_new (JoinHostPort ''localhost'' (Itoa 9009)) [] Never = Inr (Inr (cluster_Libstore demo_clock []))"
    by (simp add: demo_new_def)
  note run = rlibstore_commands [where new = demo_new and host = "''localhost''" and port = 9009 and n = 2 and force = True
      and listen = "Inr ''0''", OF runner_inv new]
  have key: "FormatSubListKey ''bob'' = ''bob:sublist''" by code_simp
  from run [where k = "FormatPostKey ''bob'' 1" and v = "''first''", THEN conjunct2, THEN conjunct1] first
  have "\<exists>w'. rlibstore_main (Inr ''0'') demo_new (plain_flags True ''localhost'' 9009 2 [''g'', FormatPostKey ''bob'' 1]) runner_world =
      Inr (Lines (replicate 2 ''first''), w')" by auto
  moreover from run [where k = "FormatSubListKey ''bob''" and v = "''alice''", THEN conjunct2, THEN conjunct2, THEN conjunct2,
      THEN conjunct1] none
  have "\<exists>w'. rlibstore_main (Inr ''0'') demo_new (plain_flags True ''localhost'' 9009 2 [''la'', FormatSubListKey ''bob'', ''alice'']) runner_world =
      Inr (Lines (list_lines 2 True (''ERROR: Item alice exists under key '' @ FormatSubListKey ''bob'')), w')"
    by (auto simp: items_def)
  ultimately show ?thesis by (simp add: key list_lines_def numeral_2_eq_2)
qed

section \<open>rstorage\<close>

text \<open>C30: a storage server started by \<open>rstorage\<close> as the master of a ring of one node comes up at once, at \<open>localhost\<close> and the
  port of the flag (9009 when it is 0), and owns every key.  Its identifier is the low 32 bits of the flag \<open>id\<close>;
  when these are all zero, as for the default, it is the random number.\<close>

theorem rstorage_lone_master:
  fixes fl :: rstorage_flags and random :: u32
  defines "port \<equiv> if rs_port fl = 0 then 9009 else rs_port fl"
    and "nid \<equiv> if unat (rs_nodeID fl) mod 2 ^ 32 = 0 then random else of_nat (unat (rs_nodeID fl) mod 2 ^ 32)"
  assumes "rs_masterHostPort fl = []" and "rs_numNodes fl \<le> 1" and "su_listen su (''localhost:'' @ Itoa port) = None"
    and "su_register su = None" and "su_polled su 0 = new_storageServer [] (rs_numNodes fl) port nid"
  shows "\<exists>ss. rstorage_main su random fl = Some (Inr ss) \<and> ss_nodeID ss = nid \<and> ss_nodes ss = [(nid, ''localhost:'' @ Itoa port)] \<and>
    gs_Status (ss_GetServers (\<lambda>xs. xs) ss) = OK \<and> (\<forall>key. SearchHashRing (ss_ring ss) key = Inr nid)"
proof -
  have "(ucast (rs_nodeID fl) :: u32) = of_nat (unat (rs_nodeID fl))" by simp
  moreover have "(of_nat n :: u32) = of_nat (n mod 2 ^ 32)" "(of_nat n :: u32) = 0 \<longleftrightarrow> n mod 2 ^ 32 = 0" for n
    by (simp_all add: word_of_nat_eq_iff word_of_nat_eq_0_iff take_bit_eq_mod dvd_eq_mod_eq_0)
  ultimately have nid: "rs_randID random fl = nid" unfolding rs_randID_def nid_def Let_def by metis
  let ?ss = "new_storageServer [] (rs_numNodes fl) port nid"
  have ss: "ss_ring ?ss = [nid]" "ss_nodes ?ss = [(nid, ''localhost:'' @ Itoa port)]" "ss_nodeID ?ss = nid"
    "ss_numNodes ?ss = rs_numNodes fl"
    by (simp_all add: new_storageServer_def)
  have "await_ring (su_polled su) (rs_numNodes fl) 0 = Some ?ss"
    using assms(4,7) ss(1) by (subst await_ring.simps) simp
  with assms(3,5,6) have "NewStorageServer su (rs_masterHostPort fl) (rs_numNodes fl) port nid = Some (Inr (Inr ?ss))"
    by (simp add: NewStorageServer_def Let_def)
  moreover have "(if rs_masterHostPort fl = [] \<and> rs_port fl = 0 then defaultMasterPort else rs_port fl) = port"
    by (simp add: assms(3) port_def defaultMasterPort_def)
  ultimately have "rstorage_main su random fl = Some (Inr ?ss)" by (simp add: rstorage_main_def nid)
  moreover have "SearchHashRing (ss_ring ?ss) key = Inr nid" for key by (simp add: ss SearchHashRing_owner)
  ultimately show ?thesis using ss assms(4) by (auto simp: ss_GetServers_def)
qed

definition lone_flags :: rstorage_flags where
  "lone_flags = \<lparr>rs_port = 0, rs_masterHostPort = [], rs_numNodes = 1, rs_nodeID = 4294967303\<rparr>"

definition lone_startup :: startup where
  "lone_startup = \<lparr>su_listen = (\<lambda>_. None), su_register = None, su_polled = (\<lambda>_. new_storageServer [] 1 9009 7),
     su_dial = (\<lambda>_. False), su_call = (\<lambda>_. Inl (Err []))\<rparr>"

theorem rstorage_lone_master_witness:
  "\<exists>ss. rstorage_main lone_startup 11 lone_flags = Some (Inr ss) \<and> ss_nodeID ss = 7 \<and> SearchHashRing (ss_ring ss) ''k'' = Inr 7"
  using rstorage_lone_master [of lone_flags lone_startup 11] by (auto simp: lone_flags_def lone_startup_def)

end
