(* ===== verification/Spec2Isabelle.thy ===== *)
theory Spec2Isabelle
  imports Util_Props Storage_Props Libstore_Props Libstore_Threads Cluster_Props Stw_Props Interleave_Props Web_Props Runner_Props
begin

text \<open>
  A verification development for SimpleTwitter, a small social network in Go.

  \<^bold>\<open>The program.\<close>  Storage servers keep a map from keys to lists of strings.  Keys are distributed over the servers by
  consistent hashing, and a server grants leases to readers, which it revokes by a callback before a write.  An app
  server links a libstore, the client of the storage servers with a cache of leased values, and implements users,
  subscriptions, posts and timelines on top of it.  A web server forwards HTTP requests to the app server that a hash
  of the user selects, and shields itself from load with a puzzle page.  Two client libraries talk to an app
  server and to the web server.

  \<^bold>\<open>Theories and sources.\<close>  Paths are relative to \<open>src/src\<close>.
  \<^item> \<open>Go_Prelude\<close>, \<open>Go_Strings\<close>: the fragment of Go that is used: crashes as values of a sum, slices, strings,
    numbers in base 16, FNV hashing.
  \<^item> \<open>Storage_Rpc\<close>, \<open>Stw_Rpc\<close>: the types of \<open>rpc/storagerpc/proto.go\<close> and \<open>rpc/stwrpc/proto.go\<close>.
  \<^item> \<open>Util_Common\<close>, \<open>Key_Formatter\<close>: \<open>util/common.go\<close> with \<open>StoreHash\<close> of \<open>libstore/libstore_api.go\<close>, and
    \<open>util/keyFormatter.go\<close>; \<open>Util_Props\<close> has their properties.
  \<^item> \<open>Storage_Server\<close>: \<open>storageserver/storageserver_impl.go\<close>, the struct as a record, one definition per handler,
    \<open>ss_serve\<close> as the dispatcher of \<open>rpc/storagerpc/rpc.go\<close>, and \<open>NewStorageServer\<close>; \<open>Storage_Correct\<close> has
    the invariant and the abstract map, \<open>Storage_Props\<close> the properties.
  \<^item> \<open>Libstore\<close>: \<open>libstore/libstore_impl.go\<close>, the parts that run under the lock, the callback, the recycler and
    \<open>NewLibstore\<close>; records live on a heap, since \<open>Get\<close> keeps a pointer to one while the lock is free.
    \<open>Libstore_Correct\<close> and \<open>Libstore_Props\<close> have the invariant and the properties of the critical sections;
    \<open>Libstore_Threads\<close> runs the critical sections of any number of goroutines, of callbacks and of the recycler in
    any order, as a step relation.
  \<^item> \<open>Cluster\<close>: the exported methods of the libstore, run over storage servers by address and libstores by callback
    address.  \<open>Coherence\<close> relates caches, lease records and data; \<open>Cluster_Run\<close> and \<open>Cluster_Props\<close> treat
    sequences of calls.
  \<^item> \<open>Libstore_Api\<close>: the Go interface \<open>Libstore\<close> as a record and its contract as a locale; \<open>Cluster_Store\<close>
    interprets the locale on the methods of \<open>Cluster\<close>.
  \<^item> \<open>Stw_Server\<close>: \<open>stwserver/stwserver_impl.go\<close>, every handler over the interface, the dispatcher of
    \<open>rpc/stwrpc/rpc.go\<close> and \<open>NewStwServer\<close>; \<open>Stw_Correct\<close> and \<open>Stw_Timelines\<close> prove the handlers correct inside
    the contract, \<open>Stw_Props\<close> states the properties over the cluster.
  \<^item> \<open>Stw_Programs\<close>: the same handlers cut at their calls of the libstore, as trees of calls.  \<open>Stw_Interleave\<close> runs
    pools of such programs, one call at a time, on several app servers; its locale \<open>libstore_pool\<close> asks for the
    contract of each libstore, and \<open>Interleave_Props\<close> interprets it on a cluster and states the properties.
  \<^item> \<open>Http\<close>, \<open>Backend\<close>: what is used of \<open>net/http\<close>, \<open>net/url\<close> and \<open>encoding/json\<close>, and the app servers as a
    client sees them, with their contract as a locale.
  \<^item> \<open>Web_Server\<close>, \<open>Web_Clients\<close>: \<open>webserver/webserver_impl.go\<close>, \<open>stwclient/stwclient_impl.go\<close> and
    \<open>httpclient/httpclient_impl.go\<close>.  \<open>Web_Correct\<close> proves the handlers correct inside the contract, \<open>App_Tier\<close>
    interprets it on app servers over a cluster, \<open>Web_Props\<close> has the properties of the whole system.
  \<^item> \<open>Runners\<close>: the \<open>main\<close> functions under \<open>runners/\<close>; \<open>Runner_Props\<close> has their properties.

  \<^bold>\<open>What is shown.\<close>  Each tier is compared with an abstract specification, and the refinements compose.
  \<^item> A storage server that has joined the ring serves every request and keeps its invariant, or ends with \<open>log.Fatal\<close>
    on a write that meets an unexpired lease of an app server that cannot be dialled.  When the app servers can be dialled
    it answers as a map from keys to sets does, and a write calls exactly the holders of unexpired leases, except
    for an append to a list that is present and empty, which calls nobody.
  \<^item> Any interleaving of calls of several libstores and of recycler rounds answers as one map does, so every cached
    read returns the stored data, provided that writes meet lease records that have not run out and no list is
    appended to that is empty and leased.
  \<^item> The handlers of the app server refine a specification with sets of users and subscriptions and the posts of each
    user by time; timelines hold the newest hundred posts, newest first, whatever the sort does with equal elements,
    when no user whose posts they read has a colon in the name (\<open>plain_names\<close>).  An operation that appends must not
    meet an empty list that is leased (\<open>may_append\<close>, \<open>tier_may\<close>).
  \<^item> Under every interleaving of critical sections a libstore keeps an invariant by which no lookup, reply or recycler
    round crashes; a callback can crash only after the recycler ran, and does so in one race.
  \<^item> Under every covered interleaving of the calls of concurrent requests (no two posts of a user at one nanosecond, no
    append to an empty leased list), listed posts have contents, follows relate
    users, and updates are linearizable: those answered \<open>OK\<close>, and no others, are accepted one after the other
    by the specification, in an order that respects answers and arrivals.  The exception is a \<open>CreateUser\<close> that lost
    the race with another one for the same new user: it is answered \<open>OK\<close> and has no effect.  The proof annotates each request with the
    users it knows, the post key it holds and whether it has taken effect; the handlers keep a discipline
    over these (\<open>disc\<close>), shown by induction over their programs.
  \<^item> A request that the load protection admits is answered as that specification says, through all tiers, under the
    conditions of the tiers below; a request that stands for no operation is answered and has no effect.
    The two clients agree when the load protection does not hinder the client and the app server can be dialled.
  \<^item> The places where the code falls short have theorems too: reads that stay stale after an append to an
    empty list or after a lease that was extended by hits, for as long as the reader goes on reading; a renewed lease that
    a write takes for expired, a revocation that comes too early;
    crashes of an unjoined storage server, of a callback after the recycler, of a read of a cached empty list, of
    the web server on an unreachable app server; a slave app server that learns no address; deletions that
    are never executed; users that are created twice, and timelines that fail while a post is deleted.

  \<^bold>\<open>Modelling decisions.\<close>
  \<^item> A handler of a storage server runs as one step, as it does under \<open>ss.lock\<close>.  A method of a libstore runs its
    critical sections and its RPC in one step of \<open>Cluster\<close>; the interleavings inside a method are
    treated on the critical sections themselves (\<open>Libstore_Threads\<close>, \<open>Libstore_Props\<close>).  Pools of requests take
    these methods as atomic.  A pool is the set of runs that the theorems cover, not a translation of code: it leaves
    out runs in which two posts of a user read the same nanosecond, and appends to an empty leased list.
  \<^item> Time and the network are arguments: readings of the clocks by call, outcomes of dialling and of calls.  The
    contract of the libstore holds while the clocks of the storage servers stay within the life of a lease and
    its guard (\<open>in_window\<close>); beyond it the stale reads are possible, and are shown.
  \<^item> Loops are recursion.  Binary search, the five attempts of \<open>NewLibstore\<close> and \<open>NewWebServer\<close> and the dialling of
    the master have termination proofs; the loops that wait for other servers are partial functions into
    \<open>option\<close>, and the properties of a start say when it returns.  No fuel is used.
  \<^item> A slave joins its ring in one run: \<open>NewStorageServer\<close> and \<open>NewStwServer\<close> serve RPCs while they wait for the master,
    and those are not interleaved with the loop.  What a storage server does with data requests before it has joined is shown.
  \<^item> A libstore without an address for callbacks, as \<open>rlibstore\<close> makes it, is in mode \<open>Never\<close>, and a cluster has at
    most one of them, since its libstores are found by address.
  \<^item> A panic inside an RPC handler or a call of \<open>log.Fatal\<close> ends the process; \<open>net/http\<close> recovers from a panic of a
    web handler.
  \<^item> Unsigned 32-bit hashes and node identifiers are words; times are integers with the range of \<open>int64\<close> where
    it matters.  The average latency of the web server is a real number.
  \<^item> The sort of the standard library is specified by a locale, with insertion sort as an instance; the Bloom filter
    is third-party code and an argument.

  \<^bold>\<open>Not modelled.\<close>  The JavaScript front end; static files, redirects, logging and connection handling of \<open>net/http\<close>
  and \<open>net/rpc\<close>; the textual form of JSON and of URLs; the texts of usage messages; the data races on maps that are
  written without a lock; the test programs.
\<close>

end
